(* ===== verification/Prelude.thy ===== *)
theory Prelude
  imports Main "HOL-Library.AList" "HOL-Library.Sublist" "HOL-Library.Char_ord"
    "HOL-Library.List_Lexorder"
begin

text \<open>
  What every component theory shares: Go's strings and string functions, Go's maps, error
  results, and the interfaces (locales) of a string-keyed map and of a transition system.

  A Go \<open>string\<close> is a sequence of bytes, so it is a HOL \<open>string\<close> (a list of \<open>char\<close>, and a
  \<open>char\<close> is a byte). The case-mapping and white-space functions are those of Go on ASCII
  strings; on bytes above 127 they are the identity, where Go would fold Unicode letters.

  A Go map is an association list with distinct keys. The order of the list is the order in
  which one \<open>range\<close> loop visits the map, which Go leaves open: a statement for every list
  with the same entries is a statement for every iteration order.
\<close>

named_theorems go_str \<open>laws of Go's string functions\<close>
named_theorems go_map \<open>laws of Go's maps\<close>

type_synonym 'v smap = "(string \<times> 'v) list"

subsection \<open>Error results\<close>

text \<open>A Go call \<open>x, err := f()\<close> followed by \<open>if err != nil { return ..., err }\<close>.\<close>

definition bind_res :: "'e + 'a \<Rightarrow> ('a \<Rightarrow> 'e + 'b) \<Rightarrow> 'e + 'b" where
  "bind_res r f = (case r of Inl e \<Rightarrow> Inl e | Inr x \<Rightarrow> f x)"

lemma bind_res_simps [simp]:
  "bind_res (Inl e) f = Inl e"
  "bind_res (Inr x) f = f x"
  by (simp_all add: bind_res_def)

lemma bind_res_eq_Inr [simp]: "bind_res r f = Inr y \<longleftrightarrow> (\<exists>x. r = Inr x \<and> f x = Inr y)"
  by (cases r) simp_all

lemma bind_res_eq_Inl:
  "bind_res r f = Inl e \<longleftrightarrow> r = Inl e \<or> (\<exists>x. r = Inr x \<and> f x = Inl e)"
  by (cases r) simp_all

lemma bind_res_cong [fundef_cong]:
  "r = r' \<Longrightarrow> (\<And>x. r' = Inr x \<Longrightarrow> f x = g x) \<Longrightarrow> bind_res r f = bind_res r' g"
  by (cases r') simp_all

text \<open>A loop that calls \<open>f\<close> on every element and returns at the first error.\<close>

fun map_res :: "('a \<Rightarrow> 'e + 'b) \<Rightarrow> 'a list \<Rightarrow> 'e + 'b list" where
  "map_res f [] = Inr []"
| "map_res f (x # xs) =
     bind_res (f x) (\<lambda>y. bind_res (map_res f xs) (\<lambda>ys. Inr (y # ys)))"

lemma map_res_cong [fundef_cong]:
  "xs = ys \<Longrightarrow> (\<And>x. x \<in> set ys \<Longrightarrow> f x = g x) \<Longrightarrow> map_res f xs = map_res g ys"
  by (induction xs arbitrary: ys) (auto intro!: bind_res_cong)

lemma map_res_Inr_iff:
  "map_res f xs = Inr ys \<longleftrightarrow> list_all2 (\<lambda>x y. f x = Inr y) xs ys"
  by (induction xs arbitrary: ys) (auto simp: list_all2_Cons1)

lemma map_res_total: "(\<And>x. x \<in> set xs \<Longrightarrow> f x = Inr (g x)) \<Longrightarrow> map_res f xs = Inr (map g xs)"
  by (induction xs) auto

subsection \<open>Strings\<close>

abbreviation newline :: char where "newline \<equiv> CHR 0x0A"
abbreviation squote :: char where "squote \<equiv> CHR 0x27"

definition HasPrefix :: "string \<Rightarrow> string \<Rightarrow> bool" where
  "HasPrefix s p \<longleftrightarrow> take (length p) s = p"

definition HasSuffix :: "string \<Rightarrow> string \<Rightarrow> bool" where
  "HasSuffix s p \<longleftrightarrow> length p \<le> length s \<and> drop (length s - length p) s = p"

definition TrimPrefix :: "string \<Rightarrow> string \<Rightarrow> string" where
  "TrimPrefix s p = (if HasPrefix s p then drop (length p) s else s)"

definition TrimSuffix :: "string \<Rightarrow> string \<Rightarrow> string" where
  "TrimSuffix s p = (if HasSuffix s p then take (length s - length p) s else s)"

lemma HasPrefix_iff [go_str]: "HasPrefix s p \<longleftrightarrow> (\<exists>r. s = p @ r)"
  by (auto simp: HasPrefix_def intro: exI[of _ "drop (length p) s"]) (metis append_take_drop_id)

lemma HasPrefix_append [simp]: "HasPrefix (p @ r) p"
  by (simp add: HasPrefix_def)

lemma HasPrefix_Nil [simp]: "HasPrefix s []"
  by (simp add: HasPrefix_def)

lemma HasPrefix_Cons [simp]:
  "HasPrefix (c # s) (d # p) \<longleftrightarrow> c = d \<and> HasPrefix s p"
  "\<not> HasPrefix [] (d # p)"
  by (auto simp: HasPrefix_def)

lemma HasSuffix_iff [go_str]: "HasSuffix s p \<longleftrightarrow> (\<exists>r. s = r @ p)"
proof
  assume "HasSuffix s p"
  then have "s = take (length s - length p) s @ p"
    by (metis HasSuffix_def append_take_drop_id)
  then show "\<exists>r. s = r @ p" ..
qed (auto simp: HasSuffix_def)

text \<open>\<open>strings.Index\<close>: the first position of \<open>sub\<close>, \<open>None\<close> for Go's \<open>-1\<close>.\<close>

fun str_index :: "string \<Rightarrow> string \<Rightarrow> nat option" where
  "str_index [] sub = (if sub = [] then Some 0 else None)"
| "str_index (c # s) sub =
     (if HasPrefix (c # s) sub then Some 0 else map_option Suc (str_index s sub))"

definition str_contains :: "string \<Rightarrow> string \<Rightarrow> bool" where
  "str_contains s sub \<longleftrightarrow> str_index s sub \<noteq> None"

lemma str_index_Some:
  "str_index s sub = Some i \<Longrightarrow> i + length sub \<le> length s \<and> s = take i s @ sub @ drop (i + length sub) s"
proof (induction s arbitrary: i)
  case Nil
  then show ?case by (auto split: if_splits)
next
  case (Cons c s)
  show ?case
  proof (cases "HasPrefix (c # s) sub")
    case True
    then obtain r where r: "c # s = sub @ r" by (auto simp: go_str)
    from Cons.prems True have "i = 0" by simp
    moreover have "length sub \<le> length (c # s)" unfolding r by simp
    moreover have "drop (length sub) (c # s) = r" unfolding r by simp
    ultimately show ?thesis using r by (simp del: drop_Cons')
  next
    case False
    with Cons.prems obtain j where j: "str_index s sub = Some j" "i = Suc j" by auto
    with Cons.IH[OF j(1)] show ?thesis by simp
  qed
qed

lemma str_index_None: "str_index s sub = None \<Longrightarrow> s \<noteq> a @ sub @ b"
proof (induction s arbitrary: a)
  case Nil
  then show ?case by (auto split: if_splits)
next
  case (Cons c s)
  then have np: "\<not> HasPrefix (c # s) sub" and n: "str_index s sub = None"
    by (auto split: if_splits)
  show ?case
  proof
    assume eq: "c # s = a @ sub @ b"
    show False
    proof (cases a)
      case Nil
      with eq np show False by (metis HasPrefix_append append_Nil)
    next
      case (Cons x xs)
      with eq have "s = xs @ sub @ b" by simp
      with Cons.IH[OF n] show False by blast
    qed
  qed
qed

lemma str_contains_iff [go_str]: "str_contains s sub \<longleftrightarrow> sublist sub s"
proof
  assume "str_contains s sub"
  then obtain i where "str_index s sub = Some i" by (auto simp: str_contains_def)
  from str_index_Some[OF this] show "sublist sub s" unfolding sublist_def by metis
next
  assume "sublist sub s"
  then obtain a b where "s = a @ sub @ b" by (auto simp: sublist_def)
  then show "str_contains s sub"
    unfolding str_contains_def using str_index_None by blast
qed

text \<open>\<open>strings.Cut\<close>: text before and after the first \<open>sep\<close>, and whether it was found.\<close>

definition str_cut :: "string \<Rightarrow> string \<Rightarrow> string \<times> string \<times> bool" where
  "str_cut s sep = (case str_index s sep of
     None \<Rightarrow> (s, [], False)
   | Some i \<Rightarrow> (take i s, drop (i + length sep) s, True))"

text \<open>\<open>strings.LastIndex\<close> of a one-byte string.\<close>

definition last_index :: "string \<Rightarrow> char \<Rightarrow> nat option" where
  "last_index s c = (if c \<in> set s
     then Some (length s - 1 - length (takeWhile (\<lambda>d. d \<noteq> c) (rev s))) else None)"

text \<open>\<open>strings.Split\<close> at a one-byte separator, \<open>strings.SplitN(s, sep, 2)\<close>, \<open>strings.Join\<close>.\<close>

fun str_split :: "char \<Rightarrow> string \<Rightarrow> string list" where
  "str_split c [] = [[]]"
| "str_split c (d # s) = (if d = c then [] # str_split c s
     else (case str_split c s of [] \<Rightarrow> [[d]] | w # ws \<Rightarrow> (d # w) # ws))"

definition str_splitn2 :: "char \<Rightarrow> string \<Rightarrow> string list" where
  "str_splitn2 c s = (if c \<in> set s
     then [takeWhile (\<lambda>d. d \<noteq> c) s, tl (dropWhile (\<lambda>d. d \<noteq> c) s)] else [s])"

fun str_join :: "string list \<Rightarrow> string \<Rightarrow> string" where
  "str_join [] sep = []"
| "str_join [w] sep = w"
| "str_join (w # ws) sep = w @ sep @ str_join ws sep"

lemma str_split_not_Nil [simp]: "str_split c s \<noteq> []"
  by (cases s) (auto split: list.splits)

lemma str_split_no_sep: "w \<in> set (str_split c s) \<Longrightarrow> c \<notin> set w"
  by (induction s arbitrary: w) (fastforce split: if_splits list.splits)+

lemma str_join_Cons: "ws \<noteq> [] \<Longrightarrow> str_join (w # ws) sep = w @ sep @ str_join ws sep"
  by (cases ws) auto

lemma str_join_split [simp]: "str_join (str_split c s) [c] = s"
proof (induction s)
  case Nil
  then show ?case by simp
next
  case (Cons d s)
  show ?case
  proof (cases "d = c")
    case True
    with Cons show ?thesis by (simp add: str_join_Cons)
  next
    case False
    obtain w ws where w: "str_split c s = w # ws"
      by (metis list.exhaust str_split_not_Nil)
    with Cons False show ?thesis by (cases ws) auto
  qed
qed

lemma str_split_no: "c \<notin> set s \<Longrightarrow> str_split c s = [s]"
  by (induction s) auto

lemma str_split_append:
  "c \<notin> set w \<Longrightarrow> str_split c (w @ c # s) = w # str_split c s"
  by (induction w) auto

lemma str_split_join:
  "ws \<noteq> [] \<Longrightarrow> (\<And>w. w \<in> set ws \<Longrightarrow> c \<notin> set w) \<Longrightarrow> str_split c (str_join ws [c]) = ws"
proof (induction ws)
  case Nil
  then show ?case by simp
next
  case (Cons w ws)
  show ?case
  proof (cases "ws = []")
    case True
    with Cons.prems show ?thesis by (simp add: str_split_no)
  next
    case False
    with Cons show ?thesis by (simp add: str_join_Cons str_split_append)
  qed
qed

text \<open>\<open>strings.ReplaceAll\<close> for a non-empty \<open>old\<close> (the sources never pass an empty one).\<close>

function str_replace :: "string \<Rightarrow> string \<Rightarrow> string \<Rightarrow> string" where
  "str_replace s old new = (if old = [] then s
     else case s of [] \<Rightarrow> []
     | c # cs \<Rightarrow> (if HasPrefix s old then new @ str_replace (drop (length old) s) old new
                 else c # str_replace cs old new))"
  by pat_completeness auto
termination
  by (relation "measure (\<lambda>(s, old, new). length s)") auto

declare str_replace.simps [simp del]

lemma str_replace_Nil [simp]: "str_replace [] old new = []"
  by (simp add: str_replace.simps)

lemma str_replace_hit:
  "HasPrefix s old \<Longrightarrow> old \<noteq> [] \<Longrightarrow> str_replace s old new = new @ str_replace (drop (length old) s) old new"
  by (subst str_replace.simps) (auto simp: HasPrefix_def split: list.split)

lemma str_replace_miss:
  "\<not> HasPrefix (c # cs) old \<Longrightarrow> str_replace (c # cs) old new = c # str_replace cs old new"
  by (subst str_replace.simps) (auto simp: HasPrefix_def)

lemma str_replace_none: "\<not> sublist old s \<Longrightarrow> str_replace s old new = s"
proof (induction s)
  case Nil
  then show ?case by simp
next
  case (Cons c s)
  then have "\<not> HasPrefix (c # s) old"
    by (metis HasPrefix_iff append_Nil sublist_def)
  moreover have "\<not> sublist old s" using Cons.prems by (metis sublist_Cons_right)
  ultimately show ?case using Cons.IH by (simp add: str_replace.simps[of "c # s"])
qed

subsection \<open>Characters, case and white space\<close>

definition is_space :: "char \<Rightarrow> bool" where
  "is_space c \<longleftrightarrow> c \<in> {CHR '' '', CHR 0x09, CHR 0x0A, CHR 0x0B, CHR 0x0C, CHR 0x0D}"

definition TrimSpace :: "string \<Rightarrow> string" where
  "TrimSpace s = rev (dropWhile is_space (rev (dropWhile is_space s)))"

text \<open>\<open>strings.Fields\<close>: the maximal runs of non-space bytes.\<close>

function str_fields :: "string \<Rightarrow> string list" where
  "str_fields s = (case dropWhile is_space s of [] \<Rightarrow> []
     | c # cs \<Rightarrow> takeWhile (\<lambda>d. \<not> is_space d) (c # cs)
                 # str_fields (dropWhile (\<lambda>d. \<not> is_space d) (c # cs)))"
  by pat_completeness auto
termination
proof (relation "measure length", goal_cases)
  case (2 s c cs)
  have "\<not> is_space c" using 2 by (metis hd_dropWhile list.distinct(1) list.sel(1))
  then have "length (dropWhile (\<lambda>d. \<not> is_space d) (c # cs)) \<le> length cs"
    by (simp add: length_dropWhile_le)
  also have "\<dots> < length (dropWhile is_space s)" using 2 by simp
  also have "\<dots> \<le> length s" by (rule length_dropWhile_le)
  finally show ?case by simp
qed simp

declare str_fields.simps [simp del]

definition is_upper :: "char \<Rightarrow> bool" where
  "is_upper c \<longleftrightarrow> CHR ''A'' \<le> c \<and> c \<le> CHR ''Z''"

definition is_lower :: "char \<Rightarrow> bool" where
  "is_lower c \<longleftrightarrow> CHR ''a'' \<le> c \<and> c \<le> CHR ''z''"

definition is_digit :: "char \<Rightarrow> bool" where
  "is_digit c \<longleftrightarrow> CHR ''0'' \<le> c \<and> c \<le> CHR ''9''"

definition lower_char :: "char \<Rightarrow> char" where
  "lower_char c = (if is_upper c then char_of (of_char c + (32 :: nat)) else c)"

definition upper_char :: "char \<Rightarrow> char" where
  "upper_char c = (if is_lower c then char_of (of_char c - (32 :: nat)) else c)"

definition ToLower :: "string \<Rightarrow> string" where
  "ToLower s = map lower_char s"

definition ToUpper :: "string \<Rightarrow> string" where
  "ToUpper s = map upper_char s"

definition EqualFold :: "string \<Rightarrow> string \<Rightarrow> bool" where
  "EqualFold s t \<longleftrightarrow> ToLower s = ToLower t"

lemma EqualFold_refl [simp]: "EqualFold s s"
  by (simp add: EqualFold_def)

lemma EqualFold_sym: "EqualFold s t \<Longrightarrow> EqualFold t s"
  by (simp add: EqualFold_def)

lemma EqualFold_trans: "EqualFold s t \<Longrightarrow> EqualFold t u \<Longrightarrow> EqualFold s u"
  by (simp add: EqualFold_def)

lemma length_ToLower [simp]: "length (ToLower s) = length s"
  by (simp add: ToLower_def)

subsection \<open>Decimal numerals\<close>

definition digit_char :: "nat \<Rightarrow> char" where
  "digit_char d = char_of (48 + d)"

function dec_digits :: "int \<Rightarrow> string" where
  "dec_digits n = (if n < 10 then [digit_char (nat n)]
     else dec_digits (n div 10) @ [digit_char (nat (n mod 10))])"
  by pat_completeness auto
termination
  by (relation "measure nat") auto

declare dec_digits.simps [simp del]

definition nat_digits :: "nat \<Rightarrow> string" where
  "nat_digits n = dec_digits (int n)"

lemma dec_digits_not_Nil [simp]: "dec_digits n \<noteq> []"
  by (subst dec_digits.simps) simp

text \<open>\<open>%d\<close> of an integer.\<close>

definition itoa :: "int \<Rightarrow> string" where
  "itoa i = (if i < 0 then CHR ''-'' # dec_digits (- i) else dec_digits i)"

definition digit_val :: "char \<Rightarrow> int" where
  "digit_val c = of_char c - 48"

fun digits_val :: "string \<Rightarrow> int \<Rightarrow> int" where
  "digits_val [] acc = acc"
| "digits_val (c # cs) acc = digits_val cs (10 * acc + digit_val c)"

text \<open>\<open>strconv.ParseInt(s, 10, 64)\<close>: an optional sign and at least one digit, within 64 bits.\<close>

definition parse_int64 :: "string \<Rightarrow> int option" where
  "parse_int64 s =
     (let neg = HasPrefix s ''-'';
          ds = (if neg \<or> HasPrefix s ''+'' then tl s else s)
      in if ds = [] \<or> \<not> list_all is_digit ds then None
         else let n = digits_val ds 0; v = (if neg then - n else n)
              in if - (2 ^ 63) \<le> v \<and> v < 2 ^ 63 then Some v else None)"

lemma digit_val_nonneg: "is_digit c \<Longrightarrow> 0 \<le> digit_val c"
proof -
  assume "is_digit c"
  then have "48 \<le> (of_char c :: nat)" by (simp add: is_digit_def less_eq_char_def)
  moreover have "(of_char c :: int) = int (of_char c)" by (rule of_nat_of_char [symmetric])
  ultimately show ?thesis unfolding digit_val_def by linarith
qed

lemma digits_val_nonneg: "list_all is_digit ds \<Longrightarrow> 0 \<le> acc \<Longrightarrow> 0 \<le> digits_val ds acc"
proof (induction ds arbitrary: acc)
  case (Cons c cs)
  from Cons.prems have "is_digit c" "list_all is_digit cs" by simp_all
  with Cons.prems(2) have "0 \<le> 10 * acc + digit_val c" using digit_val_nonneg by simp
  with Cons.IH[OF \<open>list_all is_digit cs\<close> this] show ?case by simp
qed simp

lemma parse_int64_nonneg:
  assumes "parse_int64 s = Some n" "CHR ''-'' \<notin> set s"
  shows "0 \<le> n"
proof -
  have np: "\<not> HasPrefix s ''-''" using assms(2) by (cases s) auto
  define ds where "ds = (if HasPrefix s ''+'' then tl s else s)"
  have "parse_int64 s = (if ds = [] \<or> \<not> list_all is_digit ds then None
      else if - (2 ^ 63) \<le> digits_val ds 0 \<and> digits_val ds 0 < 2 ^ 63 then Some (digits_val ds 0) else None)"
    using np by (simp only: parse_int64_def Let_def ds_def simp_thms if_False)
  with assms(1) have "list_all is_digit ds" "n = digits_val ds 0"
    by (simp_all only: split: if_splits) simp_all
  then show ?thesis using digits_val_nonneg by simp
qed

lemma splitn2_head: "c \<notin> set (str_splitn2 c r ! 0)"
  by (auto simp: str_splitn2_def dest: set_takeWhileD)

subsection \<open>Maps\<close>

abbreviation mget :: "'v smap \<Rightarrow> string \<Rightarrow> 'v option" where
  "mget m k \<equiv> map_of m k"

abbreviation mput :: "string \<Rightarrow> 'v \<Rightarrow> 'v smap \<Rightarrow> 'v smap" where
  "mput k v m \<equiv> AList.update k v m"

definition map_wf :: "'v smap \<Rightarrow> bool" where
  "map_wf m \<longleftrightarrow> distinct (map fst m)"

lemma map_wf_Nil [simp, go_map]: "map_wf []"
  by (simp add: map_wf_def)

lemma map_wf_mput [simp, go_map]: "map_wf m \<Longrightarrow> map_wf (mput k v m)"
  by (simp add: map_wf_def distinct_update)

lemma mget_mput [simp, go_map]: "mget (mput k v m) k' = (if k' = k then Some v else mget m k')"
  by (simp add: update_conv')

text \<open>
  The interface of a string-keyed map, and what \<open>for k, v := range src { dst[k] = v }\<close> does
  over any map with it.
\<close>

locale string_map =
  fixes get :: "'m \<Rightarrow> string \<Rightarrow> 'v option"
    and put :: "string \<Rightarrow> 'v \<Rightarrow> 'm \<Rightarrow> 'm"
  assumes get_put: "get (put k v m) k' = (if k' = k then Some v else get m k')"
begin

lemma get_fold_put_notin:
  "k \<notin> fst ` set src \<Longrightarrow> get (fold (\<lambda>(k, v). put k v) src dst) k = get dst k"
  by (induction src arbitrary: dst) (auto simp: get_put)

lemma get_fold_put:
  "distinct (map fst src) \<Longrightarrow> get (fold (\<lambda>(k, v). put k v) src dst) k =
     (case map_of src k of Some v \<Rightarrow> Some v | None \<Rightarrow> get dst k)"
proof (induction src arbitrary: dst)
  case Nil
  then show ?case by simp
next
  case (Cons p src)
  obtain a b where p: "p = (a, b)" by (cases p)
  show ?case
  proof (cases "k = a")
    case True
    with Cons.prems p show ?thesis
      by (simp add: get_fold_put_notin get_put)
  next
    case False
    with Cons p show ?thesis by (simp add: get_put split: option.splits)
  qed
qed

end

definition merge :: "'v smap \<Rightarrow> 'v smap \<Rightarrow> 'v smap" where
  "merge dst src = fold (\<lambda>(k, v). mput k v) src dst"

interpretation amap: string_map mget mput
  by unfold_locales (simp add: update_conv')

lemma mget_merge [go_map]:
  "map_wf src \<Longrightarrow> mget (merge dst src) k = (case mget src k of Some v \<Rightarrow> Some v | None \<Rightarrow> mget dst k)"
  unfolding merge_def map_wf_def by (rule amap.get_fold_put)

lemma map_wf_merge [simp, go_map]: "map_wf dst \<Longrightarrow> map_wf (merge dst src)"
  unfolding merge_def by (induction src arbitrary: dst) auto

text \<open>Two lists are the same Go map when they have the same entries.\<close>

definition same_map :: "'v smap \<Rightarrow> 'v smap \<Rightarrow> bool" where
  "same_map m n \<longleftrightarrow> map_wf m \<and> map_wf n \<and> set m = set n"

lemma same_map_mget: "same_map m n \<Longrightarrow> mget m = mget n"
  by (simp add: same_map_def map_wf_def map_of_inject_set)

lemma same_map_keys: "same_map m n \<Longrightarrow> fst ` set m = fst ` set n"
  by (simp add: same_map_def)

lemma mget_merge_same:
  "same_map src src' \<Longrightarrow> mget (merge dst src) = mget (merge dst src')"
  using same_map_mget[of src src'] by (auto simp: fun_eq_iff mget_merge same_map_def)

subsection \<open>Transition systems\<close>

text \<open>
  A component that runs concurrently is a set of initial states and a step relation. Its
  safety properties are invariants of the reachable states.
\<close>

inductive reachable :: "('s \<Rightarrow> bool) \<Rightarrow> ('s \<Rightarrow> 's \<Rightarrow> bool) \<Rightarrow> 's \<Rightarrow> bool"
  for init :: "'s \<Rightarrow> bool" and step :: "'s \<Rightarrow> 's \<Rightarrow> bool" where
  reach_init: "init s \<Longrightarrow> reachable init step s"
| reach_step: "reachable init step s \<Longrightarrow> step s t \<Longrightarrow> reachable init step t"

locale invariant_system =
  fixes init :: "'s \<Rightarrow> bool"
    and step :: "'s \<Rightarrow> 's \<Rightarrow> bool"
    and inv :: "'s \<Rightarrow> bool"
  assumes inv_init: "init s \<Longrightarrow> inv s"
    and inv_step: "inv s \<Longrightarrow> step s t \<Longrightarrow> inv t"
begin

lemma reachable_inv: "reachable init step s \<Longrightarrow> inv s"
  by (induction rule: reachable.induct) (auto intro: inv_init inv_step)

end

text \<open>
  A system that also has a measure every step decreases can take only finitely many steps:
  no run from \<open>s\<close> is longer than the measure of \<open>s\<close>.
\<close>

locale terminating_system = invariant_system +
  fixes cost :: "'s \<Rightarrow> nat"
  assumes cost_step: "inv s \<Longrightarrow> step s t \<Longrightarrow> cost t < cost s"
begin

lemma run_bounded: "inv s \<Longrightarrow> (step ^^ n) s t \<Longrightarrow> n + cost t \<le> cost s"
proof (induction n arbitrary: t)
  case 0
  then show ?case by simp
next
  case (Suc n)
  then obtain u where u: "(step ^^ n) s u" "step u t" by auto
  have "inv u" using u(1) Suc.prems(1)
    by (induction n arbitrary: u) (auto intro: inv_step)
  with cost_step u(2) Suc.IH[OF Suc.prems(1) u(1)] show ?case by fastforce
qed

lemma reaches_stuck: "inv s \<Longrightarrow> \<exists>t. step\<^sup>*\<^sup>* s t \<and> (\<nexists>u. step t u)"
proof (induction "cost s" arbitrary: s rule: less_induct)
  case less
  show ?case
  proof (cases "\<exists>u. step s u")
    case True
    then obtain u where u: "step s u" by blast
    with less.prems have "inv u" and "cost u < cost s" by (auto intro: inv_step cost_step)
    with less.hyps obtain t where "step\<^sup>*\<^sup>* u t" "\<nexists>v. step t v" by blast
    with u show ?thesis by (meson converse_rtranclp_into_rtranclp)
  qed blast
qed

end

subsection \<open>Servers and their specifications\<close>

text \<open>
  A server is a function from an event and a state to an answer and the next state. It refines a
  specification when, from related states and for every event in scope, both answer the same and stay
  related; then they answer every sequence of such events alike.
\<close>

fun serve_all :: "('e \<Rightarrow> 's \<Rightarrow> 'o \<times> 's) \<Rightarrow> 'e list \<Rightarrow> 's \<Rightarrow> 'o list \<times> 's" where
  "serve_all step [] s = ([], s)"
| "serve_all step (e # es) s = (case step e s of (x, s1) \<Rightarrow>
     (case serve_all step es s1 of (xs, s2) \<Rightarrow> (x # xs, s2)))"

lemma serve_all_Cons:
  "serve_all step (e # es) s = (fst (step e s) # fst (serve_all step es (snd (step e s))), snd (serve_all step es (snd (step e s))))"
  by (simp split: prod.splits)

declare serve_all.simps(2) [simp del]

lemma serve_all_append:
  "serve_all step (es @ fs) s = (case serve_all step es s of (xs, s1) \<Rightarrow>
     (case serve_all step fs s1 of (ys, s2) \<Rightarrow> (xs @ ys, s2)))"
  by (induction es arbitrary: s) (simp_all add: serve_all_Cons split: prod.splits)

locale simulation =
  fixes step :: "'e \<Rightarrow> 's \<Rightarrow> 'o \<times> 's"
    and spec :: "'e \<Rightarrow> 'a \<Rightarrow> 'o \<times> 'a"
    and inv :: "'s \<Rightarrow> bool"
    and abs :: "'s \<Rightarrow> 'a"
    and ok :: "'e \<Rightarrow> bool"
  assumes step_inv: "inv s \<Longrightarrow> ok e \<Longrightarrow> inv (snd (step e s))"
    and step_answer: "inv s \<Longrightarrow> ok e \<Longrightarrow> fst (step e s) = fst (spec e (abs s))"
    and step_abs: "inv s \<Longrightarrow> ok e \<Longrightarrow> abs (snd (step e s)) = snd (spec e (abs s))"
begin

lemma step_refines: "inv s \<Longrightarrow> ok e \<Longrightarrow> spec e (abs s) = (fst (step e s), abs (snd (step e s)))"
  by (simp add: step_answer step_abs)

lemma serve_inv: "inv s \<Longrightarrow> list_all ok es \<Longrightarrow> inv (snd (serve_all step es s))"
  by (induction es arbitrary: s) (simp_all add: serve_all_Cons step_inv)

lemma serve_refines:
  "inv s \<Longrightarrow> list_all ok es \<Longrightarrow>
   serve_all spec es (abs s) = (fst (serve_all step es s), abs (snd (serve_all step es s)))"
proof (induction es arbitrary: s)
  case (Cons e es)
  then have "inv s" "ok e" "inv (snd (step e s))" by (auto intro: step_inv)
  with Cons show ?case by (simp add: serve_all_Cons step_refines)
qed simp

end

end
