(* ===== verification/GoValue.thy ===== *)
theory GoValue
  imports Prelude
begin

text \<open>
  The dynamic values (\<open>interface{}\<close>) that expressions, matrices and event payloads carry, and
  the conversions \<open>internal/engine/expr.go\<close> applies to them: truthiness, string and number
  conversion, \<open>join\<close> and \<open>format\<close>.

  A value is what \<open>encoding/json\<close> or the YAML decoder produces with string keys: null,
  bool, string, \<open>float64\<close>, Go \<open>int\<close> (YAML integers only), list, map. A finite \<open>float64\<close> is
  represented by the shortest decimal that denotes it, \<open>(-1)^neg * man * 10^exp\<close> with \<open>man\<close>
  free of trailing zeros, which is the decimal \<open>strconv.FormatFloat(f, 'g', -1, 64)\<close> prints;
  NaN and the infinities, which neither expressions nor JSON can write, are left out.
\<close>

subsection \<open>Floating-point numbers\<close>

datatype float64 = F64 (f64_neg: bool) (f64_man: int) (f64_exp: int)

definition f64_ok :: "float64 \<Rightarrow> bool" where
  "f64_ok x \<longleftrightarrow> (if f64_man x = 0 then f64_exp x = 0 else 0 < f64_man x \<and> f64_man x mod 10 \<noteq> 0)"

text \<open>The value of \<open>x\<close> in units of \<open>10^b\<close>, for \<open>b\<close> at most its exponent.\<close>

definition f64_scaled :: "float64 \<Rightarrow> int \<Rightarrow> int" where
  "f64_scaled x b = (if f64_neg x then -1 else 1) * f64_man x * 10 ^ nat (f64_exp x - b)"

definition f64_base :: "float64 \<Rightarrow> float64 \<Rightarrow> int" where
  "f64_base x y = min (f64_exp x) (f64_exp y)"

text \<open>Go's \<open>==\<close> on floats: \<open>0\<close> and \<open>-0\<close> are equal.\<close>

definition f64_eq :: "float64 \<Rightarrow> float64 \<Rightarrow> bool" where
  "f64_eq x y \<longleftrightarrow> f64_scaled x (f64_base x y) = f64_scaled y (f64_base x y)"

lemma f64_scaled_shift:
  "b \<le> f64_exp x \<Longrightarrow> f64_scaled x (b - int d) = f64_scaled x b * 10 ^ d"
proof -
  assume "b \<le> f64_exp x"
  then have "nat (f64_exp x - (b - int d)) = nat (f64_exp x - b) + d" by simp
  then show ?thesis by (simp add: f64_scaled_def power_add)
qed

lemma f64_scaled_le_iff:
  assumes "b \<le> f64_exp x" "b \<le> f64_exp y"
  shows "f64_scaled x b \<le> f64_scaled y b \<longleftrightarrow>
    f64_scaled x (f64_base x y) \<le> f64_scaled y (f64_base x y)"
proof -
  define d where "d = nat (f64_base x y - b)"
  have b: "b = f64_base x y - int d" using assms by (simp add: d_def f64_base_def)
  show ?thesis unfolding b
    by (simp add: f64_scaled_shift f64_base_def)
qed

instantiation float64 :: preorder
begin

definition less_eq_float64 :: "float64 \<Rightarrow> float64 \<Rightarrow> bool" where
  "x \<le> y \<longleftrightarrow> f64_scaled x (f64_base x y) \<le> f64_scaled y (f64_base x y)"

definition less_float64 :: "float64 \<Rightarrow> float64 \<Rightarrow> bool" where
  "x < y \<longleftrightarrow> f64_scaled x (f64_base x y) < f64_scaled y (f64_base x y)"

instance
proof
  fix x y z :: float64
  show "x < y \<longleftrightarrow> x \<le> y \<and> \<not> y \<le> x"
    unfolding less_eq_float64_def less_float64_def
    by (auto simp: f64_base_def min.commute)
  show "x \<le> x" by (simp add: less_eq_float64_def)
  define b where "b = min (f64_exp x) (min (f64_exp y) (f64_exp z))"
  assume "x \<le> y" "y \<le> z"
  then have "f64_scaled x b \<le> f64_scaled y b" "f64_scaled y b \<le> f64_scaled z b"
    unfolding less_eq_float64_def by (simp_all add: f64_scaled_le_iff b_def)
  then have "f64_scaled x b \<le> f64_scaled z b" by simp
  then show "x \<le> z"
    unfolding less_eq_float64_def by (simp add: f64_scaled_le_iff b_def)
qed

end

lemma float64_linear: "x \<le> y \<or> y \<le> (x :: float64)"
  unfolding less_eq_float64_def by (auto simp: f64_base_def min.commute)

lemma f64_eq_iff: "f64_eq x y \<longleftrightarrow> x \<le> y \<and> y \<le> x"
  unfolding f64_eq_def less_eq_float64_def by (auto simp: f64_base_def min.commute)

text \<open>\<open>float64(i)\<close> for an integer below \<open>2^53\<close> in magnitude: its digits without trailing zeros.\<close>

function strip_zeros :: "int \<Rightarrow> int \<Rightarrow> int \<times> int" where
  "strip_zeros m e = (if m \<le> 0 then (0, 0) else if m mod 10 = 0 then strip_zeros (m div 10) (e + 1)
     else (m, e))"
  by pat_completeness auto
termination
  by (relation "measure (\<lambda>(m, e). nat m)") auto

declare strip_zeros.simps [simp del]

definition f64_of_decimal :: "bool \<Rightarrow> int \<Rightarrow> int \<Rightarrow> float64" where
  "f64_of_decimal neg m e = (case strip_zeros m e of (m', e') \<Rightarrow> F64 neg m' e')"

definition f64_of_int :: "int \<Rightarrow> float64" where
  "f64_of_int i = f64_of_decimal (i < 0) \<bar>i\<bar> 0"

lemma strip_zeros_0 [simp]: "strip_zeros 0 e = (0, 0)"
  by (simp add: strip_zeros.simps)

lemma strip_zeros_ok:
  "strip_zeros m e = (m', e') \<Longrightarrow> if m' = 0 then m \<le> 0 \<and> e' = 0 else 0 < m' \<and> m' mod 10 \<noteq> 0"
proof (induction m e rule: strip_zeros.induct)
  case (1 m e)
  then show ?case by (auto simp: strip_zeros.simps[of m e] split: if_splits)
qed

lemma strip_zeros_value:
  "strip_zeros m e = (m', e') \<Longrightarrow> 0 < m \<Longrightarrow> e \<le> e' \<and> m = m' * 10 ^ nat (e' - e)"
proof (induction m e rule: strip_zeros.induct)
  case (1 m e)
  show ?case
  proof (cases "m mod 10 = 0")
    case True
    with "1.prems" have s: "strip_zeros (m div 10) (e + 1) = (m', e')" and nz: "0 < m div 10"
      by (auto simp: strip_zeros.simps[of m e] split: if_splits)
    from "1.IH"[OF _ True s nz] "1.prems"
    have le: "e + 1 \<le> e'" and m: "m div 10 = m' * 10 ^ nat (e' - (e + 1))" by auto
    have "nat (e' - e) = Suc (nat (e' - (e + 1)))" using le by simp
    moreover have "m = 10 * (m div 10)" using True by presburger
    ultimately show ?thesis using le m by simp
  next
    case False
    with "1.prems" show ?thesis by (simp add: strip_zeros.simps[of m e])
  qed
qed

lemma f64_ok_of_decimal: "f64_ok (f64_of_decimal neg m e)"
  using strip_zeros_ok[of m e] by (auto simp: f64_of_decimal_def f64_ok_def split: prod.split)

lemma f64_scaled_of_int: "f64_scaled (f64_of_int i) 0 = i"
proof -
  obtain m e where s: "strip_zeros \<bar>i\<bar> 0 = (m, e)" by (cases "strip_zeros \<bar>i\<bar> 0")
  show ?thesis
  proof (cases "i = 0")
    case True
    then show ?thesis by (simp add: f64_of_int_def f64_of_decimal_def f64_scaled_def)
  next
    case False
    then have "0 < \<bar>i\<bar>" by simp
    from strip_zeros_value[OF s this] have "\<bar>i\<bar> = m * 10 ^ nat e" by auto
    with s False show ?thesis
      by (auto simp: f64_of_int_def f64_of_decimal_def f64_scaled_def)
  qed
qed

lemma f64_exp_of_int: "0 \<le> f64_exp (f64_of_int i)"
proof (cases "i = 0")
  case False
  then have pos: "0 < \<bar>i\<bar>" by simp
  obtain m e where s: "strip_zeros \<bar>i\<bar> 0 = (m, e)" by (cases "strip_zeros \<bar>i\<bar> 0")
  from strip_zeros_value[OF s pos] s show ?thesis
    by (simp add: f64_of_int_def f64_of_decimal_def)
qed (simp add: f64_of_int_def f64_of_decimal_def)

lemma f64_of_int_less_eq [simp]: "f64_of_int i \<le> f64_of_int j \<longleftrightarrow> i \<le> j"
  using f64_scaled_le_iff[of 0 "f64_of_int i" "f64_of_int j"]
  by (simp add: less_eq_float64_def f64_scaled_of_int f64_exp_of_int)

lemma f64_of_int_less [simp]: "f64_of_int i < f64_of_int j \<longleftrightarrow> i < j"
  by (simp add: less_le_not_le)

subsubsection \<open>Rounding a decimal to the nearest float64\<close>

text \<open>
  \<open>strconv.ParseFloat\<close> on a decimal: round to the nearest binary64 (ties to even), \<open>None\<close> when
  that overflows; the result is again represented by the shortest decimal that rounds to it.
\<close>

function bit_length :: "int \<Rightarrow> int" where
  "bit_length n = (if n \<le> 0 then 0 else 1 + bit_length (n div 2))"
  by pat_completeness auto
termination
  by (relation "measure nat") auto

declare bit_length.simps [simp del]

definition round_div :: "int \<Rightarrow> int \<Rightarrow> int" where
  "round_div a b = (let q = a div b; r = a mod b
     in if 2 * r < b \<or> (2 * r = b \<and> even q) then q else q + 1)"

text \<open>The fraction \<open>num / den\<close> as \<open>n * 2^k\<close> with \<open>n\<close> of 53 bits (fewer when subnormal).\<close>

definition to_binary :: "int \<Rightarrow> int \<Rightarrow> int \<times> int" where
  "to_binary num den =
     (let k0 = bit_length num - bit_length den - 53;
          big = (num * 2 ^ nat (- k0) \<ge> 2 ^ 53 * den * 2 ^ nat k0);
          k = max (if big then k0 + 1 else k0) (-1074);
          n = round_div (num * 2 ^ nat (- k)) (den * 2 ^ nat k)
      in if n = 2 ^ 53 then (2 ^ 52, k + 1) else (n, k))"

definition pow_frac :: "int \<Rightarrow> int \<Rightarrow> int \<Rightarrow> int \<times> int" where
  "pow_frac m b e = (if 0 \<le> e then (m * b ^ nat e, 1) else (m, b ^ nat (- e)))"

text \<open>The \<open>p\<close>-digit decimals around \<open>vn / vd\<close> that round to \<open>bin\<close>, the nearer one first.\<close>

definition shortest_at :: "int \<Rightarrow> int \<Rightarrow> int \<times> int \<Rightarrow> int \<Rightarrow> (int \<times> int) option" where
  "shortest_at vn vd bin p =
     (let l0 = int (length (dec_digits vn)) - int (length (dec_digits vd));
          l = (if vn * 10 ^ nat (- l0) \<ge> vd * 10 ^ nat l0 then l0 + 1 else l0);
          t = l - p;
          sn = vn * 10 ^ nat (- t); sd = vd * 10 ^ nat t;
          c = sn div sd;
          cands = (if 2 * (sn mod sd) \<le> sd then [c, c + 1] else [c + 1, c]);
          fits = (\<lambda>m. case pow_frac m 10 t of (a, b) \<Rightarrow> m \<noteq> 0 \<and> to_binary a b = bin)
      in case filter fits cands of [] \<Rightarrow> None | m # _ \<Rightarrow> Some (m, t))"

fun shortest_from :: "int \<Rightarrow> int \<Rightarrow> int \<times> int \<Rightarrow> int list \<Rightarrow> int \<times> int" where
  "shortest_from vn vd bin [] = (0, 0)"
| "shortest_from vn vd bin (p # ps) = (case shortest_at vn vd bin p of
     Some d \<Rightarrow> d | None \<Rightarrow> shortest_from vn vd bin ps)"

definition round64 :: "bool \<Rightarrow> int \<Rightarrow> int \<Rightarrow> float64 option" where
  "round64 neg m e =
     (if m = 0 then Some (F64 neg 0 0)
      else case pow_frac m 10 e of (num, den) \<Rightarrow>
        (case to_binary num den of (n, k) \<Rightarrow>
           if n = 0 then Some (F64 neg 0 0)
           else case pow_frac n 2 k of (vn, vd) \<Rightarrow>
             if vn \<ge> 2 ^ 1024 * vd then None
             else case shortest_from vn vd (n, k) [1..17] of (sm, se) \<Rightarrow>
               Some (f64_of_decimal neg sm se)))"

text \<open>A decimal numeral \<open>[+-]digits[.digits][e[+-]digits]\<close>, the forms the expression lexer lets through.\<close>

definition parse_exponent :: "string \<Rightarrow> int option" where
  "parse_exponent s =
     (let neg = HasPrefix s ''-''; ds = (if neg \<or> HasPrefix s ''+'' then tl s else s)
      in if ds = [] \<or> \<not> list_all is_digit ds then None
         else Some (if neg then - digits_val ds 0 else digits_val ds 0))"

definition parse_float :: "string \<Rightarrow> float64 option" where
  "parse_float s =
     (let neg = HasPrefix s ''-'';
          s1 = (if neg \<or> HasPrefix s ''+'' then tl s else s);
          ip = takeWhile is_digit s1; s2 = dropWhile is_digit s1;
          fp = (if HasPrefix s2 ''.'' then takeWhile is_digit (tl s2) else []);
          s3 = (if HasPrefix s2 ''.'' then dropWhile is_digit (tl s2) else s2);
          m = digits_val (ip @ fp) 0
      in if ip @ fp = [] then None
         else if s3 = [] then round64 neg m (- int (length fp))
         else if hd s3 \<in> {CHR ''e'', CHR ''E''} then
           (case parse_exponent (tl s3) of None \<Rightarrow> None
            | Some x \<Rightarrow> round64 neg m (x - int (length fp)))
         else None)"

subsubsection \<open>Printing a float64\<close>

text \<open>
  \<open>%v\<close>, that is \<open>strconv.AppendFloat(f, 'g', -1, 64)\<close>: the shortest digits, in exponent form
  when the decimal exponent of the value is below -4 or at least 6.
\<close>

definition fmt_exp :: "int \<Rightarrow> string" where
  "fmt_exp x = (if x < 0 then ''e-'' else ''e+'') @
     (let d = dec_digits \<bar>x\<bar> in if length d < 2 then ''0'' @ d else d)"

definition fmt_float :: "float64 \<Rightarrow> string" where
  "fmt_float x =
     (let ds = dec_digits (f64_man x); nd = int (length ds);
          dp = (if f64_man x = 0 then 1 else nd + f64_exp x);
          sgn = (if f64_neg x then ''-'' else [])
      in if dp - 1 < -4 \<or> 6 \<le> dp - 1
         then sgn @ [hd ds] @ (if nd = 1 then [] else ''.'' @ tl ds) @ fmt_exp (dp - 1)
         else sgn @ (if dp \<le> 0 then ''0'' else take (nat dp) ds @ replicate (nat (dp - nd)) (CHR ''0''))
           @ (if nd \<le> dp then [] else ''.'' @ replicate (nat (- dp)) (CHR ''0'') @ drop (nat dp) ds))"

subsection \<open>Values\<close>

datatype goval =
    VNil
  | VBool bool
  | VStr string
  | VFloat float64
  | VInt int
  | VList "goval list"
  | VMap "(string \<times> goval) list"

text \<open>\<open>fmt.Sprintf("%v", v)\<close>: maps print in key order.\<close>

fun fmt_v :: "goval \<Rightarrow> string" where
  "fmt_v VNil = ''<nil>''"
| "fmt_v (VBool b) = (if b then ''true'' else ''false'')"
| "fmt_v (VStr s) = s"
| "fmt_v (VFloat x) = fmt_float x"
| "fmt_v (VInt i) = itoa i"
| "fmt_v (VList vs) = ''['' @ str_join (map fmt_v vs) '' '' @ '']''"
| "fmt_v (VMap m) = ''map['' @
     str_join (map (\<lambda>(k, s). k @ '':'' @ s) (sort_key fst (map (\<lambda>(k, v). (k, fmt_v v)) m))) '' '' @ '']''"

text \<open>\<open>reflect.DeepEqual\<close> on these values: same dynamic type and equal contents.\<close>

fun deep_equal :: "goval \<Rightarrow> goval \<Rightarrow> bool"
  and deep_equal_list :: "goval list \<Rightarrow> goval list \<Rightarrow> bool" where
  "deep_equal VNil w \<longleftrightarrow> w = VNil"
| "deep_equal (VBool b) w \<longleftrightarrow> w = VBool b"
| "deep_equal (VStr s) w \<longleftrightarrow> w = VStr s"
| "deep_equal (VFloat x) w \<longleftrightarrow> (case w of VFloat y \<Rightarrow> f64_eq x y | _ \<Rightarrow> False)"
| "deep_equal (VInt i) w \<longleftrightarrow> w = VInt i"
| "deep_equal (VList vs) w \<longleftrightarrow> (case w of VList ws \<Rightarrow> deep_equal_list vs ws | _ \<Rightarrow> False)"
| "deep_equal (VMap m) w \<longleftrightarrow> (case w of VMap n \<Rightarrow>
     length m = length n \<and>
     list_all (\<lambda>(k, v). case map_of n k of None \<Rightarrow> False | Some u \<Rightarrow> deep_equal v u) m | _ \<Rightarrow> False)"
| "deep_equal_list [] ws \<longleftrightarrow> ws = []"
| "deep_equal_list (v # vs) ws \<longleftrightarrow> (case ws of [] \<Rightarrow> False
     | w # ws' \<Rightarrow> deep_equal v w \<and> deep_equal_list vs ws')"

subsection \<open>Conversions of \<open>internal/engine/expr.go\<close>\<close>

definition truthy :: "goval \<Rightarrow> bool" where
  "truthy v = (case v of
     VBool t \<Rightarrow> t
   | VStr t \<Rightarrow> t \<noteq> []
   | VFloat t \<Rightarrow> \<not> f64_eq t (f64_of_int 0)
   | VNil \<Rightarrow> False
   | _ \<Rightarrow> True)"

definition toStr :: "goval \<Rightarrow> string" where
  "toStr v = (case v of
     VNil \<Rightarrow> []
   | VBool t \<Rightarrow> (if t then ''true'' else ''false'')
   | _ \<Rightarrow> fmt_v v)"

definition toNumber :: "goval \<Rightarrow> float64 option" where
  "toNumber v = (case v of
     VFloat t \<Rightarrow> Some t
   | VBool t \<Rightarrow> Some (if t then f64_of_int 1 else f64_of_int 0)
   | _ \<Rightarrow> None)"

text \<open>\<open>{0}\<close>, \<open>{1}\<close>, ... replaced one after the other, each over the result of the last.\<close>

definition placeholder :: "nat \<Rightarrow> string" where
  "placeholder i = ''{'' @ nat_digits i @ ''}''"

fun format_from :: "nat \<Rightarrow> string \<Rightarrow> goval list \<Rightarrow> string" where
  "format_from i result [] = result"
| "format_from i result (a # args) =
     format_from (Suc i) (str_replace result (placeholder i) (toStr a)) args"

definition formatGHA :: "string \<Rightarrow> goval list \<Rightarrow> string" where
  "formatGHA tmpl args = format_from 0 tmpl args"

definition joinValue :: "goval \<Rightarrow> string \<Rightarrow> string" where
  "joinValue v sep = (case v of
     VList items \<Rightarrow> str_join (map toStr items) sep
   | _ \<Rightarrow> toStr v)"

end
