(* ===== verification/Matrix.thy ===== *)
theory Matrix
  imports GoValue "HOL-Library.Multiset"
begin

text \<open>
  \<open>internal/engine/matrix.go\<close>: the expansion of a job's \<open>strategy.matrix\<close> into the list of
  combinations to run, and \<open>MatrixSuffix\<close> of \<open>workflow_run.go\<close>, the display name of one.

  The \<open>range\<close> loops over Go maps visit the association lists in order; the theorems about
  iteration order quantify over the permutations of \<open>strategy.Matrix\<close>.
\<close>

type_synonym combination = "goval smap"

record Strategy =
  st_matrix :: "goval smap option"
  st_fail_fast :: "bool option"
  st_max_parallel :: int

datatype entry_error = EntryNotMapping | NotListOrMapping

datatype matrix_error =
    IncludeError entry_error
  | ExcludeError entry_error
  | AxisNotList string
  | ExcludeKeyUnknown string

fun entry_mapping :: "goval \<Rightarrow> entry_error + goval smap" where
  "entry_mapping (VMap m) = Inr m"
| "entry_mapping _ = Inl EntryNotMapping"

definition matrixEntryList :: "goval \<Rightarrow> entry_error + goval smap list" where
  "matrixEntryList v = (case v of
     VList vv \<Rightarrow> map_res entry_mapping vv
   | VMap m \<Rightarrow> Inr [m]
   | _ \<Rightarrow> Inl NotListOrMapping)"

definition matrixAllMatch :: "combination \<Rightarrow> goval smap \<Rightarrow> bool" where
  "matrixAllMatch combo entry \<longleftrightarrow>
     list_all (\<lambda>(k, v). case mget combo k of None \<Rightarrow> False | Some cv \<Rightarrow> deep_equal cv v) entry"

definition matrixSubsetMatch :: "combination \<Rightarrow> goval smap \<Rightarrow> bool" where
  "matrixSubsetMatch combo entry \<longleftrightarrow>
     list_all (\<lambda>(k, v). case mget combo k of None \<Rightarrow> True | Some cv \<Rightarrow> deep_equal cv v) entry"

definition applyMatrixExclude :: "combination list \<Rightarrow> goval smap list \<Rightarrow> combination list" where
  "applyMatrixExclude combos excludes =
     (if excludes = [] then combos
      else filter (\<lambda>c. \<not> list_ex (\<lambda>ex. matrixAllMatch c ex) excludes) combos)"

definition include_one :: "combination list \<Rightarrow> goval smap \<Rightarrow> combination list" where
  "include_one combos inc =
     (let matched = list_ex (\<lambda>c. matrixSubsetMatch c inc) combos;
          combos' = map (\<lambda>c. if matrixSubsetMatch c inc then merge c inc else c) combos
      in if matched then combos' else combos' @ [merge [] inc])"

fun applyMatrixInclude :: "combination list \<Rightarrow> goval smap list \<Rightarrow> combination list" where
  "applyMatrixInclude combos [] = combos"
| "applyMatrixInclude combos (inc # incs) = applyMatrixInclude (include_one combos inc) incs"

text \<open>The first loop of \<open>ExpandMatrix\<close>: sort the matrix keys into axes, includes and excludes.\<close>

record matrix_scan =
  axes :: "goval list smap"
  includeEntries :: "goval smap list"
  excludeEntries :: "goval smap list"

definition scan_init :: matrix_scan where
  "scan_init = \<lparr>axes = [], includeEntries = [], excludeEntries = []\<rparr>"

definition scan_entry :: "string \<Rightarrow> goval \<Rightarrow> matrix_scan \<Rightarrow> matrix_error + matrix_scan" where
  "scan_entry k v s =
     (if k = ''include'' then (case matrixEntryList v of
        Inl e \<Rightarrow> Inl (IncludeError e) | Inr es \<Rightarrow> Inr (s\<lparr>includeEntries := es\<rparr>))
      else if k = ''exclude'' then (case matrixEntryList v of
        Inl e \<Rightarrow> Inl (ExcludeError e) | Inr es \<Rightarrow> Inr (s\<lparr>excludeEntries := es\<rparr>))
      else (case v of
        VList l \<Rightarrow> Inr (s\<lparr>axes := mput k l (axes s)\<rparr>)
      | _ \<Rightarrow> Inl (AxisNotList k)))"

fun scan_matrix :: "goval smap \<Rightarrow> matrix_scan \<Rightarrow> matrix_error + matrix_scan" where
  "scan_matrix [] s = Inr s"
| "scan_matrix ((k, v) # m) s = bind_res (scan_entry k v s) (scan_matrix m)"

fun check_excludes :: "goval smap list \<Rightarrow> goval list smap \<Rightarrow> matrix_error + unit" where
  "check_excludes [] ax = Inr ()"
| "check_excludes (ex # exs) ax = (case find (\<lambda>k. mget ax k = None) (map fst ex) of
     Some k \<Rightarrow> Inl (ExcludeKeyUnknown k)
   | None \<Rightarrow> check_excludes exs ax)"

definition extend_combos :: "string \<Rightarrow> goval list \<Rightarrow> combination list \<Rightarrow> combination list" where
  "extend_combos k vs combos = concat (map (\<lambda>c. map (\<lambda>v. mput k v c) vs) combos)"

fun product :: "string list \<Rightarrow> goval list smap \<Rightarrow> combination list \<Rightarrow> combination list" where
  "product [] ax combos = combos"
| "product (k # ks) ax combos =
     product ks ax (extend_combos k (case mget ax k of Some vs \<Rightarrow> vs | None \<Rightarrow> []) combos)"

definition axis_keys :: "matrix_scan \<Rightarrow> string list" where
  "axis_keys s = sort (map fst (axes s))"

definition ExpandMatrix :: "Strategy option \<Rightarrow> matrix_error + combination list" where
  "ExpandMatrix strategy = (case strategy of
     None \<Rightarrow> Inr [[]]
   | Some st \<Rightarrow> (case st_matrix st of
       None \<Rightarrow> Inr [[]]
     | Some m \<Rightarrow>
         bind_res (scan_matrix m scan_init) (\<lambda>s.
         bind_res (check_excludes (excludeEntries s) (axes s)) (\<lambda>_.
         let keys = axis_keys s;
             combos = (if keys \<noteq> [] then product keys (axes s) [[]] else []);
             combos = applyMatrixExclude combos (excludeEntries s);
             combos = applyMatrixInclude combos (includeEntries s)
         in Inr combos))))"

definition MatrixSuffix :: "combination \<Rightarrow> string" where
  "MatrixSuffix combo = (if combo = [] then []
     else '' ('' @ str_join (map (\<lambda>k. k @ ''='' @ (case mget combo k of
            Some v \<Rightarrow> fmt_v v | None \<Rightarrow> [])) (sort (map fst combo))) '', '' @ '')'')"

subsection \<open>The cartesian product\<close>

text \<open>A combination chooses, for every key, one of the axis's values.\<close>

definition chooses :: "goval list smap \<Rightarrow> string set \<Rightarrow> (string \<Rightarrow> goval option) \<Rightarrow> bool" where
  "chooses ax ks f \<longleftrightarrow> dom f = ks \<and>
     (\<forall>k v. f k = Some v \<longrightarrow> (\<exists>vs. mget ax k = Some vs \<and> v \<in> set vs))"

definition axis_size :: "goval list smap \<Rightarrow> string \<Rightarrow> nat" where
  "axis_size ax k = (case mget ax k of Some vs \<Rightarrow> length vs | None \<Rightarrow> 0)"

lemma length_extend_combos: "length (extend_combos k vs cs) = length cs * length vs"
  by (induction cs) (simp_all add: extend_combos_def)

lemma length_product:
  "length (product ks ax cs) = length cs * prod_list (map (axis_size ax) ks)"
  by (induction ks ax cs rule: product.induct)
    (simp_all add: length_extend_combos axis_size_def split: option.splits)

lemma mget_extend_combos:
  "(\<lambda>c. mget c) ` set (extend_combos k vs cs) =
     {f(k \<mapsto> v) | f v. f \<in> (\<lambda>c. mget c) ` set cs \<and> v \<in> set vs}"
proof -
  have *: "mget (mput k v c) = (mget c)(k \<mapsto> v)" for v :: goval and c
    by (simp add: update_conv' fun_eq_iff)
  show ?thesis unfolding extend_combos_def by (force simp: * image_iff)
qed

lemma chooses_upd:
  assumes "chooses ax ks f" "k \<notin> ks" "mget ax k = Some vs" "v \<in> set vs"
  shows "chooses ax (insert k ks) (f(k \<mapsto> v))"
  using assms by (auto simp: chooses_def)

lemma chooses_split:
  assumes g: "chooses ax (insert k ks) g" and "k \<notin> ks"
  shows "\<exists>f v vs. g = f(k \<mapsto> v) \<and> chooses ax ks f \<and> mget ax k = Some vs \<and> v \<in> set vs"
proof -
  from g obtain v where v: "g k = Some v" unfolding chooses_def by blast
  from g v obtain vs where vs: "mget ax k = Some vs" "v \<in> set vs" unfolding chooses_def by blast
  have "chooses ax ks (g(k := None))" using g assms(2) by (auto simp: chooses_def)
  moreover have "g = (g(k := None))(k \<mapsto> v)" using v by auto
  ultimately show ?thesis using vs by blast
qed

lemma mget_product:
  assumes "(\<lambda>c. mget c) ` set cs = {f. chooses ax done f}"
    and "distinct ks" "set ks \<inter> done = {}" "set ks \<subseteq> fst ` set ax"
  shows "(\<lambda>c. mget c) ` set (product ks ax cs) = {f. chooses ax (set ks \<union> done) f}"
  using assms
proof (induction ks ax cs arbitrary: "done" rule: product.induct)
  case (1 ax combos)
  then show ?case by simp
next
  case (2 k ks ax combos)
  from "2.prems"(4) obtain vs where vs: "mget ax k = Some vs"
    by (metis list.set_intros(1) map_of_eq_None_iff not_Some_eq subsetD)
  have nk: "k \<notin> done" using "2.prems"(3) by auto
  have "(\<lambda>c. mget c) ` set (extend_combos k vs combos) = {f. chooses ax (insert k done) f}"
    unfolding mget_extend_combos "2.prems"(1)
    using chooses_upd[OF _ nk vs] chooses_split[OF _ nk] vs by fastforce
  then have "(\<lambda>c. mget c) ` set (product ks ax (extend_combos k vs combos)) =
      {f. chooses ax (set ks \<union> insert k done) f}"
    using "2.IH"[of "insert k done"] "2.prems" vs by auto
  then show ?case using vs by (simp add: insert_commute)
qed

lemma chooses_empty: "(\<lambda>c. mget c) ` set [[]] = {f. chooses ax {} f}"
  by (auto simp: chooses_def)

subsection \<open>The scan of the matrix\<close>

text \<open>What the first loop finds, as functions of the whole matrix.\<close>

definition axes_of :: "goval smap \<Rightarrow> goval list smap" where
  "axes_of m = List.map_filter (\<lambda>(k, v). if k \<in> {''include'', ''exclude''} then None
     else case v of VList l \<Rightarrow> Some (k, l) | _ \<Rightarrow> None) m"

definition entries_of :: "string \<Rightarrow> goval smap \<Rightarrow> goval smap list" where
  "entries_of key m = (case mget m key of None \<Rightarrow> [] | Some v \<Rightarrow>
     (case matrixEntryList v of Inl _ \<Rightarrow> [] | Inr es \<Rightarrow> es))"

definition scan_ok :: "goval smap \<Rightarrow> bool" where
  "scan_ok m \<longleftrightarrow> list_all (\<lambda>(k, v). if k \<in> {''include'', ''exclude''}
     then (case matrixEntryList v of Inl _ \<Rightarrow> False | Inr _ \<Rightarrow> True)
     else (case v of VList l \<Rightarrow> True | _ \<Rightarrow> False)) m"

lemma update_new: "k \<notin> fst ` set m \<Longrightarrow> mput k v m = m @ [(k, v)]"
  by (induction m) auto

lemma axes_of_simps:
  "axes_of [] = []"
  "axes_of ((k, v) # m) = (if k \<in> {''include'', ''exclude''} then axes_of m
     else case v of VList l \<Rightarrow> (k, l) # axes_of m | _ \<Rightarrow> axes_of m)"
  by (auto simp: axes_of_def map_filter_simps split: goval.splits)

lemma set_axes_of:
  "(k, l) \<in> set (axes_of m) \<longleftrightarrow> (k, VList l) \<in> set m \<and> k \<notin> {''include'', ''exclude''}"
proof (induction m)
  case Nil
  then show ?case by (simp add: axes_of_simps)
next
  case (Cons p m)
  obtain k' v where p: "p = (k', v)" by (cases p)
  show ?case
  proof (cases "k' \<in> {''include'', ''exclude''}")
    case True
    with Cons p show ?thesis by (simp add: axes_of_simps) blast
  next
    case False
    with Cons p show ?thesis by (cases v) (simp_all add: axes_of_simps, blast)
  qed
qed

lemma axes_of_keys: "fst ` set (axes_of m) \<subseteq> fst ` set m - {''include'', ''exclude''}"
  by (force simp: set_axes_of)

lemma scan_entry_include:
  "scan_entry ''include'' v s = (case matrixEntryList v of
     Inl e \<Rightarrow> Inl (IncludeError e) | Inr es \<Rightarrow> Inr (s\<lparr>includeEntries := es\<rparr>))"
  by (simp add: scan_entry_def)

lemma scan_entry_exclude:
  "scan_entry ''exclude'' v s = (case matrixEntryList v of
     Inl e \<Rightarrow> Inl (ExcludeError e) | Inr es \<Rightarrow> Inr (s\<lparr>excludeEntries := es\<rparr>))"
  by (simp add: scan_entry_def)

lemma scan_entry_axis:
  "k \<noteq> ''include'' \<Longrightarrow> k \<noteq> ''exclude'' \<Longrightarrow> k \<notin> fst ` set (axes s) \<Longrightarrow>
   scan_entry k v s = (case v of VList l \<Rightarrow> Inr (s\<lparr>axes := axes s @ [(k, l)]\<rparr>)
     | _ \<Rightarrow> Inl (AxisNotList k))"
  by (simp add: scan_entry_def update_new split: goval.split)

lemma scan_ok_Cons:
  "scan_ok ((k, v) # m) \<longleftrightarrow> (if k \<in> {''include'', ''exclude''}
     then (\<exists>es. matrixEntryList v = Inr es) else (\<exists>l. v = VList l)) \<and> scan_ok m"
  by (auto simp: scan_ok_def split: sum.splits goval.splits)

definition scan_result :: "goval smap \<Rightarrow> matrix_scan \<Rightarrow> matrix_scan" where
  "scan_result m s = \<lparr>axes = axes s @ axes_of m,
     includeEntries = (if mget m ''include'' = None then includeEntries s else entries_of ''include'' m),
     excludeEntries = (if mget m ''exclude'' = None then excludeEntries s else entries_of ''exclude'' m)\<rparr>"

lemma entries_of_Cons:
  "entries_of key ((k, v) # m) = (if k = key
     then (case matrixEntryList v of Inl _ \<Rightarrow> [] | Inr es \<Rightarrow> es) else entries_of key m)"
  by (simp add: entries_of_def)

lemma scan_result_Cons:
  assumes "mget m k = None"
  shows "matrixEntryList v = Inr es \<Longrightarrow> k = ''include'' \<Longrightarrow>
      scan_result ((k, v) # m) s = scan_result m (s\<lparr>includeEntries := es\<rparr>)"
    and "matrixEntryList v = Inr es \<Longrightarrow> k = ''exclude'' \<Longrightarrow>
      scan_result ((k, v) # m) s = scan_result m (s\<lparr>excludeEntries := es\<rparr>)"
    and "k \<noteq> ''include'' \<Longrightarrow> k \<noteq> ''exclude'' \<Longrightarrow>
      scan_result ((k, VList l) # m) s = scan_result m (s\<lparr>axes := axes s @ [(k, l)]\<rparr>)"
  using assms by (simp_all add: scan_result_def axes_of_simps entries_of_Cons)

lemma scan_matrix_eq:
  assumes "map_wf m" "fst ` set (axes s) \<inter> fst ` set m = {}"
  shows "scan_matrix m s = Inr s' \<longleftrightarrow> scan_ok m \<and> s' = scan_result m s"
  using assms
proof (induction m s rule: scan_matrix.induct)
  case (1 s)
  then show ?case by (auto simp: scan_ok_def axes_of_simps scan_result_def)
next
  case (2 k v m s)
  then have k: "k \<notin> fst ` set m" and wf: "map_wf m" by (auto simp: map_wf_def)
  then have none: "mget m k = None" by (simp add: map_of_eq_None_iff)
  note step = "2.IH"[OF _ wf]
  consider "k = ''include''" | "k = ''exclude''" | "k \<noteq> ''include''" "k \<noteq> ''exclude''" by blast
  then show ?case
  proof cases
    case 1
    then show ?thesis using step[of "s\<lparr>includeEntries := _\<rparr>"] "2.prems"(2) none
      by (cases "matrixEntryList v") (simp_all add: scan_entry_include scan_ok_Cons scan_result_Cons(1))
  next
    case 2
    then show ?thesis using step[of "s\<lparr>excludeEntries := _\<rparr>"] "2.prems"(2) none
      by (cases "matrixEntryList v") (simp_all add: scan_entry_exclude scan_ok_Cons scan_result_Cons(2))
  next
    case 3
    have dj: "fst ` set (axes s @ [(k, l)]) \<inter> fst ` set m = {}" for l :: "goval list"
      using "2.prems"(2) k by auto
    have k': "k \<notin> fst ` set (axes s)" using "2.prems"(2) by auto
    show ?thesis using step[of "s\<lparr>axes := axes s @ [(k, _)]\<rparr>"] dj 3 none k'
      by (cases v) (simp_all add: scan_entry_axis scan_ok_Cons scan_result_Cons(3))
  qed
qed

lemma scan_matrix_init:
  "map_wf m \<Longrightarrow> scan_matrix m scan_init = Inr s \<longleftrightarrow> scan_ok m \<and>
     s = \<lparr>axes = axes_of m, includeEntries = entries_of ''include'' m,
          excludeEntries = entries_of ''exclude'' m\<rparr>"
  by (subst scan_matrix_eq) (auto simp: scan_init_def scan_result_def entries_of_def)

lemma map_wf_axes_of: "map_wf m \<Longrightarrow> map_wf (axes_of m)"
proof (induction m)
  case Nil
  then show ?case by (simp add: axes_of_simps)
next
  case (Cons p m)
  obtain k v where p: "p = (k, v)" by (cases p)
  have "k \<notin> fst ` set (axes_of m)" using Cons.prems axes_of_keys[of m] p by (auto simp: map_wf_def)
  with Cons p show ?case by (auto simp: map_wf_def axes_of_simps split: goval.split)
qed

lemma mset_axes_of: "mset m = mset m' \<Longrightarrow> mset (axes_of m) = mset (axes_of m')"
  unfolding axes_of_def List.map_filter_def by (simp only: mset_map mset_filter)

lemma map_wf_mset: "mset m = mset m' \<Longrightarrow> map_wf m \<Longrightarrow> map_wf m'"
  using mset_eq_imp_distinct_iff[of "map fst m" "map fst m'"] by (simp add: map_wf_def)

lemma mget_mset: "mset m = mset m' \<Longrightarrow> map_wf m \<Longrightarrow> mget m = mget m'"
  by (metis map_wf_def map_wf_mset mset_eq_setD same_map_def same_map_mget)

lemma sort_keys_mset: "mset m = mset m' \<Longrightarrow> sort (map fst m) = sort (map fst m')"
  by (rule properties_for_sort) (simp_all add: mset_map)

lemma product_cong: "mget ax = mget ax' \<Longrightarrow> product ks ax cs = product ks ax' cs"
  by (induction ks ax cs rule: product.induct) simp_all

lemma check_excludes_cong:
  "mget ax = mget ax' \<Longrightarrow> check_excludes exs ax = check_excludes exs ax'"
  by (induction exs) (simp_all split: option.splits)

lemma sort_keys_Nil [simp]: "sort (map fst m) = [] \<longleftrightarrow> m = []"
  by (metis map_is_Nil_conv set_empty set_sort)

lemma ExpandMatrix_eq:
  assumes "map_wf m" and "st_matrix st = Some m"
  shows "ExpandMatrix (Some st) = Inr cs \<longleftrightarrow> scan_ok m \<and>
    check_excludes (entries_of ''exclude'' m) (axes_of m) = Inr () \<and>
    cs = applyMatrixInclude (applyMatrixExclude
           (if axes_of m \<noteq> [] then product (sort (map fst (axes_of m))) (axes_of m) [[]] else [])
           (entries_of ''exclude'' m)) (entries_of ''include'' m)"
  using assms(2)
  by (auto simp: ExpandMatrix_def scan_matrix_init[OF assms(1)] axis_keys_def Let_def)

subsection \<open>Determinism\<close>

text \<open>The combinations, and their order, do not depend on the order in which Go happens to
  iterate over the \<open>strategy.matrix\<close> map.\<close>

theorem expand_iteration_order:
  assumes "map_wf m" "mset m' = mset m"
    and "ExpandMatrix (Some (st\<lparr>st_matrix := Some m\<rparr>)) = Inr cs"
  shows "ExpandMatrix (Some (st\<lparr>st_matrix := Some m'\<rparr>)) = Inr cs"
proof -
  have m: "mset m = mset m'" using assms(2) by simp
  note wf' = map_wf_mset[OF m assms(1)]
  have ax: "mset (axes_of m) = mset (axes_of m')" using m by (rule mset_axes_of)
  have get: "mget (axes_of m) = mget (axes_of m')"
    using ax map_wf_axes_of[OF assms(1)] by (rule mget_mset)
  have ent: "entries_of key m = entries_of key m'" for key
    using mget_mset[OF m assms(1)] by (simp add: entries_of_def)
  have ok: "scan_ok m = scan_ok m'"
    unfolding scan_ok_def list_all_iff using mset_eq_setD[OF m] by simp
  have ne: "axes_of m = [] \<longleftrightarrow> axes_of m' = []" using ax by (metis mset_zero_iff)
  show ?thesis
    using assms(3)
    unfolding ExpandMatrix_eq[OF assms(1), of "st\<lparr>st_matrix := Some m\<rparr>", simplified]
      ExpandMatrix_eq[OF wf', of "st\<lparr>st_matrix := Some m'\<rparr>", simplified]
    by (simp add: ok ent ne product_cong[OF get] check_excludes_cong[OF get] sort_keys_mset[OF ax])
qed

theorem expand_iteration_order_witness:
  "ExpandMatrix (Some \<lparr>st_matrix = Some [(''os'', VList [VStr ''a'']), (''v'', VList [VInt 1])],
      st_fail_fast = None, st_max_parallel = 0\<rparr>) =
   Inr [[(''os'', VStr ''a''), (''v'', VInt 1)]]"
  using expand_iteration_order[of "[(''v'', VList [VInt 1]), (''os'', VList [VStr ''a''])]"
      "[(''os'', VList [VStr ''a'']), (''v'', VList [VInt 1])]"
      "\<lparr>st_matrix = None, st_fail_fast = None, st_max_parallel = 0\<rparr>"
      "[[(''os'', VStr ''a''), (''v'', VInt 1)]]"]
  by (simp add: map_wf_def ExpandMatrix_def scan_init_def scan_entry_def axis_keys_def extend_combos_def
      applyMatrixExclude_def)

subsection \<open>Axes and excludes\<close>

lemma set_product_axes:
  assumes "map_wf m" "axes_of m \<noteq> []"
  shows "(\<lambda>c. mget c) ` set (product (sort (map fst (axes_of m))) (axes_of m) [[]]) =
    {f. chooses (axes_of m) (fst ` set (axes_of m)) f}"
proof -
  have "distinct (sort (map fst (axes_of m)))"
    using map_wf_axes_of[OF assms(1)] by (simp add: map_wf_def)
  from mget_product[OF chooses_empty this] show ?thesis by (simp add: Un_commute)
qed

lemma mget_axes_of:
  "map_wf m \<Longrightarrow> mget (axes_of m) k = Some l \<longleftrightarrow> (k, VList l) \<in> set m \<and> k \<notin> {''include'', ''exclude''}"
  using map_wf_axes_of[of m] by (simp add: map_wf_def map_of_eq_Some_iff set_axes_of)

lemma applyMatrixExclude_filter:
  "applyMatrixExclude combos exs = filter (\<lambda>c. \<not> (\<exists>ex \<in> set exs. matrixAllMatch c ex)) combos"
  by (simp add: applyMatrixExclude_def list_ex_iff)

lemma matrixAllMatch_iff:
  "matrixAllMatch c ex \<longleftrightarrow> (\<forall>k v. (k, v) \<in> set ex \<longrightarrow> (\<exists>cv. mget c k = Some cv \<and> deep_equal cv v))"
  by (fastforce simp: matrixAllMatch_def list_all_iff split: option.splits)

text \<open>The combinations in order, as a list: every list of one value per axis, the values of the last axis going
  fastest, paired with the axes' names.\<close>

definition axis_values :: "goval list smap \<Rightarrow> string \<Rightarrow> goval list" where
  "axis_values ax k = (case mget ax k of Some vs \<Rightarrow> vs | None \<Rightarrow> [])"

lemma extend_combos_new:
  "k \<notin> (\<Union>c \<in> set cs. fst ` set c) \<Longrightarrow> extend_combos k vs cs = concat (map (\<lambda>c. map (\<lambda>v. c @ [(k, v)]) vs) cs)"
  unfolding extend_combos_def by (intro arg_cong[where f = concat] map_cong refl) (auto simp: update_new)

lemma extend_then_zip:
  "concat (map (\<lambda>c. map (\<lambda>ws. c @ zip ks ws) P) (concat (map (\<lambda>c. map (\<lambda>v. c @ [(k, v)]) vs) cs))) =
   concat (map (\<lambda>c. map (\<lambda>ws. c @ zip (k # ks) ws) (concat (map (\<lambda>v. map (Cons v) P) vs))) cs)"
proof (induction cs)
  case (Cons c cs)
  have "concat (map (\<lambda>c. map (\<lambda>ws. c @ zip ks ws) P) (map (\<lambda>v. c @ [(k, v)]) vs)) =
      map (\<lambda>ws. c @ zip (k # ks) ws) (concat (map (\<lambda>v. map (Cons v) P) vs))"
    by (induction vs) (simp_all add: comp_def)
  with Cons.IH show ?case by simp
qed simp

lemma product_lists_order:
  "distinct ks \<Longrightarrow> (\<Union>c \<in> set cs. fst ` set c) \<inter> set ks = {} \<Longrightarrow>
   product ks ax cs = concat (map (\<lambda>c. map (\<lambda>vs. c @ zip ks vs) (product_lists (map (axis_values ax) ks))) cs)"
proof (induction ks ax cs rule: product.induct)
  case (1 ax combos)
  show ?case by (induction combos) simp_all
next
  case (2 k ks ax combos)
  let ?vs = "axis_values ax k"
  have ext: "extend_combos k ?vs combos = concat (map (\<lambda>c. map (\<lambda>v. c @ [(k, v)]) ?vs) combos)"
    using "2.prems"(2) by (intro extend_combos_new) auto
  have new: "(\<Union>c \<in> set (extend_combos k ?vs combos). fst ` set c) \<inter> set ks = {}"
    unfolding ext using "2.prems" by auto
  have ks: "distinct ks" using "2.prems"(1) by simp
  have "product (k # ks) ax combos =
      concat (map (\<lambda>c. map (\<lambda>vs. c @ zip ks vs) (product_lists (map (axis_values ax) ks))) (extend_combos k ?vs combos))"
    unfolding product.simps axis_values_def[symmetric]
    by (rule "2.IH"[folded axis_values_def, OF ks new])
  also have "\<dots> = concat (map (\<lambda>c. map (\<lambda>vs. c @ zip (k # ks) vs) (product_lists (map (axis_values ax) (k # ks)))) combos)"
    unfolding ext by (simp only: extend_then_zip product_lists.simps list.map)
  finally show ?case .
qed

lemma expand_choices:
  assumes "map_wf m" "mget m ''include'' = None" "axes_of m \<noteq> []"
    and "ExpandMatrix (Some (st\<lparr>st_matrix := Some m\<rparr>)) = Inr cs"
  shows "(\<exists>c \<in> set cs. mget c = f) \<longleftrightarrow>
    dom f = {k. \<exists>l. (k, VList l) \<in> set m \<and> k \<noteq> ''exclude''} \<and>
    (\<forall>k v. f k = Some v \<longrightarrow> (\<exists>l. (k, VList l) \<in> set m \<and> v \<in> set l)) \<and>
    \<not> (\<exists>ex \<in> set (entries_of ''exclude'' m).
         \<forall>k v. (k, v) \<in> set ex \<longrightarrow> (\<exists>cv. f k = Some cv \<and> deep_equal cv v))"
proof -
  let ?P = "product (sort (map fst (axes_of m))) (axes_of m) [[]]"
  have noinc: "(''include'', v) \<notin> set m" for v
    using assms(1,2) by (metis map_of_eq_None_iff fst_conv image_eqI)
  have cs: "cs = applyMatrixExclude ?P (entries_of ''exclude'' m)"
    using assms(4) ExpandMatrix_eq[OF assms(1), of "st\<lparr>st_matrix := Some m\<rparr>"] assms(2,3)
    by (simp add: entries_of_def)
  have keys: "fst ` set (axes_of m) = {k. \<exists>l. (k, VList l) \<in> set m \<and> k \<noteq> ''exclude''}"
  proof (intro set_eqI)
    fix k
    have "k \<in> fst ` set (axes_of m) \<longleftrightarrow> (\<exists>l. (k, l) \<in> set (axes_of m))" by force
    then show "k \<in> fst ` set (axes_of m) \<longleftrightarrow> k \<in> {k. \<exists>l. (k, VList l) \<in> set m \<and> k \<noteq> ''exclude''}"
      using noinc by (auto simp: set_axes_of)
  qed
  have "(\<exists>c \<in> set cs. mget c = f) \<longleftrightarrow> f \<in> (\<lambda>c. mget c) ` set ?P \<and>
    \<not> (\<exists>ex \<in> set (entries_of ''exclude'' m).
         \<forall>k v. (k, v) \<in> set ex \<longrightarrow> (\<exists>cv. f k = Some cv \<and> deep_equal cv v))"
    unfolding cs applyMatrixExclude_filter matrixAllMatch_iff by auto
  also have "f \<in> (\<lambda>c. mget c) ` set ?P \<longleftrightarrow> chooses (axes_of m) (fst ` set (axes_of m)) f"
    by (simp add: set_product_axes[OF assms(1,3)])
  also have "chooses (axes_of m) (fst ` set (axes_of m)) f \<longleftrightarrow>
    dom f = {k. \<exists>l. (k, VList l) \<in> set m \<and> k \<noteq> ''exclude''} \<and>
    (\<forall>k v. f k = Some v \<longrightarrow> (\<exists>l. (k, VList l) \<in> set m \<and> v \<in> set l))"
  proof -
    have "k \<notin> {''include'', ''exclude''}" if "f k = Some v" "dom f = fst ` set (axes_of m)" for k v
      using axes_of_keys[of m] that by blast
    then have *: "(\<exists>vs. mget (axes_of m) k = Some vs \<and> v \<in> set vs) \<longleftrightarrow> (\<exists>l. (k, VList l) \<in> set m \<and> v \<in> set l)"
      if "f k = Some v" "dom f = fst ` set (axes_of m)" for k v
      using that unfolding mget_axes_of[OF assms(1)] by metis
    show ?thesis unfolding chooses_def keys[symmetric]
      by (rule conj_cong[OF refl]) (simp add: *)
  qed
  finally show ?thesis by (simp only: conj_assoc)
qed

text \<open>C18: Without \<open>include\<close>, the combinations are one choice of a listed value for every axis, each once per position of
  its values, in axis-major order (axes by name, the last varying fastest), without those that some
  \<open>exclude\<close> entry matches in all its keys. As maps they are therefore exactly the assignments of one listed
  value to every axis that no \<open>exclude\<close> entry matches.\<close>

theorem expand_axes_and_excludes:
  assumes "map_wf m" "mget m ''include'' = None" "axes_of m \<noteq> []"
    and "ExpandMatrix (Some (st\<lparr>st_matrix := Some m\<rparr>)) = Inr cs"
  shows "cs = filter (\<lambda>c. \<not> (\<exists>ex \<in> set (entries_of ''exclude'' m).
          \<forall>k v. (k, v) \<in> set ex \<longrightarrow> (\<exists>cv. mget c k = Some cv \<and> deep_equal cv v)))
        (map (zip (sort (map fst (axes_of m)))) (product_lists (map (axis_values (axes_of m)) (sort (map fst (axes_of m)))))) \<and>
    (\<forall>f. (\<exists>c \<in> set cs. mget c = f) \<longleftrightarrow>
       dom f = {k. \<exists>l. (k, VList l) \<in> set m \<and> k \<noteq> ''exclude''} \<and>
       (\<forall>k v. f k = Some v \<longrightarrow> (\<exists>l. (k, VList l) \<in> set m \<and> v \<in> set l)) \<and>
       \<not> (\<exists>ex \<in> set (entries_of ''exclude'' m).
            \<forall>k v. (k, v) \<in> set ex \<longrightarrow> (\<exists>cv. f k = Some cv \<and> deep_equal cv v)))"
proof (intro conjI allI)
  let ?ks = "sort (map fst (axes_of m))"
  have "distinct ?ks" using map_wf_axes_of[OF assms(1)] by (simp add: map_wf_def)
  then have "product ?ks (axes_of m) [[]] = map (zip ?ks) (product_lists (map (axis_values (axes_of m)) ?ks))"
    by (simp add: product_lists_order)
  moreover have "cs = applyMatrixExclude (product ?ks (axes_of m) [[]]) (entries_of ''exclude'' m)"
    using assms(4) ExpandMatrix_eq[OF assms(1), of "st\<lparr>st_matrix := Some m\<rparr>"] assms(2,3)
    by (simp add: entries_of_def)
  ultimately show "cs = filter (\<lambda>c. \<not> (\<exists>ex \<in> set (entries_of ''exclude'' m).
          \<forall>k v. (k, v) \<in> set ex \<longrightarrow> (\<exists>cv. mget c k = Some cv \<and> deep_equal cv v)))
        (map (zip ?ks) (product_lists (map (axis_values (axes_of m)) ?ks)))"
    by (simp only: applyMatrixExclude_filter matrixAllMatch_iff)
qed (rule expand_choices[OF assms])

theorem expand_axes_and_excludes_witness:
  "ExpandMatrix (Some \<lparr>st_matrix = Some [(''v'', VList [VInt 1, VInt 2]), (''os'', VList [VStr ''a'', VStr ''b'']),
      (''exclude'', VMap [(''os'', VStr ''b''), (''v'', VInt 1)])], st_fail_fast = None, st_max_parallel = 0\<rparr>) =
   Inr [[(''os'', VStr ''a''), (''v'', VInt 1)], [(''os'', VStr ''a''), (''v'', VInt 2)], [(''os'', VStr ''b''), (''v'', VInt 2)]]"
proof -
  let ?m = "[(''v'', VList [VInt 1, VInt 2]), (''os'', VList [VStr ''a'', VStr ''b'']),
      (''exclude'', VMap [(''os'', VStr ''b''), (''v'', VInt 1)])]"
  let ?st = "\<lparr>st_matrix = None, st_fail_fast = None, st_max_parallel = 0\<rparr> :: Strategy"
  obtain cs where ex: "ExpandMatrix (Some (?st\<lparr>st_matrix := Some ?m\<rparr>)) = Inr cs"
    by (simp add: ExpandMatrix_def scan_init_def scan_entry_def axis_keys_def matrixEntryList_def)
  have pre: "map_wf ?m" "mget ?m ''include'' = None" "axes_of ?m \<noteq> []"
    by (simp_all add: map_wf_def axes_of_simps)
  have ax: "axes_of ?m = [(''v'', [VInt 1, VInt 2]), (''os'', [VStr ''a'', VStr ''b''])]"
    "entries_of ''exclude'' ?m = [[(''os'', VStr ''b''), (''v'', VInt 1)]]"
    by (simp_all add: axes_of_simps entries_of_def matrixEntryList_def)
  have "cs = [[(''os'', VStr ''a''), (''v'', VInt 1)], [(''os'', VStr ''a''), (''v'', VInt 2)], [(''os'', VStr ''b''), (''v'', VInt 2)]]"
    unfolding expand_axes_and_excludes[OF pre ex, THEN conjunct1] matrixAllMatch_iff[symmetric] ax
    by (simp add: axis_values_def matrixAllMatch_def)
  with ex show ?thesis by simp
qed

subsection \<open>Includes\<close>

lemma include_one_keeps:
  assumes "i < length combos" "mget (combos ! i) k = Some cv" "map_wf inc"
  shows "\<exists>cv'. mget (include_one combos inc ! i) k = Some cv' \<and> (cv' = cv \<or> deep_equal cv cv')"
proof -
  have nth: "include_one combos inc ! i =
      (if matrixSubsetMatch (combos ! i) inc then merge (combos ! i) inc else combos ! i)"
    if "list_ex (\<lambda>c. matrixSubsetMatch c inc) combos \<or> \<not> matrixSubsetMatch (combos ! i) inc"
    using assms(1) that by (auto simp: include_one_def Let_def nth_append)
  have "matrixSubsetMatch (combos ! i) inc \<Longrightarrow> list_ex (\<lambda>c. matrixSubsetMatch c inc) combos"
    using assms(1) by (auto simp: list_ex_iff)
  with nth have nth': "include_one combos inc ! i =
      (if matrixSubsetMatch (combos ! i) inc then merge (combos ! i) inc else combos ! i)" by blast
  show ?thesis
  proof (cases "matrixSubsetMatch (combos ! i) inc")
    case True
    show ?thesis
    proof (cases "mget inc k")
      case None
      with True assms(2,3) nth' show ?thesis by (simp add: mget_merge)
    next
      case (Some v)
      then have "(k, v) \<in> set inc" by (rule map_of_SomeD)
      with True assms(2) have "deep_equal cv v" by (auto simp: matrixSubsetMatch_def list_all_iff)
      with True Some assms(3) nth' show ?thesis by (simp add: mget_merge)
    qed
  next
    case False
    with assms(2) nth' show ?thesis by simp
  qed
qed

lemma length_include_one: "length combos \<le> length (include_one combos inc)"
  by (simp add: include_one_def Let_def)

lemma include_keeps:
  assumes "i < length combos" "mget (combos ! i) k = Some cv" "\<forall>inc \<in> set incs. map_wf inc"
  shows "i < length (applyMatrixInclude combos incs) \<and>
    (\<exists>cv'. mget (applyMatrixInclude combos incs ! i) k = Some cv' \<and> deep_equal\<^sup>*\<^sup>* cv cv')"
  using assms
proof (induction combos incs arbitrary: cv rule: applyMatrixInclude.induct)
  case (1 combos)
  then show ?case by simp
next
  case (2 combos inc incs)
  have "map_wf inc" using "2.prems"(3) by simp
  from include_one_keeps[OF "2.prems"(1,2) this]
  obtain cv' where cv': "mget (include_one combos inc ! i) k = Some cv'" "deep_equal\<^sup>*\<^sup>* cv cv'" by blast
  have "i < length (include_one combos inc)" using "2.prems"(1) length_include_one[of combos inc] by simp
  from "2.IH"[OF this cv'(1)] "2.prems"(3) cv'(2) show ?case
    by simp (meson rtranclp_trans)
qed

text \<open>An \<open>include\<close> never changes a value a combination already has: whatever the combination
  at some index of the product assigned to a key, it still has (up to \<open>reflect.DeepEqual\<close>) after
  all includes.\<close>

theorem expand_include_keeps:
  assumes "map_wf m" "\<forall>inc \<in> set (entries_of ''include'' m). map_wf inc"
    and "ExpandMatrix (Some (st\<lparr>st_matrix := Some m\<rparr>)) = Inr cs"
    and "ExpandMatrix (Some (st\<lparr>st_matrix := Some (filter (\<lambda>(k, v). k \<noteq> ''include'') m)\<rparr>)) = Inr base"
    and "i < length base" "mget (base ! i) k = Some v"
  shows "i < length cs \<and> (\<exists>v'. mget (cs ! i) k = Some v' \<and> deep_equal\<^sup>*\<^sup>* v v')"
proof -
  let ?m = "filter (\<lambda>(k, v). k \<noteq> ''include'') m"
  have wf: "map_wf ?m" using assms(1) unfolding map_wf_def
    by (induction m) (auto split: if_splits)
  have ax: "axes_of ?m = axes_of m"
    by (induction m) (auto simp: axes_of_simps split: goval.split)
  have get: "mget ?m key = (if key = ''include'' then None else mget m key)" for key
    by (induction m) auto
  have "entries_of ''exclude'' ?m = entries_of ''exclude'' m" "entries_of ''include'' ?m = []"
    by (simp_all add: entries_of_def get)
  then have "cs = applyMatrixInclude base (entries_of ''include'' m)"
    using assms(3,4) ExpandMatrix_eq[OF assms(1), of "st\<lparr>st_matrix := Some m\<rparr>"]
      ExpandMatrix_eq[OF wf, of "st\<lparr>st_matrix := Some ?m\<rparr>"] by (simp add: ax)
  with include_keeps[OF assms(5,6,2)] show ?thesis by simp
qed

theorem expand_include_keeps_witness:
  "\<exists>cs. ExpandMatrix (Some \<lparr>st_matrix = Some [(''os'', VList [VStr ''a'']),
        (''include'', VMap [(''x'', VStr ''y'')])], st_fail_fast = None, st_max_parallel = 0\<rparr>) = Inr cs
     \<and> 0 < length cs \<and> (\<exists>v'. mget (cs ! 0) ''os'' = Some v' \<and> deep_equal\<^sup>*\<^sup>* (VStr ''a'') v')"
proof -
  let ?m = "[(''os'', VList [VStr ''a'']), (''include'', VMap [(''x'', VStr ''y'')])]"
  let ?st = "\<lparr>st_matrix = None, st_fail_fast = None, st_max_parallel = 0\<rparr> :: Strategy"
  have ex: "ExpandMatrix (Some (?st\<lparr>st_matrix := Some ?m\<rparr>)) = Inr [[(''os'', VStr ''a''), (''x'', VStr ''y'')]]"
    "ExpandMatrix (Some (?st\<lparr>st_matrix := Some (filter (\<lambda>(k, v). k \<noteq> ''include'') ?m)\<rparr>)) = Inr [[(''os'', VStr ''a'')]]"
    by (simp_all add: ExpandMatrix_def scan_init_def scan_entry_def axis_keys_def extend_combos_def
      applyMatrixExclude_def matrixEntryList_def include_one_def matrixSubsetMatch_def merge_def)
  have pre: "map_wf ?m" "\<forall>inc \<in> set (entries_of ''include'' ?m). map_wf inc"
    by (simp_all add: map_wf_def entries_of_def matrixEntryList_def)
  show ?thesis using expand_include_keeps[OF pre ex, of 0 "''os''" "VStr ''a''"] ex(1) by simp
qed

text \<open>Contrary to the comment of \<open>matrixSubsetMatch\<close>, keys that an earlier include merged in do
  take part in the match: a second include that gives such a key another value matches no
  combination, even one whose axis values it names, and becomes a combination of its own.\<close>

theorem include_after_include_standalone:
  assumes "a \<notin> {''include'', ''exclude''}" "k \<noteq> a" "\<not> deep_equal v1 v2" "xs \<noteq> []"
  shows "ExpandMatrix (Some \<lparr>st_matrix = Some [(a, VList xs),
        (''include'', VList [VMap [(k, v1)], VMap [(a, x), (k, v2)]])],
        st_fail_fast = ff, st_max_parallel = mp\<rparr>) =
    Inr (map (\<lambda>y. [(a, y), (k, v1)]) xs @ [[(a, x), (k, v2)]])"
proof -
  have ne: "\<exists>c. c \<in> set xs" using assms(4) by (cases xs) auto
  have "include_one (map (\<lambda>y. [(a, y)]) xs) [(k, v1)] = map (\<lambda>y. [(a, y), (k, v1)]) xs"
    using assms(2) ne by (simp add: include_one_def matrixSubsetMatch_def merge_def list_ex_iff)
  moreover have "include_one (map (\<lambda>y. [(a, y), (k, v1)]) xs) [(a, x), (k, v2)] =
      map (\<lambda>y. [(a, y), (k, v1)]) xs @ [[(a, x), (k, v2)]]"
    using assms(2,3) by (simp add: include_one_def matrixSubsetMatch_def merge_def list_ex_iff)
  moreover have "extend_combos a xs [[]] = map (\<lambda>y. [(a, y)]) xs" by (simp add: extend_combos_def)
  ultimately show ?thesis using assms(1)
    by (simp add: ExpandMatrix_def scan_init_def scan_entry_def axis_keys_def applyMatrixExclude_def
        matrixEntryList_def)
qed

theorem include_after_include_standalone_witness:
  "ExpandMatrix (Some \<lparr>st_matrix = Some [(''animal'', VList [VStr ''cat'', VStr ''dog'']),
        (''include'', VList [VMap [(''color'', VStr ''green'')],
          VMap [(''animal'', VStr ''cat''), (''color'', VStr ''pink'')]])],
        st_fail_fast = None, st_max_parallel = 0\<rparr>) =
    Inr [[(''animal'', VStr ''cat''), (''color'', VStr ''green'')],
         [(''animal'', VStr ''dog''), (''color'', VStr ''green'')],
         [(''animal'', VStr ''cat''), (''color'', VStr ''pink'')]]"
  using include_after_include_standalone[of "''animal''" "''color''" "VStr ''green''" "VStr ''pink''"
      "[VStr ''cat'', VStr ''dog'']" "VStr ''cat''" None 0] by simp

subsection \<open>How many combinations\<close>

lemma length_include_one_le: "length (include_one combos inc) \<le> Suc (length combos)" "include_one combos inc \<noteq> []"
  by (cases combos) (auto simp: include_one_def Let_def list_ex_iff)

lemma length_includes:
  "length combos \<le> length (applyMatrixInclude combos incs)"
  "length (applyMatrixInclude combos incs) \<le> length combos + length incs"
proof (induction combos incs rule: applyMatrixInclude.induct)
  case (2 combos inc incs)
  note step = length_include_one[of combos inc] length_include_one_le(1)[of combos inc]
  { case 1 show ?case using 2(1) step by simp }
  { case 2 show ?case using "2.IH"(2) step by simp }
qed simp_all

lemma include_nonempty: "incs \<noteq> [] \<Longrightarrow> applyMatrixInclude combos incs \<noteq> []"
proof (cases incs)
  case (Cons inc rest)
  have "0 < length (include_one combos inc)" by (simp add: length_include_one_le)
  with length_includes(1)[of "include_one combos inc" rest] Cons show ?thesis by (metis applyMatrixInclude.simps(2)
      length_greater_0_conv less_le_trans)
qed simp

text \<open>The size of the cartesian product.\<close>

definition product_size :: "goval list smap \<Rightarrow> nat" where
  "product_size ax = (if ax = [] then 0 else prod_list (map (length \<circ> snd) ax))"

lemma length_all_combos:
  assumes "map_wf ax"
  shows "length (if ax \<noteq> [] then product (sort (map fst ax)) ax [[]] else []) = product_size ax"
proof -
  have size: "axis_size ax (fst p) = length (snd p)" if "p \<in> set ax" for p
  proof -
    have "mget ax (fst p) = Some (snd p)" using that assms by (intro map_of_is_SomeI) (simp_all add: map_wf_def)
    then show ?thesis by (simp add: axis_size_def)
  qed
  have "prod_list (map (axis_size ax) (sort (map fst ax))) = prod_list (map (axis_size ax) (map fst ax))"
    by (metis mset_map mset_sort prod_mset_prod_list)
  also have "\<dots> = prod_list (map (length \<circ> snd) ax)"
    using size by (simp add: comp_def cong: map_cong)
  finally show ?thesis by (simp add: length_product product_size_def)
qed

text \<open>C19: How many times a job runs: its combinations are at most the product of the lengths of its axes, plus one for
  each \<open>include\<close>; without \<open>exclude\<close> they are at least that product; and where there is an \<open>include\<close>
  there is a combination, whatever was excluded.\<close>

theorem expand_size_bounds:
  assumes "map_wf m" "ExpandMatrix (Some (st\<lparr>st_matrix := Some m\<rparr>)) = Inr cs"
  shows "length cs \<le> product_size (axes_of m) + length (entries_of ''include'' m) \<and>
    (mget m ''exclude'' = None \<longrightarrow> product_size (axes_of m) \<le> length cs) \<and>
    (entries_of ''include'' m \<noteq> [] \<longrightarrow> cs \<noteq> [])"
proof -
  define P where "P = (if axes_of m \<noteq> [] then product (sort (map fst (axes_of m))) (axes_of m) [[]] else [])"
  define base where "base = applyMatrixExclude P (entries_of ''exclude'' m)"
  define incs where "incs = entries_of ''include'' m"
  have cs: "cs = applyMatrixInclude base incs"
    using assms(2) ExpandMatrix_eq[OF assms(1), of "st\<lparr>st_matrix := Some m\<rparr>"] by (simp add: P_def base_def incs_def)
  have "length P = product_size (axes_of m)"
    unfolding P_def by (rule length_all_combos[OF map_wf_axes_of[OF assms(1)]])
  moreover have "length base \<le> length P" unfolding base_def by (simp only: applyMatrixExclude_filter length_filter_le)
  moreover have "base = P" if "mget m ''exclude'' = None"
    using that by (simp add: base_def entries_of_def applyMatrixExclude_def)
  moreover note length_includes[of base incs] include_nonempty[of incs base]
  ultimately show ?thesis unfolding cs incs_def[symmetric] by auto
qed

theorem expand_size_bounds_witness:
  "\<exists>cs. ExpandMatrix (Some \<lparr>st_matrix = Some [(''os'', VList [VStr ''a'', VStr ''b'']), (''v'', VList [VInt 1, VInt 2]),
        (''exclude'', VMap [(''os'', VStr ''a'')]), (''include'', VMap [(''x'', VStr ''y'')])],
        st_fail_fast = None, st_max_parallel = 0\<rparr>) = Inr cs \<and> length cs \<le> 5 \<and> cs \<noteq> []"
proof -
  let ?m = "[(''os'', VList [VStr ''a'', VStr ''b'']), (''v'', VList [VInt 1, VInt 2]),
        (''exclude'', VMap [(''os'', VStr ''a'')]), (''include'', VMap [(''x'', VStr ''y'')])]"
  let ?st = "\<lparr>st_matrix = None, st_fail_fast = None, st_max_parallel = 0\<rparr> :: Strategy"
  obtain cs where ex: "ExpandMatrix (Some (?st\<lparr>st_matrix := Some ?m\<rparr>)) = Inr cs"
    by (simp add: ExpandMatrix_def scan_init_def scan_entry_def axis_keys_def matrixEntryList_def)
  have wf: "map_wf ?m" by (simp add: map_wf_def)
  have "product_size (axes_of ?m) = 4" "length (entries_of ''include'' ?m) = 1"
    by (simp_all add: axes_of_simps product_size_def entries_of_def matrixEntryList_def)
  with expand_size_bounds[OF wf ex] ex show ?thesis by (intro exI[of _ cs]) auto
qed

subsection \<open>Display names\<close>

text \<open>The display name of a combination is a function of the map, not of an iteration order.\<close>

theorem matrix_suffix_iteration_order:
  assumes "map_wf c" "mset c' = mset c"
  shows "MatrixSuffix c' = MatrixSuffix c"
proof -
  have m: "mset c = mset c'" using assms(2) by simp
  then have "c = [] \<longleftrightarrow> c' = []" by (metis mset_zero_iff)
  then show ?thesis
    using sort_keys_mset[OF m] mget_mset[OF m assms(1)] by (simp add: MatrixSuffix_def)
qed

theorem matrix_suffix_iteration_order_witness:
  "MatrixSuffix [(''v'', VStr ''1''), (''os'', VStr ''l'')] = '' (os=l, v=1)''"
proof -
  have "MatrixSuffix [(''v'', VStr ''1''), (''os'', VStr ''l'')] =
      MatrixSuffix [(''os'', VStr ''l''), (''v'', VStr ''1'')]"
    by (rule matrix_suffix_iteration_order) (simp_all add: map_wf_def)
  also have "\<dots> = '' (os=l, v=1)''" by (simp add: MatrixSuffix_def)
  finally show ?thesis .
qed

end
