(* ===== verification/Workflow.thy ===== *)
theory Workflow
  imports Matrix
begin

text \<open>
  \<open>internal/engine/workflow.go\<close>: the workflow schema and the decoding of its polymorphic fields,
  and \<open>internal/engine/credentials.go\<close>.

  A \<open>yaml.Node\<close> is its kind together with what \<open>node.Decode(&dst)\<close> returns for the destination
  type the code decodes it into; decoding itself is the YAML library's.
\<close>

type_synonym yaml_error = string

datatype 'a yaml_node =
    ZeroNode \<comment> \<open>\<open>Kind == 0\<close>: the field is absent\<close>
  | ScalarNode "yaml_error + string"
  | MappingNode "yaml_error + 'a"
  | SequenceNode "yaml_error + string list"
  | AliasNode

datatype decode_error = NotStringOrList | NotStringOrMapping string | DecodeFailed string yaml_error

record Step =
  step_id :: string
  step_name :: string
  step_run :: string
  step_uses :: string
  step_with :: "string smap"
  step_shell :: string
  step_env :: "string smap"
  step_if :: string
  step_continue_on_error :: bool
  step_working_directory :: string
  step_timeout_minutes :: float64

record ContainerSpec =
  cs_image :: string
  cs_env :: "string smap"
  cs_ports :: "string list"
  cs_volumes :: "string list"
  cs_options :: string
  cs_credentials :: "string smap option"

record EnvironmentSpec =
  es_name :: string
  es_url :: string

record PermissionsSpec =
  ps_all :: string
  ps_scopes :: "string smap option"

record ConcurrencySpec =
  cc_group :: string
  cc_cancel_in_progress :: bool

record RunDefaults =
  rd_shell :: string
  rd_working_directory :: string

record Job =
  job_name :: string
  job_runs_on :: string
  job_env :: "string smap"
  job_steps :: "Step list"
  job_needs :: "string list"
  job_strategy :: "Strategy option"
  job_outputs :: "string smap"
  job_timeout_minutes :: float64
  job_defaults :: "RunDefaults option"
  job_raw_container :: "ContainerSpec yaml_node"
  job_services :: "ContainerSpec smap"
  job_raw_environment :: "EnvironmentSpec yaml_node"
  job_raw_permissions :: "string smap yaml_node"
  job_raw_concurrency :: "ConcurrencySpec yaml_node"

record Workflow =
  wf_name :: string
  wf_on :: goval
  wf_env :: "string smap"
  wf_defaults :: "RunDefaults option"
  wf_jobs :: "Job smap"
  wf_raw_permissions :: "string smap yaml_node"
  wf_raw_concurrency :: "ConcurrencySpec yaml_node"

subsection \<open>Fields of several shapes\<close>

type_synonym StringOrSlice = "string list"

definition decode_string_or_slice :: "'a yaml_node \<Rightarrow> decode_error + StringOrSlice" where
  "decode_string_or_slice value = (case value of
     ScalarNode r \<Rightarrow> (case r of Inl e \<Rightarrow> Inl (DecodeFailed [] e) | Inr single \<Rightarrow> Inr [single])
   | SequenceNode r \<Rightarrow> (case r of Inl e \<Rightarrow> Inl (DecodeFailed [] e) | Inr l \<Rightarrow> Inr l)
   | _ \<Rightarrow> Inl NotStringOrList)"

definition decodePermissions :: "string smap yaml_node \<Rightarrow> decode_error + PermissionsSpec option" where
  "decodePermissions node = (case node of
     ZeroNode \<Rightarrow> Inr None
   | ScalarNode r \<Rightarrow> (case r of Inl e \<Rightarrow> Inl (DecodeFailed ''permissions'' e)
       | Inr a \<Rightarrow> Inr (Some \<lparr>ps_all = a, ps_scopes = None\<rparr>))
   | MappingNode r \<Rightarrow> (case r of Inl e \<Rightarrow> Inl (DecodeFailed ''permissions'' e)
       | Inr scopes \<Rightarrow> Inr (Some \<lparr>ps_all = [], ps_scopes = Some scopes\<rparr>))
   | _ \<Rightarrow> Inl (NotStringOrMapping ''permissions''))"

definition decodeConcurrency :: "ConcurrencySpec yaml_node \<Rightarrow> decode_error + ConcurrencySpec option" where
  "decodeConcurrency node = (case node of
     ZeroNode \<Rightarrow> Inr None
   | ScalarNode r \<Rightarrow> (case r of Inl e \<Rightarrow> Inl (DecodeFailed ''concurrency'' e)
       | Inr g \<Rightarrow> Inr (Some \<lparr>cc_group = g, cc_cancel_in_progress = False\<rparr>))
   | MappingNode r \<Rightarrow> (case r of Inl e \<Rightarrow> Inl (DecodeFailed ''concurrency'' e)
       | Inr spec \<Rightarrow> Inr (Some spec))
   | _ \<Rightarrow> Inl (NotStringOrMapping ''concurrency''))"

definition job_Permissions :: "Job \<Rightarrow> decode_error + PermissionsSpec option" where
  "job_Permissions j = decodePermissions (job_raw_permissions j)"

definition job_Concurrency :: "Job \<Rightarrow> decode_error + ConcurrencySpec option" where
  "job_Concurrency j = decodeConcurrency (job_raw_concurrency j)"

definition wf_Permissions :: "Workflow \<Rightarrow> decode_error + PermissionsSpec option" where
  "wf_Permissions w = decodePermissions (wf_raw_permissions w)"

definition wf_Concurrency :: "Workflow \<Rightarrow> decode_error + ConcurrencySpec option" where
  "wf_Concurrency w = decodeConcurrency (wf_raw_concurrency w)"

definition job_Environment :: "Job \<Rightarrow> decode_error + EnvironmentSpec option" where
  "job_Environment j = (case job_raw_environment j of
     ZeroNode \<Rightarrow> Inr None
   | ScalarNode r \<Rightarrow> (case r of Inl e \<Rightarrow> Inl (DecodeFailed ''environment'' e)
       | Inr n \<Rightarrow> Inr (Some \<lparr>es_name = n, es_url = []\<rparr>))
   | MappingNode r \<Rightarrow> (case r of Inl e \<Rightarrow> Inl (DecodeFailed ''environment'' e)
       | Inr spec \<Rightarrow> Inr (Some spec))
   | _ \<Rightarrow> Inl (NotStringOrMapping ''environment''))"

definition job_Container :: "Job \<Rightarrow> decode_error + ContainerSpec option" where
  "job_Container j = (case job_raw_container j of
     ZeroNode \<Rightarrow> Inr None
   | ScalarNode r \<Rightarrow> (case r of Inl e \<Rightarrow> Inl (DecodeFailed ''container'' e)
       | Inr img \<Rightarrow> Inr (Some \<lparr>cs_image = img, cs_env = [], cs_ports = [], cs_volumes = [],
           cs_options = [], cs_credentials = None\<rparr>))
   | MappingNode r \<Rightarrow> (case r of Inl e \<Rightarrow> Inl (DecodeFailed ''container'' e)
       | Inr spec \<Rightarrow> Inr (Some spec))
   | _ \<Rightarrow> Inl (NotStringOrMapping ''container''))"

subsection \<open>Triggers and parsing\<close>

datatype on_error = OnEntryNotString goval | OnWrongType goval

fun on_list_names :: "goval list \<Rightarrow> on_error + string list" where
  "on_list_names [] = Inr []"
| "on_list_names (item # items) = (case item of
     VStr s \<Rightarrow> bind_res (on_list_names items) (\<lambda>names. Inr (s # names))
   | _ \<Rightarrow> Inl (OnEntryNotString item))"

definition OnEventNames :: "Workflow \<Rightarrow> on_error + string list" where
  "OnEventNames w = (case wf_on w of
     VNil \<Rightarrow> Inr []
   | VStr v \<Rightarrow> Inr [v]
   | VList v \<Rightarrow> on_list_names v
   | VMap v \<Rightarrow> Inr (sort (map fst v))
   | v \<Rightarrow> Inl (OnWrongType v))"

datatype parse_error = YamlError yaml_error | NoJobs

text \<open>\<open>Parse\<close>, with the YAML library's \<open>Unmarshal\<close> into a \<open>Workflow\<close> as a parameter.\<close>

definition Parse :: "(string \<Rightarrow> yaml_error + Workflow) \<Rightarrow> string \<Rightarrow> parse_error + Workflow" where
  "Parse unmarshal data = (case unmarshal data of
     Inl e \<Rightarrow> Inl (YamlError e)
   | Inr w \<Rightarrow> if wf_jobs w = [] then Inl NoJobs else Inr w)"

subsection \<open>Credentials\<close>

datatype credentials_error = BadCredentials

definition validateCredentials :: "string smap option \<Rightarrow> credentials_error + string \<times> string" where
  "validateCredentials creds = (case creds of
     None \<Rightarrow> Inr ([], [])
   | Some c \<Rightarrow>
      (if length c \<noteq> 2 then Inl BadCredentials
       else case mget c ''username'' of
         None \<Rightarrow> Inl BadCredentials
       | Some username \<Rightarrow> (if username = [] then Inl BadCredentials
           else case mget c ''password'' of
             None \<Rightarrow> Inl BadCredentials
           | Some password \<Rightarrow> (if password = [] then Inl BadCredentials
               else Inr (username, password)))))"

definition registryHostFor :: "string \<Rightarrow> string" where
  "registryHostFor img = (case str_cut img ''/'' of (first, _, found) \<Rightarrow>
     if \<not> found then ''index.docker.io''
     else if CHR ''.'' \<in> set first \<or> CHR '':'' \<in> set first \<or> first = ''localhost'' then first
     else ''index.docker.io'')"

lemma keys_two:
  assumes "map_wf c" "length c = 2" "mget c a = Some u" "mget c b = Some p" "a \<noteq> b"
  shows "set c = {(a, u), (b, p)}"
proof -
  have sub: "{(a, u), (b, p)} \<subseteq> set c" using assms(3,4) by (auto dest: map_of_SomeD)
  have "card (set c) \<le> 2" using assms(2) card_length[of c] by simp
  moreover have "card {(a, u), (b, p)} = 2" using assms(5) by simp
  ultimately show ?thesis using card_seteq[OF _ sub] by simp
qed

text \<open>Credentials are accepted exactly when the map holds a non-empty \<open>username\<close> and a
  non-empty \<open>password\<close> and nothing else, and those two are what is passed on.\<close>

theorem credentials_accepted_iff:
  assumes "map_wf c"
  shows "validateCredentials (Some c) = Inr (u, p) \<longleftrightarrow>
    set c = {(''username'', u), (''password'', p)} \<and> u \<noteq> [] \<and> p \<noteq> []"
proof
  assume "validateCredentials (Some c) = Inr (u, p)"
  then have "length c = 2" "mget c ''username'' = Some u" "mget c ''password'' = Some p" "u \<noteq> []" "p \<noteq> []"
    by (auto simp: validateCredentials_def split: if_splits option.splits)
  with keys_two[OF assms] show "set c = {(''username'', u), (''password'', p)} \<and> u \<noteq> [] \<and> p \<noteq> []"
    by simp
next
  assume *: "set c = {(''username'', u), (''password'', p)} \<and> u \<noteq> [] \<and> p \<noteq> []"
  then have "mget c ''username'' = Some u" "mget c ''password'' = Some p"
    using assms by (auto simp: map_wf_def map_of_eq_Some_iff)
  moreover have "length c = 2"
  proof -
    have "distinct c" using assms by (auto simp: map_wf_def distinct_map)
    then have "length c = card (set c)" by (simp add: distinct_card)
    with * show ?thesis by simp
  qed
  ultimately show "validateCredentials (Some c) = Inr (u, p)" using * by (simp add: validateCredentials_def)
qed

theorem credentials_accepted_iff_witness:
  "validateCredentials (Some [(''password'', ''s3''), (''username'', ''bob'')]) = Inr (''bob'', ''s3'')"
  by (rule credentials_accepted_iff[THEN iffD2]) (auto simp: map_wf_def)

end
