(* ===== verification/Context.thy ===== *)
theory Context
  imports Workflow
begin

text \<open>
  \<open>internal/engine/context.go\<close>: the contexts an expression can read and how a path such as
  \<open>steps.emit.outputs.x\<close> is resolved in them. Lookups ignore the case of names; a name that is
  absent reads as null or as the empty string, a path of the wrong shape is an error.
\<close>

record StepOutcome =
  so_outcome :: string
  so_outputs :: "string smap"

record JobOutcome =
  jo_result :: string
  jo_outputs :: "string smap"

record Context =
  ctx_github :: "goval smap"
  ctx_env :: "string smap"
  ctx_runner :: "goval smap"
  ctx_steps :: "StepOutcome smap"
  ctx_needs :: "JobOutcome smap"
  ctx_matrix :: combination
  ctx_vars :: "string smap"
  ctx_secrets :: "string smap"

definition NewContext :: "Workflow \<Rightarrow> Job \<Rightarrow> Context" where
  "NewContext w job = \<lparr>
     ctx_github = [(''event_name'', VStr ''workflow_dispatch''), (''ref'', VStr ''refs/heads/main''),
       (''sha'', VStr (replicate 40 (CHR ''0''))), (''repository'', VStr ''local/mirror-gha''),
       (''workflow'', VStr (wf_name w)), (''actor'', VStr ''local''), (''run_id'', VStr ''1''),
       (''run_number'', VStr ''1''), (''run_attempt'', VStr ''1'')],
     ctx_env = merge (merge [] (wf_env w)) (job_env job),
     ctx_runner = [(''os'', VStr ''Linux''), (''temp'', VStr ''/tmp'')],
     ctx_steps = [], ctx_needs = [], ctx_matrix = [], ctx_vars = [], ctx_secrets = []\<rparr>"

text \<open>The name of the environment variable behind \<open>inputs.<name>\<close>.\<close>

definition inputEnvKeyFor :: "string \<Rightarrow> string" where
  "inputEnvKeyFor name = ''INPUT_'' @
     map (\<lambda>c. if is_upper c \<or> is_digit c \<or> c = CHR ''-'' then c else CHR ''_'') (ToUpper name)"

text \<open>The first entry whose key equals the name up to case, in iteration order.\<close>

definition find_ci :: "'v smap \<Rightarrow> string \<Rightarrow> 'v option" where
  "find_ci m key = map_option snd (find (\<lambda>(k, v). EqualFold k key) m)"

definition lookupStringCI :: "string smap \<Rightarrow> string \<Rightarrow> string" where
  "lookupStringCI m key = (case find_ci m key of Some v \<Rightarrow> v | None \<Rightarrow> [])"

definition lookupAnyCI :: "goval smap \<Rightarrow> string \<Rightarrow> goval" where
  "lookupAnyCI m key = (case find_ci m key of Some v \<Rightarrow> v | None \<Rightarrow> VNil)"

fun resolveNestedPath :: "goval \<Rightarrow> string list \<Rightarrow> goval" where
  "resolveNestedPath val [] = val"
| "resolveNestedPath val (key # remaining) = (case val of
     VMap m \<Rightarrow> (case find_ci m key of Some mv \<Rightarrow> resolveNestedPath mv remaining | None \<Rightarrow> VNil)
   | VList vs \<Rightarrow> (case parse_int64 key of
       Some idx \<Rightarrow> (if idx < 0 \<or> idx \<ge> int (length vs) then VNil
         else resolveNestedPath (vs ! nat idx) remaining)
     | None \<Rightarrow> VNil)
   | _ \<Rightarrow> VNil)"

datatype path_error =
    EmptyPath
  | InvalidReference string "string list" \<comment> \<open>the context, the path\<close>
  | UnknownField string string
  | UnknownContext string
  | UnknownStatusFunction string

text \<open>The outcome fields of a step and of a needed job; \<open>path\<close> is the whole path.\<close>

definition step_field :: "StepOutcome \<Rightarrow> string list \<Rightarrow> path_error + goval" where
  "step_field o' path =
     (if ToLower (path ! 2) = ''outcome'' then Inr (VStr (so_outcome o'))
      else if ToLower (path ! 2) = ''outputs'' then
        (if length path \<noteq> 4 then Inl (InvalidReference ''steps.outputs'' path)
         else Inr (VStr (lookupStringCI (so_outputs o') (path ! 3))))
      else Inl (UnknownField ''steps'' (path ! 2)))"

definition needs_field :: "JobOutcome \<Rightarrow> string list \<Rightarrow> path_error + goval" where
  "needs_field o' path =
     (if ToLower (path ! 2) = ''result'' then Inr (VStr (jo_result o'))
      else if ToLower (path ! 2) = ''outputs'' then
        (if length path \<noteq> 4 then Inl (InvalidReference ''needs.outputs'' path)
         else Inr (VStr (lookupStringCI (jo_outputs o') (path ! 3))))
      else Inl (UnknownField ''needs'' (path ! 2)))"

text \<open>A context with one name below it.\<close>

definition two_part :: "string \<Rightarrow> string list \<Rightarrow> (string \<Rightarrow> goval) \<Rightarrow> path_error + goval" where
  "two_part ctx path f = (if length path \<noteq> 2 then Inl (InvalidReference ctx path) else Inr (f (path ! 1)))"

definition resolvePath :: "Context \<Rightarrow> string list \<Rightarrow> path_error + goval" where
  "resolvePath c path =
     (if path = [] then Inl EmptyPath
      else let ctx = ToLower (hd path) in
      if ctx = ''env'' then two_part ctx path (\<lambda>n. VStr (lookupStringCI (ctx_env c) n))
      else if ctx = ''github'' then
        (if length path < 2 then Inl (InvalidReference ctx path)
         else if EqualFold (path ! 1) ''event'' then
           Inr (resolveNestedPath (case mget (ctx_github c) ''event'' of Some v \<Rightarrow> v | None \<Rightarrow> VNil) (drop 2 path))
         else two_part ctx path (lookupAnyCI (ctx_github c)))
      else if ctx = ''runner'' then two_part ctx path (lookupAnyCI (ctx_runner c))
      else if ctx = ''steps'' then
        (if length path < 3 then Inl (InvalidReference ctx path)
         else case find_ci (ctx_steps c) (path ! 1) of
           None \<Rightarrow> Inr VNil | Some o' \<Rightarrow> step_field o' path)
      else if ctx = ''needs'' then
        (if length path < 3 then Inl (InvalidReference ctx path)
         else case find_ci (ctx_needs c) (path ! 1) of
           None \<Rightarrow> Inr VNil | Some o' \<Rightarrow> needs_field o' path)
      else if ctx = ''matrix'' then two_part ctx path (lookupAnyCI (ctx_matrix c))
      else if ctx = ''vars'' then two_part ctx path (\<lambda>n. VStr (lookupStringCI (ctx_vars c) n))
      else if ctx = ''secrets'' then two_part ctx path (\<lambda>n. VStr (lookupStringCI (ctx_secrets c) n))
      else if ctx = ''inputs'' then
        two_part ctx path (\<lambda>n. VStr (lookupStringCI (ctx_env c) (inputEnvKeyFor n)))
      else Inl (UnknownContext (hd path)))"

definition anyFailed :: "Context \<Rightarrow> bool" where
  "anyFailed c \<longleftrightarrow> list_ex (\<lambda>(_, s). so_outcome s = ''failure'') (ctx_steps c)"

definition callStatusFunc :: "Context \<Rightarrow> string \<Rightarrow> path_error + goval" where
  "callStatusFunc c name =
     (if name = ''success'' then Inr (VBool (\<not> anyFailed c))
      else if name = ''failure'' then Inr (VBool (anyFailed c))
      else if name = ''always'' then Inr (VBool True)
      else if name = ''cancelled'' then Inr (VBool False)
      else Inl (UnknownStatusFunction name))"

subsection \<open>Lookups\<close>

text \<open>Keys that differ only in case do not occur together.\<close>

definition ci_keys :: "'v smap \<Rightarrow> bool" where
  "ci_keys m \<longleftrightarrow> distinct (map (\<lambda>p. ToLower (fst p)) m)"

lemma find_ci_map_of: "find_ci m key = map_of (map (\<lambda>(k, v). (ToLower k, v)) m) (ToLower key)"
proof (induction m)
  case (Cons p m)
  then show ?case by (cases p) (simp add: find_ci_def EqualFold_def)
qed (simp add: find_ci_def)

lemma find_ci_Some_iff:
  assumes "ci_keys m"
  shows "find_ci m key = Some v \<longleftrightarrow> (\<exists>k. (k, v) \<in> set m \<and> EqualFold k key)"
proof -
  have "distinct (map fst (map (\<lambda>(k, v). (ToLower k, v)) m))"
    using assms by (simp add: ci_keys_def case_prod_beta comp_def)
  from map_of_eq_Some_iff[OF this] show ?thesis unfolding find_ci_map_of
    by (force simp: EqualFold_def image_iff)
qed

lemma find_ci_fold: "EqualFold key key' \<Longrightarrow> find_ci m key = find_ci m key'"
  by (simp add: find_ci_map_of EqualFold_def)

lemma find_ci_mset:
  assumes "ci_keys m" "mset m = mset m'"
  shows "find_ci m key = find_ci m' key"
proof -
  have m': "ci_keys m'" using assms unfolding ci_keys_def
    by (metis (no_types, lifting) mset_eq_imp_distinct_iff mset_map)
  have "find_ci m key = Some v \<longleftrightarrow> find_ci m' key = Some v" for v
    using find_ci_Some_iff[OF assms(1)] find_ci_Some_iff[OF m'] mset_eq_setD[OF assms(2)] by simp
  then show ?thesis by (metis not_Some_eq)
qed

subsection \<open>Paths ignore case\<close>

lemma char_ranges:
  "is_upper c \<longleftrightarrow> 65 \<le> (of_char c :: nat) \<and> of_char c \<le> (90 :: nat)"
  "is_lower c \<longleftrightarrow> 97 \<le> (of_char c :: nat) \<and> of_char c \<le> (122 :: nat)"
  "is_digit c \<longleftrightarrow> 48 \<le> (of_char c :: nat) \<and> of_char c \<le> (57 :: nat)"
  by (simp_all add: is_upper_def is_lower_def is_digit_def less_eq_char_def)

lemma char_cases_fold:
  assumes "is_upper c"
  shows "is_lower (lower_char c)" "upper_char (lower_char c) = c" "\<not> is_lower c" "\<not> is_digit c"
    "\<not> is_digit (lower_char c)" "c \<notin> {CHR ''-'', CHR ''+''}" "lower_char c \<notin> {CHR ''-'', CHR ''+''}"
proof -
  let ?n = "of_char c :: nat"
  from assms have n: "65 \<le> ?n" "?n \<le> 90" by (simp_all add: char_ranges)
  from assms have l: "lower_char c = char_of (?n + 32)" by (simp add: lower_char_def)
  have ln: "of_char (lower_char c) = ?n + 32" unfolding l using n by simp
  show low: "is_lower (lower_char c)" "\<not> is_lower c" "\<not> is_digit c" "\<not> is_digit (lower_char c)"
    using n by (simp_all add: char_ranges ln)
  show "upper_char (lower_char c) = c" using low(1) by (simp add: upper_char_def ln)
  show "c \<notin> {CHR ''-'', CHR ''+''}" using n by auto
  have "of_char (lower_char c) \<notin> {45, 43 :: nat}" using n by (simp add: ln)
  then show "lower_char c \<notin> {CHR ''-'', CHR ''+''}" by auto
qed

lemma lower_char_other: "\<not> is_upper c \<Longrightarrow> lower_char c = c"
  by (simp add: lower_char_def)

lemma upper_lower_char: "upper_char (lower_char c) = upper_char c"
  using char_cases_fold[of c] lower_char_other[of c]
  by (cases "is_upper c") (auto simp: upper_char_def)

lemma EqualFold_ToUpper: "EqualFold s t \<Longrightarrow> ToUpper s = ToUpper t"
proof -
  have "ToUpper u = ToUpper (ToLower u)" for u
    by (simp add: ToUpper_def ToLower_def upper_lower_char)
  then show "EqualFold s t \<Longrightarrow> ToUpper s = ToUpper t" by (metis EqualFold_def)
qed

lemma digits_lower:
  "list_all is_digit (ToLower s) \<longleftrightarrow> list_all is_digit s"
  "list_all is_digit s \<Longrightarrow> ToLower s = s"
proof -
  have "is_digit (lower_char c) \<longleftrightarrow> is_digit c" for c
    using char_cases_fold[of c] lower_char_other[of c] by (cases "is_upper c") auto
  then show "list_all is_digit (ToLower s) \<longleftrightarrow> list_all is_digit s"
    by (simp add: ToLower_def list_all_iff)
  have "is_digit c \<Longrightarrow> lower_char c = c" for c
    using char_cases_fold[of c] lower_char_other[of c] by (cases "is_upper c") auto
  then show "list_all is_digit s \<Longrightarrow> ToLower s = s"
    by (simp add: ToLower_def list_all_iff map_idI)
qed

lemma HasPrefix_lower:
  "c = CHR ''-'' \<or> c = CHR ''+'' \<Longrightarrow> HasPrefix (ToLower s) [c] \<longleftrightarrow> HasPrefix s [c]"
proof (cases s)
  case (Cons d s')
  then show "c = CHR ''-'' \<or> c = CHR ''+'' \<Longrightarrow> ?thesis"
    using char_cases_fold[of d] lower_char_other[of d]
    by (cases "is_upper d") (auto simp: ToLower_def HasPrefix_def)
qed (simp add: ToLower_def)

definition parse_body :: "bool \<Rightarrow> string \<Rightarrow> int option" where
  "parse_body neg ds = (if ds = [] \<or> \<not> list_all is_digit ds then None
     else let n = digits_val ds 0; v = (if neg then - n else n)
          in if - (2 ^ 63) \<le> v \<and> v < 2 ^ 63 then Some v else None)"

lemma parse_int64_body:
  "parse_int64 s = parse_body (HasPrefix s ''-'')
     (if HasPrefix s ''-'' \<or> HasPrefix s ''+'' then tl s else s)"
  by (simp add: parse_int64_def parse_body_def Let_def)

lemma parse_body_lower: "parse_body neg (ToLower ds) = parse_body neg ds"
proof (cases "list_all is_digit ds")
  case True
  then show ?thesis by (simp add: digits_lower(2))
next
  case False
  then show ?thesis by (simp add: parse_body_def digits_lower(1))
qed

lemma parse_int64_fold:
  assumes "EqualFold s t"
  shows "parse_int64 s = parse_int64 t"
proof -
  have "parse_int64 (ToLower s) = parse_int64 s" for s
  proof -
    have "tl (ToLower s) = ToLower (tl s)" by (simp add: ToLower_def map_tl)
    then show ?thesis unfolding parse_int64_body by (simp add: HasPrefix_lower parse_body_lower)
  qed
  with assms show ?thesis by (metis EqualFold_def)
qed

lemma resolveNestedPath_fold:
  "list_all2 EqualFold path path' \<Longrightarrow> resolveNestedPath val path = resolveNestedPath val path'"
proof (induction path path' arbitrary: val rule: list_all2_induct)
  case (Cons k ks k' ks')
  then show ?case
    by (auto simp: find_ci_fold[of k k'] parse_int64_fold[of k k'] split: goval.split option.split)
qed simp

lemma if_Inr:
  "(P \<Longrightarrow> a = Inr v \<longleftrightarrow> b = Inr v) \<Longrightarrow> (\<not> P \<Longrightarrow> a' = Inr v \<longleftrightarrow> b' = Inr v) \<Longrightarrow>
   (if P then a else a') = Inr v \<longleftrightarrow> (if P then b else b') = Inr v"
  by simp

lemma two_part_Inr:
  assumes "length path = length path'" "2 = length path \<Longrightarrow> f (path ! 1) = f' (path' ! 1)"
  shows "two_part x path f = Inr v \<longleftrightarrow> two_part y path' f' = Inr v"
  using assms by (auto simp: two_part_def)

text \<open>Contexts ignore case: two paths that agree up to the case of their segments resolve to
  the same value, in every context and at every depth of the event payload.\<close>

theorem resolvePath_ignores_case:
  assumes "list_all2 EqualFold path path'"
  shows "resolvePath c path = Inr v \<longleftrightarrow> resolvePath c path' = Inr v"
proof (cases "path = []")
  case True
  with assms show ?thesis by simp
next
  case False
  have len: "length path = length path'" using assms by (rule list_all2_lengthD)
  have nth: "EqualFold (path ! i) (path' ! i)" if "i < length path" for i
    using assms that by (rule list_all2_nthD)
  have ne: "path \<noteq> []" "path' \<noteq> []" using False len by auto
  have hd: "ToLower (hd path') = ToLower (hd path)"
    using nth[of 0] ne by (simp add: EqualFold_def hd_conv_nth)
  have str: "lookupStringCI m (path ! 1) = lookupStringCI m (path' ! 1)"
    "lookupAnyCI n (path ! 1) = lookupAnyCI n (path' ! 1)"
    "inputEnvKeyFor (path ! 1) = inputEnvKeyFor (path' ! 1)"
    if "1 < length path" for m n
    using find_ci_fold[OF nth[OF that], of m] find_ci_fold[OF nth[OF that], of n]
      EqualFold_ToUpper[OF nth[OF that]]
    by (simp_all add: lookupStringCI_def lookupAnyCI_def inputEnvKeyFor_def)
  have event: "EqualFold (path ! 1) x \<longleftrightarrow> EqualFold (path' ! 1) x" if "1 < length path" for x
    using nth[OF that] by (simp add: EqualFold_def)
  have rest: "resolveNestedPath x (drop 2 path) = resolveNestedPath x (drop 2 path')" for x
    by (intro resolveNestedPath_fold list_all2_dropI assms)
  have field: "step_field o1 path = Inr v \<longleftrightarrow> step_field o1 path' = Inr v"
    "needs_field o2 path = Inr v \<longleftrightarrow> needs_field o2 path' = Inr v" if "\<not> length path < 3" for o1 o2
  proof -
    have lower: "ToLower (path ! 2) = ToLower (path' ! 2)" using nth[of 2] that by (simp add: EqualFold_def)
    have "lookupStringCI m (path ! 3) = lookupStringCI m (path' ! 3)" if "length path = 4" for m
      using find_ci_fold[OF nth[of 3], of m] that by (simp add: lookupStringCI_def)
    with lower len show "step_field o1 path = Inr v \<longleftrightarrow> step_field o1 path' = Inr v"
      "needs_field o2 path = Inr v \<longleftrightarrow> needs_field o2 path' = Inr v"
      by (auto simp: step_field_def needs_field_def)
  qed
  have github: "(if EqualFold (path ! 1) ''event'' then Inr (resolveNestedPath x (drop 2 path))
        else two_part y path (lookupAnyCI m)) = Inr v \<longleftrightarrow>
      (if EqualFold (path' ! 1) ''event'' then Inr (resolveNestedPath x (drop 2 path'))
        else two_part y path' (lookupAnyCI m)) = Inr v" if "\<not> length path < 2" for x y m
    using that by (simp only: event rest) (intro if_Inr two_part_Inr len str refl; simp)
  have out: "(case find_ci m1 (path ! 1) of None \<Rightarrow> Inr VNil | Some o' \<Rightarrow> step_field o' path) = Inr v \<longleftrightarrow>
      (case find_ci m1 (path' ! 1) of None \<Rightarrow> Inr VNil | Some o' \<Rightarrow> step_field o' path') = Inr v"
    "(case find_ci m2 (path ! 1) of None \<Rightarrow> Inr VNil | Some o' \<Rightarrow> needs_field o' path) = Inr v \<longleftrightarrow>
      (case find_ci m2 (path' ! 1) of None \<Rightarrow> Inr VNil | Some o' \<Rightarrow> needs_field o' path') = Inr v"
    if "\<not> length path < 3" for m1 m2
    using find_ci_fold[OF nth[of 1], of m1] find_ci_fold[OF nth[of 1], of m2] field[OF that] that
    by (simp_all split: option.split)
  show ?thesis
    unfolding resolvePath_def Let_def hd
    by (simp only: ne if_False len[symmetric])
      (intro if_Inr two_part_Inr len github out; simp del: One_nat_def add: str)
qed

definition sample_context :: Context where
  "sample_context = \<lparr>
     ctx_github = [(''event'', VMap [(''inputs'', VMap [(''level'', VStr ''high'')])]), (''ref'', VStr ''main'')],
     ctx_env = [(''CI'', ''true''), (''INPUT_WHO'', ''me'')], ctx_runner = [],
     ctx_steps = [(''build'', \<lparr>so_outcome = ''success'', so_outputs = [(''tag'', ''v1'')]\<rparr>)],
     ctx_needs = [], ctx_matrix = [(''n'', VInt 2)], ctx_vars = [], ctx_secrets = []\<rparr>"

theorem resolvePath_ignores_case_witness:
  "resolvePath sample_context [''GitHub'', ''EVENT'', ''Inputs'', ''LEVEL''] = Inr (VStr ''high'')"
proof -
  have "list_all2 EqualFold [''github'', ''event'', ''inputs'', ''level''] [''GitHub'', ''EVENT'', ''Inputs'', ''LEVEL'']"
    by code_simp
  from resolvePath_ignores_case[OF this, of sample_context] show ?thesis by code_simp
qed

lemma NewContext_env [go_map]:
  assumes "map_wf (wf_env w)" "map_wf (job_env job)"
  shows "mget (ctx_env (NewContext w job)) k =
    (case mget (job_env job) k of Some v \<Rightarrow> Some v | None \<Rightarrow> mget (wf_env w) k)"
  using assms by (simp add: NewContext_def go_map split: option.split)

end
