(* ===== verification/Ghaexpr_Ast.thy ===== *)
theory Ghaexpr_Ast
  imports GoValue
begin

text \<open>
  \<open>third_party/ghaexpr/ast.go\<close> and the token types of \<open>lexer.go\<close>: tokens, expression syntax
  trees and the visitor. A token's position is its byte offset; line and column are left out.
\<close>

datatype TokenKind =
    TokenKindUnknown | TokenKindEnd | TokenKindIdent | TokenKindString | TokenKindInt
  | TokenKindFloat | TokenKindLeftParen | TokenKindRightParen | TokenKindLeftBracket
  | TokenKindRightBracket | TokenKindDot | TokenKindNot | TokenKindLess | TokenKindLessEq
  | TokenKindGreater | TokenKindGreaterEq | TokenKindEq | TokenKindNotEq | TokenKindAnd
  | TokenKindOr | TokenKindStar | TokenKindComma

definition TokenKind_String :: "TokenKind \<Rightarrow> string" where
  "TokenKind_String t = (case t of
     TokenKindUnknown \<Rightarrow> ''UNKNOWN''
   | TokenKindEnd \<Rightarrow> ''END''
   | TokenKindIdent \<Rightarrow> ''IDENT''
   | TokenKindString \<Rightarrow> ''STRING''
   | TokenKindInt \<Rightarrow> ''INTEGER''
   | TokenKindFloat \<Rightarrow> ''FLOAT''
   | TokenKindLeftParen \<Rightarrow> ''(''
   | TokenKindRightParen \<Rightarrow> '')''
   | TokenKindLeftBracket \<Rightarrow> ''[''
   | TokenKindRightBracket \<Rightarrow> '']''
   | TokenKindDot \<Rightarrow> ''.''
   | TokenKindNot \<Rightarrow> ''!''
   | TokenKindLess \<Rightarrow> ''<''
   | TokenKindLessEq \<Rightarrow> ''<=''
   | TokenKindGreater \<Rightarrow> ''>''
   | TokenKindGreaterEq \<Rightarrow> ''>=''
   | TokenKindEq \<Rightarrow> ''==''
   | TokenKindNotEq \<Rightarrow> ''!=''
   | TokenKindAnd \<Rightarrow> ''&&''
   | TokenKindOr \<Rightarrow> ''||''
   | TokenKindStar \<Rightarrow> ''*''
   | TokenKindComma \<Rightarrow> '','')"

record Token =
  tok_kind :: TokenKind
  tok_value :: string
  tok_offset :: nat

datatype CompareOpNodeKind =
    CompareOpNodeKindInvalid | CompareOpNodeKindLess | CompareOpNodeKindLessEq
  | CompareOpNodeKindGreater | CompareOpNodeKindGreaterEq | CompareOpNodeKindEq
  | CompareOpNodeKindNotEq

definition IsEqualityOp :: "CompareOpNodeKind \<Rightarrow> bool" where
  "IsEqualityOp kind \<longleftrightarrow> kind = CompareOpNodeKindEq \<or> kind = CompareOpNodeKindNotEq"

definition CompareOpNodeKind_String :: "CompareOpNodeKind \<Rightarrow> string" where
  "CompareOpNodeKind_String kind = (case kind of
     CompareOpNodeKindLess \<Rightarrow> ''<''
   | CompareOpNodeKindLessEq \<Rightarrow> ''<=''
   | CompareOpNodeKindGreater \<Rightarrow> ''>''
   | CompareOpNodeKindGreaterEq \<Rightarrow> ''>=''
   | CompareOpNodeKindEq \<Rightarrow> ''==''
   | CompareOpNodeKindNotEq \<Rightarrow> ''!=''
   | CompareOpNodeKindInvalid \<Rightarrow> [])"

datatype LogicalOpNodeKind = LogicalOpNodeKindInvalid | LogicalOpNodeKindAnd | LogicalOpNodeKindOr

definition LogicalOpNodeKind_String :: "LogicalOpNodeKind \<Rightarrow> string" where
  "LogicalOpNodeKind_String k = (case k of
     LogicalOpNodeKindAnd \<Rightarrow> ''&&''
   | LogicalOpNodeKindOr \<Rightarrow> ''||''
   | _ \<Rightarrow> ''INVALID LOGICAL OPERATOR'')"

text \<open>The node types; \<open>tok\<close> is the node's first token, where the source stores one.\<close>

datatype ExprNode =
    VariableNode string Token
  | NullNode Token
  | BoolNode bool Token
  | IntNode int Token
  | FloatNode float64 Token
  | StringNode string Token
  | ObjectDerefNode ExprNode string
  | ArrayDerefNode ExprNode
  | IndexAccessNode ExprNode ExprNode
  | NotOpNode ExprNode Token
  | CompareOpNode CompareOpNodeKind ExprNode ExprNode
  | LogicalOpNode LogicalOpNodeKind ExprNode ExprNode
  | FuncCallNode string "ExprNode list" Token

text \<open>The \<open>Token\<close> methods: the first token of a node.\<close>

fun node_Token :: "ExprNode \<Rightarrow> Token" where
  "node_Token (VariableNode _ tok) = tok"
| "node_Token (NullNode tok) = tok"
| "node_Token (BoolNode _ tok) = tok"
| "node_Token (IntNode _ tok) = tok"
| "node_Token (FloatNode _ tok) = tok"
| "node_Token (StringNode _ tok) = tok"
| "node_Token (ObjectDerefNode receiver _) = node_Token receiver"
| "node_Token (ArrayDerefNode receiver) = node_Token receiver"
| "node_Token (IndexAccessNode operand _) = node_Token operand"
| "node_Token (NotOpNode _ tok) = tok"
| "node_Token (CompareOpNode _ left _) = node_Token left"
| "node_Token (LogicalOpNode _ left _) = node_Token left"
| "node_Token (FuncCallNode _ _ tok) = tok"

text \<open>The calls \<open>visitExprNode\<close> makes of its callback: node, parent, entering.\<close>

fun visitExprNode :: "ExprNode \<Rightarrow> ExprNode option \<Rightarrow> (ExprNode \<times> ExprNode option \<times> bool) list" where
  "visitExprNode (ObjectDerefNode receiver pr) p = (let n = ObjectDerefNode receiver pr in
     (n, p, True) # visitExprNode receiver (Some n) @ [(n, p, False)])"
| "visitExprNode (ArrayDerefNode receiver) p = (let n = ArrayDerefNode receiver in
     (n, p, True) # visitExprNode receiver (Some n) @ [(n, p, False)])"
| "visitExprNode (IndexAccessNode operand index) p = (let n = IndexAccessNode operand index in
     (n, p, True) # visitExprNode index (Some n) @ visitExprNode operand (Some n) @ [(n, p, False)])"
| "visitExprNode (NotOpNode operand tok) p = (let n = NotOpNode operand tok in
     (n, p, True) # visitExprNode operand (Some n) @ [(n, p, False)])"
| "visitExprNode (CompareOpNode kind left right) p = (let n = CompareOpNode kind left right in
     (n, p, True) # visitExprNode left (Some n) @ visitExprNode right (Some n) @ [(n, p, False)])"
| "visitExprNode (LogicalOpNode kind left right) p = (let n = LogicalOpNode kind left right in
     (n, p, True) # visitExprNode left (Some n) @ visitExprNode right (Some n) @ [(n, p, False)])"
| "visitExprNode (FuncCallNode callee args tok) p = (let n = FuncCallNode callee args tok in
     (n, p, True) # concat (map (\<lambda>a. visitExprNode a (Some n)) args) @ [(n, p, False)])"
| "visitExprNode n p = [(n, p, True), (n, p, False)]"

definition VisitExprNode :: "ExprNode \<Rightarrow> (ExprNode \<times> ExprNode option \<times> bool) list" where
  "VisitExprNode n = visitExprNode n None"

end
