(* ===== verification/Ghaexpr_Lexer.thy ===== *)
theory Ghaexpr_Lexer
  imports Ghaexpr_Ast
begin

text \<open>
  \<open>third_party/ghaexpr/lexer.go\<close>. The scanner the lexer wraps is a byte position in the source;
  the loops that \<open>eat\<close> while the next character is in a class advance past the longest run of
  it. Sources without NUL bytes, byte-order marks and invalid UTF-8 are covered (on those the
  scanner of the Go library reports an error of its own). Error messages are kept as values.
\<close>

datatype lex_place =
    InExpression | InIntegerPart | InFraction | InExponent | AfterNumber string
  | InHex | AfterHex string | InStringEnd | InEndMarker | InEq | InAnd | InOr

datatype expr_message =
    LexUnexpected "char option" lex_place \<comment> \<open>\<open>None\<close> is EOF\<close>
  | LexUnexpectedEOF
  | ParseUnexpected TokenKind string "TokenKind list"
  | InvalidInt string
  | InvalidFloat string
  | RemainingTokens "TokenKind list"

record ExprError =
  err_message :: expr_message
  err_offset :: nat

record ExprLexer =
  lex_src :: string
  lex_pos :: nat
  lex_start :: nat
  lex_err :: "ExprError option"

definition NewExprLexer :: "string \<Rightarrow> ExprLexer" where
  "NewExprLexer src = \<lparr>lex_src = src, lex_pos = 0, lex_start = 0, lex_err = None\<rparr>"

definition lex_rest :: "ExprLexer \<Rightarrow> string" where
  "lex_rest l = drop (lex_pos l) (lex_src l)"

definition lex_peek :: "ExprLexer \<Rightarrow> char option" where
  "lex_peek l = (case lex_rest l of [] \<Rightarrow> None | c # _ \<Rightarrow> Some c)"

definition lex_adv :: "ExprLexer \<Rightarrow> ExprLexer" where
  "lex_adv l = (if lex_rest l = [] then l else l\<lparr>lex_pos := Suc (lex_pos l)\<rparr>)"

text \<open>Advance while the next character satisfies \<open>P\<close>.\<close>

definition eat_while :: "(char \<Rightarrow> bool) \<Rightarrow> ExprLexer \<Rightarrow> ExprLexer" where
  "eat_while P l = l\<lparr>lex_pos := lex_pos l + length (takeWhile P (lex_rest l))\<rparr>"

definition peek_is :: "(char \<Rightarrow> bool) \<Rightarrow> ExprLexer \<Rightarrow> bool" where
  "peek_is P l = (case lex_peek l of None \<Rightarrow> False | Some c \<Rightarrow> P c)"

definition isWhitespace :: "char \<Rightarrow> bool" where
  "isWhitespace r \<longleftrightarrow> r = CHR '' '' \<or> r = CHR 0x0A \<or> r = CHR 0x0D \<or> r = CHR 0x09"

definition isAlpha :: "char \<Rightarrow> bool" where
  "isAlpha r \<longleftrightarrow> CHR ''a'' \<le> r \<and> r \<le> CHR ''z'' \<or> CHR ''A'' \<le> r \<and> r \<le> CHR ''Z''"

definition isNum :: "char \<Rightarrow> bool" where
  "isNum r \<longleftrightarrow> CHR ''0'' \<le> r \<and> r \<le> CHR ''9''"

definition isHexNum :: "char \<Rightarrow> bool" where
  "isHexNum r \<longleftrightarrow> isNum r \<or> CHR ''a'' \<le> r \<and> r \<le> CHR ''f'' \<or> CHR ''A'' \<le> r \<and> r \<le> CHR ''F''"

definition isAlnum :: "char \<Rightarrow> bool" where
  "isAlnum r \<longleftrightarrow> isAlpha r \<or> isNum r"

definition lex_error :: "expr_message \<Rightarrow> ExprLexer \<Rightarrow> ExprLexer" where
  "lex_error msg l = (if lex_err l = None
     then l\<lparr>lex_err := Some \<lparr>err_message = msg, err_offset = lex_pos l\<rparr>\<rparr> else l)"

definition lex_token :: "TokenKind \<Rightarrow> ExprLexer \<Rightarrow> Token \<times> ExprLexer" where
  "lex_token kind l =
     (\<lparr>tok_kind = kind, tok_value = drop (lex_start l) (take (lex_pos l) (lex_src l)),
       tok_offset = lex_start l\<rparr>, l\<lparr>lex_start := lex_pos l\<rparr>)"

definition lex_eof :: "ExprLexer \<Rightarrow> Token" where
  "lex_eof l = \<lparr>tok_kind = TokenKindEnd, tok_value = [], tok_offset = lex_start l\<rparr>"

definition skipWhite :: "ExprLexer \<Rightarrow> ExprLexer" where
  "skipWhite l = (if peek_is isWhitespace l
     then (let l' = eat_while isWhitespace l in l'\<lparr>lex_start := lex_pos l'\<rparr>) else l)"

definition lex_unexpected :: "lex_place \<Rightarrow> ExprLexer \<Rightarrow> Token \<times> ExprLexer" where
  "lex_unexpected place l = (let l' = lex_error (LexUnexpected (lex_peek l) place) l in (lex_eof l', l'))"

definition unexpectedEOF :: "ExprLexer \<Rightarrow> Token \<times> ExprLexer" where
  "unexpectedEOF l = (let l' = lex_error LexUnexpectedEOF l in (lex_eof l', l'))"

definition lexIdent :: "ExprLexer \<Rightarrow> Token \<times> ExprLexer" where
  "lexIdent l = lex_token TokenKindIdent
     (eat_while (\<lambda>r. isAlnum r \<or> r = CHR ''_'' \<or> r = CHR ''-'') (lex_adv l))"

definition lex_text :: "ExprLexer \<Rightarrow> string" where
  "lex_text l = drop (lex_start l) (take (lex_pos l) (lex_src l))"

definition lexHexInt :: "ExprLexer \<Rightarrow> Token \<times> ExprLexer" where
  "lexHexInt l =
     (if \<not> peek_is isHexNum l then lex_unexpected InHex l
      else let l1 = (if peek_is (\<lambda>r. r = CHR ''0'') l then lex_adv l else eat_while isHexNum (lex_adv l))
           in if peek_is isAlnum l1 then lex_unexpected (AfterHex (lex_text l1)) l1
              else lex_token TokenKindInt l1)"

text \<open>
  \<open>lexNum\<close>, in the stages of the source: sign, integer part, fraction, exponent, and the
  check of the character that follows. Each stage that fails returns the lexer it failed in.
\<close>

definition lexNum_int :: "ExprLexer \<Rightarrow> ExprLexer + ExprLexer" where
  "lexNum_int l = (if peek_is (\<lambda>r. r = CHR ''0'') l then Inr (lex_adv l)
     else if \<not> peek_is isNum l then Inl l
     else Inr (eat_while isNum (lex_adv l)))"

definition lexNum_fraction :: "ExprLexer \<Rightarrow> ExprLexer + (TokenKind \<times> ExprLexer)" where
  "lexNum_fraction l = (if peek_is (\<lambda>r. r = CHR ''.'') l
     then (let l1 = lex_adv l in if \<not> peek_is isNum l1 then Inl l1
           else Inr (TokenKindFloat, eat_while isNum (lex_adv l1)))
     else Inr (TokenKindInt, l))"

definition lexNum_exponent :: "TokenKind \<Rightarrow> ExprLexer \<Rightarrow> ExprLexer + (TokenKind \<times> ExprLexer)" where
  "lexNum_exponent k l = (if peek_is (\<lambda>r. r = CHR ''e'' \<or> r = CHR ''E'') l
     then (let l1 = lex_adv l;
               l2 = (if peek_is (\<lambda>r. r = CHR ''-'') l1 then lex_adv l1 else l1)
           in case lexNum_int l2 of Inl l3 \<Rightarrow> Inl l3 | Inr l3 \<Rightarrow> Inr (TokenKindFloat, l3))
     else Inr (k, l))"

definition lexNum :: "ExprLexer \<Rightarrow> Token \<times> ExprLexer" where
  "lexNum l =
     (let l1 = (if peek_is (\<lambda>r. r = CHR ''-'') l then lex_adv l else l) in
      if peek_is (\<lambda>r. r = CHR ''0'') l1 \<and> peek_is (\<lambda>r. r = CHR ''x'') (lex_adv l1)
      then lexHexInt (lex_adv (lex_adv l1))
      else case lexNum_int l1 of Inl l2 \<Rightarrow> lex_unexpected InIntegerPart l2 | Inr l2 \<Rightarrow>
        (case lexNum_fraction l2 of Inl l3 \<Rightarrow> lex_unexpected InFraction l3 | Inr (k, l3) \<Rightarrow>
          (case lexNum_exponent k l3 of Inl l4 \<Rightarrow> lex_unexpected InExponent l4 | Inr (k', l4) \<Rightarrow>
            if peek_is isAlnum l4 then lex_unexpected (AfterNumber (lex_text l4)) l4
            else lex_token k' l4)))"

text \<open>How many characters after the opening quote \<open>lexString\<close> eats, \<open>None\<close> at EOF.\<close>

fun string_body :: "string \<Rightarrow> nat option" where
  "string_body [] = None"
| "string_body (c # cs) = (if c \<noteq> squote then map_option Suc (string_body cs)
     else case cs of [] \<Rightarrow> Some 1
       | d # ds \<Rightarrow> (if d \<noteq> squote then Some 1 else map_option (\<lambda>n. n + 2) (string_body ds)))"

definition lexString :: "ExprLexer \<Rightarrow> Token \<times> ExprLexer" where
  "lexString l = (let l1 = lex_adv l in case string_body (lex_rest l1) of
     None \<Rightarrow> lex_unexpected InStringEnd (l1\<lparr>lex_pos := length (lex_src l1)\<rparr>)
   | Some n \<Rightarrow> lex_token TokenKindString (l1\<lparr>lex_pos := lex_pos l1 + n\<rparr>))"

text \<open>A token of two characters whose second must be \<open>c\<close>: \<open>lexEnd\<close>, \<open>lexEq\<close>, \<open>lexAnd\<close>, \<open>lexOr\<close>.\<close>

definition lex_second :: "char \<Rightarrow> TokenKind \<Rightarrow> lex_place \<Rightarrow> ExprLexer \<Rightarrow> Token \<times> ExprLexer" where
  "lex_second c k place l = (let l1 = lex_adv l in
     if peek_is (\<lambda>r. r = c) l1 then lex_token k (lex_adv l1) else lex_unexpected place l1)"

definition lexEnd :: "ExprLexer \<Rightarrow> Token \<times> ExprLexer" where
  "lexEnd = lex_second (CHR ''}'') TokenKindEnd InEndMarker"

definition lexEq :: "ExprLexer \<Rightarrow> Token \<times> ExprLexer" where
  "lexEq = lex_second (CHR ''='') TokenKindEq InEq"

definition lexAnd :: "ExprLexer \<Rightarrow> Token \<times> ExprLexer" where
  "lexAnd = lex_second (CHR ''&'') TokenKindAnd InAnd"

definition lexOr :: "ExprLexer \<Rightarrow> Token \<times> ExprLexer" where
  "lexOr = lex_second (CHR ''|'') TokenKindOr InOr"

text \<open>A token of one character, or of two when the second is \<open>=\<close>: \<open>lexLess\<close>, \<open>lexGreater\<close>, \<open>lexBang\<close>.\<close>

definition lex_opt_eq :: "TokenKind \<Rightarrow> TokenKind \<Rightarrow> ExprLexer \<Rightarrow> Token \<times> ExprLexer" where
  "lex_opt_eq k k_eq l = (let l1 = lex_adv l in
     if peek_is (\<lambda>r. r = CHR ''='') l1 then lex_token k_eq (lex_adv l1) else lex_token k l1)"

definition lexLess :: "ExprLexer \<Rightarrow> Token \<times> ExprLexer" where
  "lexLess = lex_opt_eq TokenKindLess TokenKindLessEq"

definition lexGreater :: "ExprLexer \<Rightarrow> Token \<times> ExprLexer" where
  "lexGreater = lex_opt_eq TokenKindGreater TokenKindGreaterEq"

definition lexBang :: "ExprLexer \<Rightarrow> Token \<times> ExprLexer" where
  "lexBang = lex_opt_eq TokenKindNot TokenKindNotEq"

definition lexChar :: "TokenKind \<Rightarrow> ExprLexer \<Rightarrow> Token \<times> ExprLexer" where
  "lexChar k l = lex_token k (lex_adv l)"

definition lex_Next :: "ExprLexer \<Rightarrow> Token \<times> ExprLexer" where
  "lex_Next l0 = (let l = skipWhite l0 in case lex_peek l of
     None \<Rightarrow> unexpectedEOF l
   | Some r \<Rightarrow>
      (if isAlpha r \<or> r = CHR ''_'' then lexIdent l
       else if isNum r \<or> r = CHR ''-'' then lexNum l
       else if r = squote then lexString l
       else if r = CHR ''}'' then lexEnd l
       else if r = CHR ''!'' then lexBang l
       else if r = CHR ''<'' then lexLess l
       else if r = CHR ''>'' then lexGreater l
       else if r = CHR ''='' then lexEq l
       else if r = CHR ''&'' then lexAnd l
       else if r = CHR ''|'' then lexOr l
       else if r = CHR ''('' then lexChar TokenKindLeftParen l
       else if r = CHR '')'' then lexChar TokenKindRightParen l
       else if r = CHR ''['' then lexChar TokenKindLeftBracket l
       else if r = CHR '']'' then lexChar TokenKindRightBracket l
       else if r = CHR ''.'' then lexChar TokenKindDot l
       else if r = CHR ''*'' then lexChar TokenKindStar l
       else if r = CHR '','' then lexChar TokenKindComma l
       else lex_unexpected InExpression l))"

subsection \<open>Progress\<close>

definition lex_ok :: "ExprLexer \<Rightarrow> bool" where
  "lex_ok l \<longleftrightarrow> lex_pos l \<le> length (lex_src l)"

text \<open>What moving the scanner inside one token keeps.\<close>

definition moves :: "ExprLexer \<Rightarrow> ExprLexer \<Rightarrow> bool" where
  "moves l l' \<longleftrightarrow> lex_src l' = lex_src l \<and> lex_start l' = lex_start l \<and> lex_err l' = lex_err l \<and>
     lex_pos l \<le> lex_pos l' \<and> lex_pos l' \<le> length (lex_src l)"

definition moves_on :: "ExprLexer \<Rightarrow> ExprLexer \<Rightarrow> bool" where
  "moves_on l l' \<longleftrightarrow> moves l l' \<and> lex_pos l < lex_pos l'"

named_theorems lex_moves \<open>how the parts of the lexer move the scanner\<close>

lemma moves_refl [lex_moves]: "lex_ok l \<Longrightarrow> moves l l"
  by (simp add: moves_def lex_ok_def)

lemma moves_on_moves: "moves_on l l' \<Longrightarrow> moves l l'"
  by (simp add: moves_on_def)

lemma moves_trans: "moves a b \<Longrightarrow> moves b c \<Longrightarrow> moves a c"
  by (auto simp: moves_def)

lemma moves_on_trans:
  "moves_on a b \<Longrightarrow> moves b c \<Longrightarrow> moves_on a c"
  "moves a b \<Longrightarrow> moves_on b c \<Longrightarrow> moves_on a c"
  by (auto simp: moves_on_def moves_def)

lemma moves_ok: "lex_ok l \<Longrightarrow> moves l l' \<Longrightarrow> lex_ok l'"
  by (auto simp: moves_def lex_ok_def)

lemma peek_is_rest: "peek_is P l \<Longrightarrow> lex_rest l \<noteq> []"
  by (auto simp: peek_is_def lex_peek_def split: list.splits)

lemma moves_adv [lex_moves]: "lex_ok l \<Longrightarrow> moves l (lex_adv l)"
  by (auto simp: lex_adv_def lex_rest_def moves_def lex_ok_def)

lemma moves_on_adv [lex_moves]: "lex_ok l \<Longrightarrow> lex_rest l \<noteq> [] \<Longrightarrow> moves_on l (lex_adv l)"
  by (auto simp: lex_adv_def lex_rest_def moves_on_def moves_def lex_ok_def)

lemma moves_eat_while [lex_moves]: "lex_ok l \<Longrightarrow> moves l (eat_while P l)"
  using length_takeWhile_le[of P "lex_rest l"]
  by (auto simp: eat_while_def lex_rest_def moves_def lex_ok_def)

lemma moves_adv_eat [lex_moves]:
  "lex_ok l \<Longrightarrow> lex_rest l \<noteq> [] \<Longrightarrow> moves_on l (eat_while P (lex_adv l))"
  using moves_on_trans(1)[OF moves_on_adv moves_eat_while] moves_ok moves_adv by blast

lemma moves_adv2: "lex_ok l \<Longrightarrow> moves l (lex_adv (lex_adv l))"
  using moves_trans moves_adv moves_ok by blast

text \<open>What one call that returns a token does.\<close>

definition lex_step :: "ExprLexer \<Rightarrow> Token \<times> ExprLexer \<Rightarrow> bool" where
  "lex_step l r \<longleftrightarrow> (case r of (t, l') \<Rightarrow>
     lex_src l' = lex_src l \<and> lex_pos l \<le> lex_pos l' \<and> lex_ok l' \<and>
     (lex_err l' \<noteq> None \<and> tok_kind t = TokenKindEnd \<or>
      lex_err l' = lex_err l \<and> lex_start l' = lex_pos l' \<and> lex_pos l < lex_pos l' \<and>
      tok_offset t = lex_start l \<and>
      tok_value t = drop (lex_start l) (take (lex_pos l') (lex_src l))))"

lemma lex_step_token [lex_moves]: "moves_on l l' \<Longrightarrow> lex_ok l \<Longrightarrow> lex_step l (lex_token k l')"
  by (auto simp: lex_step_def lex_token_def moves_on_def moves_def lex_ok_def)

lemma lex_step_unexpected [lex_moves]: "moves l l' \<Longrightarrow> lex_ok l \<Longrightarrow> lex_step l (lex_unexpected w l')"
  by (auto simp: lex_step_def lex_unexpected_def lex_error_def lex_eof_def moves_def lex_ok_def Let_def)

lemma lex_step_eof [lex_moves]: "lex_ok l \<Longrightarrow> lex_step l (unexpectedEOF l)"
  by (auto simp: lex_step_def unexpectedEOF_def lex_error_def lex_eof_def lex_ok_def Let_def)

lemma lex_step_ident: "lex_ok l \<Longrightarrow> lex_rest l \<noteq> [] \<Longrightarrow> lex_step l (lexIdent l)"
  unfolding lexIdent_def by (intro lex_moves)

lemma lex_step_hex:
  assumes "lex_ok l" "moves l m"
  shows "lex_step l (lexHexInt m)"
proof -
  have ok: "lex_ok m" using assms moves_ok by blast
  have "lex_step l (lex_unexpected w m')" if "moves m m'" for w m'
    using assms that moves_trans lex_step_unexpected by blast
  moreover have "lex_step l (lex_token k m')" if "moves_on m m'" for k m'
    using assms that moves_on_trans(2) lex_step_token by blast
  moreover have "moves_on m (lex_adv m)" "moves_on m (eat_while isHexNum (lex_adv m))"
    if "peek_is isHexNum m"
    using that ok peek_is_rest lex_moves by blast+
  ultimately show ?thesis
    using ok moves_refl moves_on_moves unfolding lexHexInt_def Let_def by (auto split: if_split)
qed

lemma moves_lexNum_int:
  assumes "lex_ok l"
  shows "lexNum_int l = Inl l' \<Longrightarrow> moves l l'" "lexNum_int l = Inr l' \<Longrightarrow> moves_on l l'"
  using assms unfolding lexNum_int_def
  by (auto intro!: lex_moves dest: peek_is_rest split: if_splits)

lemma moves_lexNum_fraction:
  assumes "lex_ok l"
  shows "lexNum_fraction l = Inl l' \<Longrightarrow> moves l l'" "lexNum_fraction l = Inr (k, l') \<Longrightarrow> moves l l'"
proof -
  have ok: "lex_ok (lex_adv l)" using assms moves_ok moves_adv by blast
  have "moves l (lex_adv l)" "moves (lex_adv l) (eat_while isNum (lex_adv (lex_adv l)))"
    using assms ok moves_adv moves_ok moves_eat_while moves_trans by blast+
  then have "moves l (eat_while isNum (lex_adv (lex_adv l)))" by (rule moves_trans)
  then show "lexNum_fraction l = Inl l' \<Longrightarrow> moves l l'" "lexNum_fraction l = Inr (k, l') \<Longrightarrow> moves l l'"
    using assms moves_adv moves_refl unfolding lexNum_fraction_def Let_def by (auto split: if_splits)
qed

lemma moves_lexNum_exponent:
  assumes "lex_ok l"
  shows "lexNum_exponent k l = Inl l' \<Longrightarrow> moves l l'"
    "lexNum_exponent k l = Inr (k', l') \<Longrightarrow> moves l l'"
proof -
  let ?m = "if peek_is (\<lambda>r. r = CHR ''-'') (lex_adv l) then lex_adv (lex_adv l) else lex_adv l"
  have m: "moves l ?m" using moves_adv2[OF assms] moves_adv[OF assms] by (simp split: if_split)
  then have "lex_ok ?m" using assms moves_ok by blast
  then have "moves ?m n" if "lexNum_int ?m = Inl n \<or> lexNum_int ?m = Inr n" for n
    using that moves_lexNum_int moves_on_moves by blast
  then have "moves l n" if "lexNum_int ?m = Inl n \<or> lexNum_int ?m = Inr n" for n
    using that m moves_trans by blast
  then show "lexNum_exponent k l = Inl l' \<Longrightarrow> moves l l'"
    "lexNum_exponent k l = Inr (k', l') \<Longrightarrow> moves l l'"
    using assms moves_refl unfolding lexNum_exponent_def Let_def by (auto split: if_splits sum.splits)
qed

lemma lex_step_num:
  assumes "lex_ok l"
  shows "lex_step l (lexNum l)"
proof -
  define m where "m = (if peek_is (\<lambda>r. r = CHR ''-'') l then lex_adv l else l)"
  have m: "moves l m" unfolding m_def using assms by (auto intro: lex_moves)
  then have ok: "lex_ok m" using assms moves_ok by blast
  have "moves m (lex_adv (lex_adv m))" using ok moves_adv moves_ok moves_trans by blast
  then have hex: "lex_step l (lexHexInt (lex_adv (lex_adv m)))"
    using m assms moves_trans lex_step_hex by blast
  have int: "moves l a" if "lexNum_int m = Inl a" for a
    using that ok m moves_lexNum_int moves_trans by blast
  have on: "moves_on l a" if "lexNum_int m = Inr a" for a
    using that ok m moves_lexNum_int moves_on_trans by blast
  have frac: "moves l b" if "lexNum_int m = Inr a" "lexNum_fraction a = Inl b" for a b
    using that on assms moves_ok moves_on_moves moves_lexNum_fraction(1) moves_trans by blast
  have frac': "moves_on l b" if "lexNum_int m = Inr a" "lexNum_fraction a = Inr (k, b)" for a b k
    using that on assms moves_ok moves_on_moves moves_lexNum_fraction(2) moves_on_trans by blast
  have ex: "moves l c"
    if "lexNum_int m = Inr a" "lexNum_fraction a = Inr (k, b)" "lexNum_exponent k b = Inl c" for a b c k
    using that frac' assms moves_ok moves_on_moves moves_lexNum_exponent(1) moves_trans by blast
  have ex': "moves_on l c"
    if "lexNum_int m = Inr a" "lexNum_fraction a = Inr (k, b)" "lexNum_exponent k b = Inr (k', c)"
    for a b c k k'
    using that frac' assms moves_ok moves_on_moves moves_lexNum_exponent(2) moves_on_trans by blast
  show ?thesis
  proof (cases "peek_is (\<lambda>r. r = CHR ''0'') m \<and> peek_is (\<lambda>r. r = CHR ''x'') (lex_adv m)")
    case True
    with hex show ?thesis by (simp add: lexNum_def Let_def flip: m_def)
  next
    case False
    then have "lexNum l = (case lexNum_int m of Inl l2 \<Rightarrow> lex_unexpected InIntegerPart l2 | Inr l2 \<Rightarrow>
        (case lexNum_fraction l2 of Inl l3 \<Rightarrow> lex_unexpected InFraction l3 | Inr (k, l3) \<Rightarrow>
          (case lexNum_exponent k l3 of Inl l4 \<Rightarrow> lex_unexpected InExponent l4 | Inr (k', l4) \<Rightarrow>
            if peek_is isAlnum l4 then lex_unexpected (AfterNumber (lex_text l4)) l4
            else lex_token k' l4)))"
      by (simp only: lexNum_def Let_def m_def[symmetric] if_False)
    then show ?thesis
      using assms lex_step_unexpected[OF int] lex_step_unexpected[OF frac] lex_step_unexpected[OF ex]
        lex_step_unexpected[OF moves_on_moves[OF ex']] lex_step_token[OF ex']
      by (simp split: sum.split prod.split if_split)
  qed
qed

lemma string_body_le: "string_body s = Some n \<Longrightarrow> 0 < n \<and> n \<le> length s"
  by (induction s arbitrary: n rule: string_body.induct)
    (fastforce split: if_splits list.splits)+

lemma lex_step_string:
  assumes "lex_ok l" "lex_rest l \<noteq> []"
  shows "lex_step l (lexString l)"
proof -
  let ?m = "lex_adv l"
  have m: "moves_on l ?m" using assms moves_on_adv by blast
  then have ok: "lex_ok ?m" using assms moves_ok moves_on_moves by blast
  have "moves_on l (?m\<lparr>lex_pos := lex_pos ?m + n\<rparr>)" if "string_body (lex_rest ?m) = Some n" for n
    using string_body_le[OF that] m ok by (auto simp: moves_on_def moves_def lex_rest_def lex_ok_def)
  moreover have "moves l (?m\<lparr>lex_pos := length (lex_src ?m)\<rparr>)"
    using m by (auto simp: moves_on_def moves_def)
  ultimately show ?thesis using assms
    by (auto simp: lexString_def Let_def intro!: lex_moves split: option.split)
qed

lemma moves_on_adv2:
  "lex_ok l \<Longrightarrow> lex_rest l \<noteq> [] \<Longrightarrow> moves_on l (lex_adv (lex_adv l))"
  using moves_on_trans(1) moves_on_adv moves_adv moves_ok moves_on_moves by meson

lemma lex_step_second: "lex_ok l \<Longrightarrow> lex_rest l \<noteq> [] \<Longrightarrow> lex_step l (lex_second c k w l)"
  using moves_on_adv2 by (auto simp: lex_second_def Let_def intro!: lex_moves)

lemma lex_step_opt_eq: "lex_ok l \<Longrightarrow> lex_rest l \<noteq> [] \<Longrightarrow> lex_step l (lex_opt_eq k k' l)"
  using moves_on_adv2 by (auto simp: lex_opt_eq_def Let_def intro!: lex_moves)

lemma lex_step_char: "lex_ok l \<Longrightarrow> lex_rest l \<noteq> [] \<Longrightarrow> lex_step l (lexChar k l)"
  by (auto simp: lexChar_def intro!: lex_moves)

lemmas lex_steps = lex_step_ident lex_step_num lex_step_string lex_step_second lex_step_opt_eq
  lex_step_char lex_step_eof lex_step_unexpected[OF moves_refl]

lemma skipWhite_moves:
  assumes "lex_ok l"
  shows "lex_ok (skipWhite l)" "lex_src (skipWhite l) = lex_src l" "lex_err (skipWhite l) = lex_err l"
    "lex_pos l \<le> lex_pos (skipWhite l)"
    "lex_pos l = lex_start l \<Longrightarrow> lex_start (skipWhite l) = lex_pos (skipWhite l) \<and>
       list_all isWhitespace (drop (lex_pos l) (take (lex_pos (skipWhite l)) (lex_src l)))"
proof -
  let ?m = "eat_while isWhitespace l"
  have m: "moves l ?m" using assms by (rule moves_eat_while)
  have take_w: "drop (lex_pos l) (take (lex_pos ?m) (lex_src l)) = takeWhile isWhitespace (lex_rest l)"
  proof -
    have "drop (lex_pos l) (take (lex_pos ?m) (lex_src l)) =
      take (length (takeWhile isWhitespace (lex_rest l))) (lex_rest l)"
      by (simp add: eat_while_def lex_rest_def drop_take)
    then show ?thesis by (simp add: takeWhile_eq_take[symmetric])
  qed
  show "lex_ok (skipWhite l)" "lex_src (skipWhite l) = lex_src l" "lex_err (skipWhite l) = lex_err l"
    "lex_pos l \<le> lex_pos (skipWhite l)"
    using m assms by (auto simp: skipWhite_def Let_def moves_def lex_ok_def)
  show "lex_start (skipWhite l) = lex_pos (skipWhite l) \<and>
       list_all isWhitespace (drop (lex_pos l) (take (lex_pos (skipWhite l)) (lex_src l)))"
    if "lex_pos l = lex_start l"
    using that take_w by (auto simp: skipWhite_def Let_def list_all_iff dest: set_takeWhileD)
qed

lemma lex_step_Next:
  assumes "lex_ok l"
  shows "lex_step (skipWhite l) (lex_Next l)"
proof (cases "lex_peek (skipWhite l)")
  case None
  then show ?thesis
    using skipWhite_moves(1)[OF assms] by (simp add: lex_Next_def Let_def lex_steps)
next
  case (Some r)
  then have "lex_rest (skipWhite l) \<noteq> []" by (auto simp: lex_peek_def)
  with Some skipWhite_moves(1)[OF assms] show ?thesis
    by (simp add: lex_Next_def Let_def lex_steps lexEnd_def lexEq_def lexAnd_def lexOr_def lexLess_def
        lexGreater_def lexBang_def)
qed

text \<open>The input a lexer has left, which every token but the end marker shortens.\<close>

definition lex_left :: "ExprLexer \<Rightarrow> nat" where
  "lex_left l = length (lex_src l) - lex_pos l"

lemma lex_Next_left:
  assumes "lex_ok l" "lex_Next l = (t, l')"
  shows "lex_ok l'" "lex_src l' = lex_src l" "lex_left l' \<le> lex_left l"
    "tok_kind t \<noteq> TokenKindEnd \<Longrightarrow> lex_left l' < lex_left l \<and> lex_err l' = lex_err l"
    "lex_err l' = None \<Longrightarrow> lex_left l' < lex_left l"
  using lex_step_Next[OF assms(1)] skipWhite_moves(1-4)[OF assms(1)] assms(2)
  by (auto simp: lex_step_def lex_left_def lex_ok_def)

lemma lex_Next_past_end:
  assumes "\<not> lex_ok l" "lex_Next l = (t, l')"
  shows "lex_err l' \<noteq> None" "tok_kind t = TokenKindEnd" "lex_pos l' = lex_pos l" "lex_src l' = lex_src l"
proof -
  from assms(1) have "lex_rest l = []" by (simp add: lex_ok_def lex_rest_def)
  with assms(2) show "lex_err l' \<noteq> None" "tok_kind t = TokenKindEnd" "lex_pos l' = lex_pos l"
    "lex_src l' = lex_src l"
    by (auto simp: lex_Next_def skipWhite_def peek_is_def lex_peek_def unexpectedEOF_def lex_error_def
        lex_eof_def Let_def)
qed

lemma lex_Next_less:
  assumes "lex_Next l = (t, l')"
  shows "tok_kind t \<noteq> TokenKindEnd \<longrightarrow> lex_left l' < lex_left l" "lex_left l' \<le> lex_left l"
    "lex_src l' = lex_src l"
proof -
  have "(tok_kind t \<noteq> TokenKindEnd \<longrightarrow> lex_left l' < lex_left l) \<and> lex_left l' \<le> lex_left l \<and>
    lex_src l' = lex_src l"
  proof (cases "lex_ok l")
    case True
    note n = lex_Next_left[OF this assms]
    show ?thesis using n(2-4) by blast
  next
    case False
    note n = lex_Next_past_end[OF this assms]
    show ?thesis using n(2-4) by (simp add: lex_left_def)
  qed
  then show "tok_kind t \<noteq> TokenKindEnd \<longrightarrow> lex_left l' < lex_left l" "lex_left l' \<le> lex_left l"
    "lex_src l' = lex_src l"
    by blast+
qed

text \<open>\<open>LexExpression\<close>: all tokens up to the end marker and the offset after it, or an error.\<close>

function lex_all :: "ExprLexer \<Rightarrow> Token list \<Rightarrow> ExprError + Token list \<times> nat" where
  "lex_all l ts = (case lex_Next l of (t, l') \<Rightarrow>
     (case lex_err l' of Some e \<Rightarrow> Inl e
      | None \<Rightarrow> (if tok_kind t = TokenKindEnd then Inr (ts @ [t], lex_pos l')
                else lex_all l' (ts @ [t]))))"
  by pat_completeness auto
termination
  by (relation "measure (\<lambda>(l, ts). lex_left l)") (auto dest: sym intro: lex_Next_less(1)[rule_format])

declare lex_all.simps [simp del]

definition LexExpression :: "string \<Rightarrow> ExprError + Token list \<times> nat" where
  "LexExpression src = lex_all (NewExprLexer src) []"

text \<open>The text a token list stands for, with white space \<open>ws ! i\<close> before token \<open>i\<close>.\<close>

fun spaced :: "string list \<Rightarrow> Token list \<Rightarrow> string" where
  "spaced (w # ws) (t # ts) = w @ tok_value t @ spaced ws ts"
| "spaced _ _ = []"

lemma spaced_snoc:
  "length ws = length ts \<Longrightarrow> spaced (ws @ [w]) (ts @ [t]) = spaced ws ts @ w @ tok_value t"
  by (induction ws ts rule: list_induct2) auto

lemma lex_all_source:
  assumes "lex_all l ts = Inr (ts', off)" "lex_ok l" "lex_start l = lex_pos l"
    "length ws = length ts" "\<forall>w \<in> set ws. list_all isWhitespace w"
    "take (lex_pos l) (lex_src l) = spaced ws ts"
  shows "\<exists>ws'. length ws' = length ts' \<and> (\<forall>w \<in> set ws'. list_all isWhitespace w) \<and>
    take off (lex_src l) = spaced ws' ts'"
  using assms
proof (induction l ts arbitrary: ws rule: lex_all.induct)
  case (1 l ts)
  obtain t l' where n: "lex_Next l = (t, l')" by (cases "lex_Next l")
  let ?m = "skipWhite l"
  note m = skipWhite_moves[OF 1(3)]
  from 1(2) n have e: "lex_err l' = None"
    by (simp add: lex_all.simps[of l ts] split: option.splits)
  from lex_step_Next[OF 1(3)] n e have s: "lex_src l' = lex_src l" "lex_ok l'" "lex_start l' = lex_pos l'"
    "lex_pos ?m < lex_pos l'" "tok_value t = drop (lex_start ?m) (take (lex_pos l') (lex_src l))"
    by (simp_all add: lex_step_def m)
  let ?w = "drop (lex_pos l) (take (lex_pos ?m) (lex_src l))"
  have ms: "lex_start ?m = lex_pos ?m" "list_all isWhitespace ?w" using m(5) 1(4) by simp_all
  have split: "take b xs = take a xs @ drop a (take b xs)" if "a \<le> b" for a b and xs :: string
    using that by (metis append_take_drop_id min.absorb1 take_take)
  have tk: "take (lex_pos l') (lex_src l) = spaced (ws @ [?w]) (ts @ [t])"
  proof -
    have "take (lex_pos l') (lex_src l) = take (lex_pos ?m) (lex_src l) @ tok_value t"
      using split[of "lex_pos ?m" "lex_pos l'" "lex_src l"] s(4) unfolding s(5) ms(1) by simp
    also have "take (lex_pos ?m) (lex_src l) = spaced ws ts @ ?w"
      using split[OF m(4), of "lex_src l"] unfolding 1(7) .
    finally show ?thesis by (simp add: spaced_snoc 1(5))
  qed
  have ln: "length (ws @ [?w]) = length (ts @ [t])" using 1(5) by simp
  have sp: "\<forall>w \<in> set (ws @ [?w]). list_all isWhitespace w" using 1(6) ms(2) by auto
  show ?case
  proof (cases "tok_kind t = TokenKindEnd")
    case True
    with 1(2) n e have "ts' = ts @ [t]" "off = lex_pos l'" by (simp_all add: lex_all.simps[of l ts])
    with tk ln sp show ?thesis by metis
  next
    case False
    with 1(2) n e have r: "lex_all l' (ts @ [t]) = Inr (ts', off)" by (simp add: lex_all.simps[of l ts])
    from 1(1)[OF n[symmetric] e False r s(2,3), of "ws @ [?w]"] s(1) tk ln sp
    show ?thesis by simp
  qed
qed

text \<open>C23: lexing loses nothing: the source up to the reported offset is exactly the tokens' texts
  with white space before each.\<close>

theorem lex_expression_source:
  assumes "LexExpression src = Inr (ts, off)"
  shows "\<exists>ws. length ws = length ts \<and> (\<forall>w \<in> set ws. list_all isWhitespace w) \<and>
    take off src = spaced ws ts"
  using lex_all_source[OF assms[unfolded LexExpression_def], of "[]"]
  by (simp add: NewExprLexer_def lex_ok_def)

theorem lex_expression_source_witness:
  "\<exists>ws. length ws = 4 \<and> (\<forall>w \<in> set ws. list_all isWhitespace w) \<and>
    ''github.ref }}'' = spaced ws
      [\<lparr>tok_kind = TokenKindIdent, tok_value = ''github'', tok_offset = 0\<rparr>,
       \<lparr>tok_kind = TokenKindDot, tok_value = ''.'', tok_offset = 6\<rparr>,
       \<lparr>tok_kind = TokenKindIdent, tok_value = ''ref'', tok_offset = 7\<rparr>,
       \<lparr>tok_kind = TokenKindEnd, tok_value = ''}}'', tok_offset = 11\<rparr>]"
proof -
  have "LexExpression ''github.ref }} rest'' = Inr
      ([\<lparr>tok_kind = TokenKindIdent, tok_value = ''github'', tok_offset = 0\<rparr>,
       \<lparr>tok_kind = TokenKindDot, tok_value = ''.'', tok_offset = 6\<rparr>,
       \<lparr>tok_kind = TokenKindIdent, tok_value = ''ref'', tok_offset = 7\<rparr>,
       \<lparr>tok_kind = TokenKindEnd, tok_value = ''}}'', tok_offset = 11\<rparr>], 13)"
    by code_simp
  from lex_expression_source[OF this] show ?thesis by (simp add: numeral_eq_Suc)
qed

end
