(* ===== verification/Ghaexpr_Parser.thy ===== *)
theory Ghaexpr_Parser
  imports Ghaexpr_Lexer
begin

text \<open>
  \<open>third_party/ghaexpr/parser.go\<close>: the recursive-descent parser. A parse function returns the
  node, or \<open>None\<close> for Go's \<open>nil\<close>, and the parser it leaves. All of them terminate: every token
  consumed shortens the remaining input, and the calls that consume nothing descend in the
  grammar.
\<close>

record ExprParser =
  p_cur :: Token
  p_lexer :: ExprLexer
  p_err :: "ExprError option"

abbreviation p_kind :: "ExprParser \<Rightarrow> TokenKind" where
  "p_kind p \<equiv> tok_kind (p_cur p)"

definition errorAtToken :: "Token \<Rightarrow> expr_message \<Rightarrow> ExprError" where
  "errorAtToken t msg = \<lparr>err_message = msg, err_offset = tok_offset t\<rparr>"

definition p_error :: "expr_message \<Rightarrow> ExprParser \<Rightarrow> ExprParser" where
  "p_error msg p = (if p_err p = None then p\<lparr>p_err := Some (errorAtToken (p_cur p) msg)\<rparr> else p)"

definition p_unexpected :: "string \<Rightarrow> TokenKind list \<Rightarrow> ExprParser \<Rightarrow> ExprParser" where
  "p_unexpected place expected p = p_error (ParseUnexpected (p_kind p) place expected) p"

text \<open>\<open>next\<close>: the state after it; the token it returns is \<open>p_cur\<close> of the state before.\<close>

definition p_next :: "ExprParser \<Rightarrow> ExprParser" where
  "p_next p = (case lex_Next (p_lexer p) of (t, l) \<Rightarrow> p\<lparr>p_cur := t, p_lexer := l\<rparr>)"

text \<open>\<open>strconv.ParseInt(s, 0, 32)\<close> on the integers the lexer lets through.\<close>

definition hex_val :: "char \<Rightarrow> int" where
  "hex_val c = (if is_digit c then digit_val c else of_char (lower_char c) - 87)"

fun hex_digits_val :: "string \<Rightarrow> int \<Rightarrow> int" where
  "hex_digits_val [] acc = acc"
| "hex_digits_val (c # cs) acc = hex_digits_val cs (16 * acc + hex_val c)"

definition parse_int32 :: "string \<Rightarrow> int option" where
  "parse_int32 s =
     (let neg = HasPrefix s ''-''; ds = (if neg then tl s else s);
          n = (if HasPrefix ds ''0x'' then hex_digits_val (drop 2 ds) 0 else digits_val ds 0);
          v = (if neg then - n else n)
      in if - (2 ^ 31) \<le> v \<and> v < 2 ^ 31 then Some v else None)"

definition parseInt :: "ExprParser \<Rightarrow> ExprNode option \<times> ExprParser" where
  "parseInt p = (let t = p_cur p in case parse_int32 (tok_value t) of
     None \<Rightarrow> (None, p_error (InvalidInt (tok_value t)) p)
   | Some i \<Rightarrow> (Some (IntNode i t), p_next p))"

definition parseFloat :: "ExprParser \<Rightarrow> ExprNode option \<times> ExprParser" where
  "parseFloat p = (let t = p_cur p in case parse_float (tok_value t) of
     None \<Rightarrow> (None, p_error (InvalidFloat (tok_value t)) p)
   | Some f \<Rightarrow> (Some (FloatNode f t), p_next p))"

text \<open>Strip the quotes at both ends and unescape doubled quotes.\<close>

definition unquote :: "string \<Rightarrow> string" where
  "unquote s = str_replace (butlast (tl s)) [squote, squote] [squote]"

definition parseString :: "ExprParser \<Rightarrow> ExprNode option \<times> ExprParser" where
  "parseString p = (let t = p_cur p in (Some (StringNode (unquote (tok_value t)) t), p_next p))"

text \<open>The part of \<open>parseIdent\<close> after an identifier that calls nothing: keywords and variables.\<close>

definition keyword_or_variable :: "Token \<Rightarrow> ExprNode" where
  "keyword_or_variable ident =
     (if tok_value ident = ''null'' then NullNode ident
      else if tok_value ident = ''true'' then BoolNode True ident
      else if tok_value ident = ''false'' then BoolNode False ident
      else VariableNode (ToLower (tok_value ident)) ident)"

text \<open>A call, with the early \<open>return nil\<close> of its caller when it returns \<open>nil\<close>.\<close>

definition p_bind :: "'a option \<times> ExprParser \<Rightarrow> ('a \<Rightarrow> ExprParser \<Rightarrow> 'b option \<times> ExprParser)
    \<Rightarrow> 'b option \<times> ExprParser" where
  "p_bind r f = (case r of (None, p) \<Rightarrow> (None, p) | (Some x, p) \<Rightarrow> f x p)"

lemma p_bind_cong [fundef_cong]:
  "r = r' \<Longrightarrow> (\<And>x p. r' = (Some x, p) \<Longrightarrow> f x p = g x p) \<Longrightarrow> p_bind r f = p_bind r' g"
  by (cases r') (auto simp: p_bind_def split: option.split)

lemma p_bind_eq:
  "p_bind r f = (y, q) \<longleftrightarrow> (r = (None, q) \<and> y = None) \<or> (\<exists>x p. r = (Some x, p) \<and> f x p = (y, q))"
  by (cases r) (auto simp: p_bind_def split: option.split)

definition compare_kind :: "TokenKind \<Rightarrow> CompareOpNodeKind option" where
  "compare_kind k =
     (if k = TokenKindLess then Some CompareOpNodeKindLess
      else if k = TokenKindLessEq then Some CompareOpNodeKindLessEq
      else if k = TokenKindGreater then Some CompareOpNodeKindGreater
      else if k = TokenKindGreaterEq then Some CompareOpNodeKindGreaterEq
      else if k = TokenKindEq then Some CompareOpNodeKindEq
      else if k = TokenKindNotEq then Some CompareOpNodeKindNotEq
      else None)"

function parseLogicalOr :: "ExprParser \<Rightarrow> ExprNode option \<times> ExprParser"
  and parseLogicalAnd :: "ExprParser \<Rightarrow> ExprNode option \<times> ExprParser"
  and parseCompareBinOp :: "ExprParser \<Rightarrow> ExprNode option \<times> ExprParser"
  and parsePrefixOp :: "ExprParser \<Rightarrow> ExprNode option \<times> ExprParser"
  and parsePostfixOp :: "ExprParser \<Rightarrow> ExprNode option \<times> ExprParser"
  and postfix_loop :: "ExprNode \<Rightarrow> ExprParser \<Rightarrow> ExprNode option \<times> ExprParser"
  and parsePrimaryExpr :: "ExprParser \<Rightarrow> ExprNode option \<times> ExprParser"
  and parseIdent :: "ExprParser \<Rightarrow> ExprNode option \<times> ExprParser"
  and loop_args :: "ExprNode list \<Rightarrow> ExprParser \<Rightarrow> ExprNode list option \<times> ExprParser"
  and parseNestedExpr :: "ExprParser \<Rightarrow> ExprNode option \<times> ExprParser" where
  "parseLogicalOr p = p_bind (parseLogicalAnd p) (\<lambda>l q.
     if p_kind q \<noteq> TokenKindOr then (Some l, q)
     else p_bind (parseLogicalOr (p_next q)) (\<lambda>r q'. (Some (LogicalOpNode LogicalOpNodeKindOr l r), q')))"
| "parseLogicalAnd p = p_bind (parseCompareBinOp p) (\<lambda>l q.
     if p_kind q \<noteq> TokenKindAnd then (Some l, q)
     else p_bind (parseLogicalAnd (p_next q)) (\<lambda>r q'. (Some (LogicalOpNode LogicalOpNodeKindAnd l r), q')))"
| "parseCompareBinOp p = p_bind (parsePrefixOp p) (\<lambda>l q.
     if compare_kind (p_kind q) = None then (Some l, q)
     else p_bind (parseCompareBinOp (p_next q)) (\<lambda>r q'.
       (Some (CompareOpNode (the (compare_kind (p_kind q))) l r), q')))"
| "parsePrefixOp p =
     (if p_kind p \<noteq> TokenKindNot then parsePostfixOp p
      else p_bind (parsePrefixOp (p_next p)) (\<lambda>o' q. (Some (NotOpNode o' (p_cur p)), q)))"
| "parsePostfixOp p = p_bind (parsePrimaryExpr p) (\<lambda>ret q. postfix_loop ret q)"
| "postfix_loop ret p =
     (if p_kind p = TokenKindDot then
        (let q = p_next p in
         if p_kind q = TokenKindStar then postfix_loop (ArrayDerefNode ret) (p_next q)
         else if p_kind q = TokenKindIdent then
           postfix_loop (ObjectDerefNode ret (ToLower (tok_value (p_cur q)))) (p_next q)
         else (None, p_unexpected ''property dereference'' [TokenKindIdent, TokenKindStar] q))
      else if p_kind p = TokenKindLeftBracket then
        p_bind (parseLogicalOr (p_next p)) (\<lambda>idx q.
          if p_kind q \<noteq> TokenKindRightBracket
          then (None, p_unexpected ''closing bracket'' [TokenKindRightBracket] q)
          else postfix_loop (IndexAccessNode ret idx) (p_next q))
      else (Some ret, p))"
| "parsePrimaryExpr p =
     (if p_kind p = TokenKindIdent then parseIdent p
      else if p_kind p = TokenKindLeftParen then parseNestedExpr p
      else if p_kind p = TokenKindInt then parseInt p
      else if p_kind p = TokenKindFloat then parseFloat p
      else if p_kind p = TokenKindString then parseString p
      else (None, p_unexpected ''variable access, function call, null, bool, int, float or string''
        [TokenKindIdent, TokenKindLeftParen, TokenKindInt, TokenKindFloat, TokenKindString] p))"
| "parseIdent p =
     (let ident = p_cur p; q = p_next p in
      if p_kind q = TokenKindLeftParen then
        (let q' = p_next q in
         if p_kind q' = TokenKindRightParen then (Some (FuncCallNode (tok_value ident) [] ident), p_next q')
         else p_bind (loop_args [] q') (\<lambda>args q''. (Some (FuncCallNode (tok_value ident) args ident), q'')))
      else (Some (keyword_or_variable ident), q))"
| "loop_args args p = p_bind (parseLogicalOr p) (\<lambda>arg q.
     if p_kind q = TokenKindComma then loop_args (args @ [arg]) (p_next q)
     else if p_kind q = TokenKindRightParen then (Some (args @ [arg]), p_next q)
     else (None, p_unexpected ''arguments of function call'' [TokenKindComma, TokenKindRightParen] q))"
| "parseNestedExpr p = p_bind (parseLogicalOr (p_next p)) (\<lambda>nested q.
     if p_kind q = TokenKindRightParen then (Some nested, p_next q)
     else (None, p_unexpected ''closing paren of nested expression'' [TokenKindRightParen] q))"
  by pat_completeness auto

subsection \<open>Termination\<close>

definition p_left :: "ExprParser \<Rightarrow> nat" where
  "p_left p = lex_left (p_lexer p) + (if p_kind p = TokenKindEnd then 0 else 1)"

lemma p_left_next:
  "p_left (p_next p) \<le> p_left p"
  "p_kind p \<noteq> TokenKindEnd \<Longrightarrow> p_left (p_next p) < p_left p"
proof -
  obtain t l where n: "lex_Next (p_lexer p) = (t, l)" by (cases "lex_Next (p_lexer p)")
  from lex_Next_less(1,2)[OF n] n
  show "p_left (p_next p) \<le> p_left p" "p_kind p \<noteq> TokenKindEnd \<Longrightarrow> p_left (p_next p) < p_left p"
    by (auto simp: p_left_def p_next_def)
qed

lemma p_left_error [simp]: "p_left (p_error m p) = p_left p" "p_left (p_unexpected w e p) = p_left p"
  by (simp_all add: p_left_def p_error_def p_unexpected_def)

lemma p_left_leaf:
  "parseInt p = (r, q) \<Longrightarrow> p_left q \<le> p_left p"
  "parseFloat p = (r, q) \<Longrightarrow> p_left q \<le> p_left p"
  "parseString p = (r, q) \<Longrightarrow> p_left q \<le> p_left p"
  using p_left_next(1)[of p]
  by (auto simp: parseInt_def parseFloat_def parseString_def Let_def split: option.splits)

definition shrinks :: "nat \<Rightarrow> 'a option \<times> ExprParser \<Rightarrow> bool" where
  "shrinks n r \<longleftrightarrow> p_left (snd r) \<le> n"

named_theorems shrink \<open>that parse functions never lengthen the remaining input\<close>

lemma shrinks_bind [shrink]:
  assumes "shrinks n r" "\<And>x q. r = (Some x, q) \<Longrightarrow> p_left q \<le> n \<Longrightarrow> shrinks n (f x q)"
  shows "shrinks n (p_bind r f)"
proof -
  obtain y q where r: "r = (y, q)" by (cases r)
  with assms show ?thesis by (cases y) (auto simp: p_bind_def shrinks_def)
qed

lemma shrinks_ret [shrink]: "p_left q \<le> n \<Longrightarrow> shrinks n (x, q)"
  by (simp add: shrinks_def)

lemma p_left_next_le [shrink]: "p_left p \<le> n \<Longrightarrow> p_left (p_next p) \<le> n"
  using p_left_next(1)[of p] by simp

lemma shrinks_leaf [shrink]:
  "p_left p \<le> n \<Longrightarrow> shrinks n (parseInt p)"
  "p_left p \<le> n \<Longrightarrow> shrinks n (parseFloat p)"
  "p_left p \<le> n \<Longrightarrow> shrinks n (parseString p)"
  using p_left_leaf by (metis order_trans prod.collapse shrinks_def)+

abbreviation "parse_dom \<equiv>
  parseLogicalOr_parseLogicalAnd_parseCompareBinOp_parsePrefixOp_parsePostfixOp_postfix_loop_parsePrimaryExpr_parseIdent_loop_args_parseNestedExpr_dom"

lemmas parse_pinduct =
  parseLogicalOr_parseLogicalAnd_parseCompareBinOp_parsePrefixOp_parsePostfixOp_postfix_loop_parsePrimaryExpr_parseIdent_loop_args_parseNestedExpr.pinduct

lemma parse_shrinks_dom:
  "parse_dom (Inl (Inl (Inl p))) \<Longrightarrow> p_left p \<le> n \<Longrightarrow> shrinks n (parseLogicalOr p)"
  "parse_dom (Inl (Inl (Inr p))) \<Longrightarrow> p_left p \<le> n \<Longrightarrow> shrinks n (parseLogicalAnd p)"
  "parse_dom (Inl (Inr (Inl p))) \<Longrightarrow> p_left p \<le> n \<Longrightarrow> shrinks n (parseCompareBinOp p)"
  "parse_dom (Inl (Inr (Inr (Inl p)))) \<Longrightarrow> p_left p \<le> n \<Longrightarrow> shrinks n (parsePrefixOp p)"
  "parse_dom (Inl (Inr (Inr (Inr p)))) \<Longrightarrow> p_left p \<le> n \<Longrightarrow> shrinks n (parsePostfixOp p)"
  "parse_dom (Inr (Inl (Inl (e, p)))) \<Longrightarrow> p_left p \<le> n \<Longrightarrow> shrinks n (postfix_loop e p)"
  "parse_dom (Inr (Inl (Inr p))) \<Longrightarrow> p_left p \<le> n \<Longrightarrow> shrinks n (parsePrimaryExpr p)"
  "parse_dom (Inr (Inr (Inl p))) \<Longrightarrow> p_left p \<le> n \<Longrightarrow> shrinks n (parseIdent p)"
  "parse_dom (Inr (Inr (Inr (Inl (es, p))))) \<Longrightarrow> p_left p \<le> n \<Longrightarrow> shrinks n (loop_args es p)"
  "parse_dom (Inr (Inr (Inr (Inr p)))) \<Longrightarrow> p_left p \<le> n \<Longrightarrow> shrinks n (parseNestedExpr p)"
proof (induction p and p and p and p and p and e p and p and p and es p and p
    arbitrary: n and n and n and n and n and n and n and n and n and n rule: parse_pinduct)
  case IH: (1 p)
  show ?case unfolding parseLogicalOr.psimps[OF IH(1)] by (auto intro!: shrink IH(2-))
next
  case IH: (2 p)
  show ?case unfolding parseLogicalAnd.psimps[OF IH(1)] by (auto intro!: shrink IH(2-))
next
  case IH: (3 p)
  show ?case unfolding parseCompareBinOp.psimps[OF IH(1)] by (auto intro!: shrink IH(2-))
next
  case IH: (4 p)
  show ?case unfolding parsePrefixOp.psimps[OF IH(1)] by (auto intro!: shrink IH(2-))
next
  case IH: (5 p)
  show ?case unfolding parsePostfixOp.psimps[OF IH(1)] by (auto intro!: shrink IH(2-))
next
  case IH: (6 ret p)
  show ?case unfolding postfix_loop.psimps[OF IH(1)] Let_def by (auto intro!: shrink IH(2-))
next
  case IH: (7 p)
  show ?case unfolding parsePrimaryExpr.psimps[OF IH(1)] by (auto intro!: shrink IH(2-))
next
  case IH: (8 p)
  show ?case unfolding parseIdent.psimps[OF IH(1)] Let_def by (auto intro!: shrink IH(2-))
next
  case IH: (9 args p)
  show ?case unfolding loop_args.psimps[OF IH(1)] by (auto intro!: shrink IH(2-))
next
  case IH: (10 p)
  show ?case unfolding parseNestedExpr.psimps[OF IH(1)] by (auto intro!: shrink IH(2-))
qed

lemma parse_left_dom:
  "parse_dom (Inl (Inl (Inl p))) \<Longrightarrow> parseLogicalOr p = (r, q) \<Longrightarrow> p_left q \<le> p_left p"
  "parse_dom (Inl (Inl (Inr p))) \<Longrightarrow> parseLogicalAnd p = (r, q) \<Longrightarrow> p_left q \<le> p_left p"
  "parse_dom (Inl (Inr (Inl p))) \<Longrightarrow> parseCompareBinOp p = (r, q) \<Longrightarrow> p_left q \<le> p_left p"
  "parse_dom (Inl (Inr (Inr (Inl p)))) \<Longrightarrow> parsePrefixOp p = (r, q) \<Longrightarrow> p_left q \<le> p_left p"
  "parse_dom (Inr (Inl (Inr p))) \<Longrightarrow> parsePrimaryExpr p = (r, q) \<Longrightarrow> p_left q \<le> p_left p"
  using parse_shrinks_dom[where n = "p_left p" and p = p] by (metis order_refl shrinks_def snd_conv)+

text \<open>The measure: the remaining input, then the depth in the grammar.\<close>

definition parse_measure ::
  "(((ExprParser + ExprParser) + ExprParser + ExprParser + ExprParser) +
    (ExprNode \<times> ExprParser + ExprParser) + ExprParser + ExprNode list \<times> ExprParser + ExprParser)
   \<Rightarrow> nat \<times> nat" where
  "parse_measure x = (case x of
     Inl (Inl (Inl p)) \<Rightarrow> (p_left p, 6)
   | Inl (Inl (Inr p)) \<Rightarrow> (p_left p, 5)
   | Inl (Inr (Inl p)) \<Rightarrow> (p_left p, 4)
   | Inl (Inr (Inr (Inl p))) \<Rightarrow> (p_left p, 3)
   | Inl (Inr (Inr (Inr p))) \<Rightarrow> (p_left p, 2)
   | Inr (Inl (Inl (ret, p))) \<Rightarrow> (p_left p, 1)
   | Inr (Inl (Inr p)) \<Rightarrow> (p_left p, 1)
   | Inr (Inr (Inl p)) \<Rightarrow> (p_left p, 0)
   | Inr (Inr (Inr (Inl (args, p)))) \<Rightarrow> (p_left p, 7)
   | Inr (Inr (Inr (Inr p))) \<Rightarrow> (p_left (p_next p), 7))"

lemma next_less:
  "p_left q \<le> n \<Longrightarrow> p_kind q \<noteq> TokenKindEnd \<Longrightarrow> p_left (p_next q) < n"
  using p_left_next(2)[of q] by simp

lemma next_next_less:
  "p_kind (p_next p) \<noteq> TokenKindEnd \<Longrightarrow> p_left (p_next (p_next p)) < p_left p"
  using p_left_next(2)[of "p_next p"] p_left_next(1)[of p] by simp

lemma compare_kind_End [simp]: "compare_kind TokenKindEnd = None"
  by (simp add: compare_kind_def)

termination parseLogicalOr
proof (relation "inv_image (less_than <*lex*> less_than) parse_measure", goal_cases)
  case 1
  show ?case by (simp add: wf_inv_image wf_lex_prod)
qed (auto simp: parse_measure_def le_less[symmetric]
      intro!: next_less next_next_less p_left_next(2) intro: order_trans[OF _ p_left_next(1)]
      dest!: parse_left_dom)

declare parseLogicalOr.simps [simp del] parseLogicalAnd.simps [simp del] parseCompareBinOp.simps [simp del]
  parsePrefixOp.simps [simp del] parsePostfixOp.simps [simp del] postfix_loop.simps [simp del]
  parsePrimaryExpr.simps [simp del] parseIdent.simps [simp del] loop_args.simps [simp del]
  parseNestedExpr.simps [simp del]

lemmas parse_induct =
  parseLogicalOr_parseLogicalAnd_parseCompareBinOp_parsePrefixOp_parsePostfixOp_postfix_loop_parsePrimaryExpr_parseIdent_loop_args_parseNestedExpr.induct

subsection \<open>Parse\<close>

definition p_Err :: "ExprParser \<Rightarrow> ExprError option" where
  "p_Err p = (case lex_err (p_lexer p) of Some e \<Rightarrow> Some e | None \<Rightarrow> p_err p)"

text \<open>The kinds of the tokens up to the end, for the error message about unread input.\<close>

function remaining_kinds :: "ExprLexer \<Rightarrow> TokenKind list" where
  "remaining_kinds l = (case lex_Next l of (t, l') \<Rightarrow>
     (if tok_kind t = TokenKindEnd then [] else tok_kind t # remaining_kinds l'))"
  by pat_completeness auto
termination
  by (relation "measure lex_left") (auto dest: sym intro: lex_Next_less(1)[rule_format])

declare remaining_kinds.simps [simp del]

definition Parse_init :: "ExprLexer \<Rightarrow> ExprParser" where
  "Parse_init l = (case lex_Next l of (t, l') \<Rightarrow> \<lparr>p_cur = t, p_lexer = l', p_err = None\<rparr>)"

definition Parse_expr :: "ExprLexer \<Rightarrow> ExprError + ExprNode option" where
  "Parse_expr l = (case parseLogicalOr (Parse_init l) of (root, p) \<Rightarrow>
     (case p_Err p of Some e \<Rightarrow> Inl e
      | None \<Rightarrow> (if p_kind p \<noteq> TokenKindEnd
          then Inl (errorAtToken (p_cur p) (RemainingTokens (p_kind p # remaining_kinds (p_lexer p))))
          else Inr root)))"

subsection \<open>No node without an error\<close>

definition nil_has_error :: "'a option \<times> ExprParser \<Rightarrow> bool" where
  "nil_has_error r \<longleftrightarrow> (fst r = None \<longrightarrow> p_err (snd r) \<noteq> None)"

named_theorems nil_error \<open>that a nil node comes with an error\<close>

lemma nil_error_bind [nil_error]:
  "nil_has_error r \<Longrightarrow> (\<And>x q. r = (Some x, q) \<Longrightarrow> nil_has_error (f x q)) \<Longrightarrow> nil_has_error (p_bind r f)"
  by (cases r; cases "fst r") (auto simp: nil_has_error_def p_bind_def)

lemma nil_error_Some [nil_error]: "nil_has_error (Some x, q)"
  by (simp add: nil_has_error_def)

lemma nil_error_error [nil_error]: "nil_has_error (None, p_error m q)" "nil_has_error (None, p_unexpected w e q)"
  by (simp_all add: nil_has_error_def p_error_def p_unexpected_def)

lemma nil_error_leaf [nil_error]:
  "nil_has_error (parseInt p)" "nil_has_error (parseFloat p)" "nil_has_error (parseString p)"
  by (auto simp: parseInt_def parseFloat_def parseString_def Let_def nil_error split: option.split)

lemma parse_nil_error:
  "nil_has_error (parseLogicalOr p)" "nil_has_error (parseLogicalAnd p)"
  "nil_has_error (parseCompareBinOp p)" "nil_has_error (parsePrefixOp p)"
  "nil_has_error (parsePostfixOp p)" "nil_has_error (postfix_loop e p)"
  "nil_has_error (parsePrimaryExpr p)" "nil_has_error (parseIdent p)"
  "nil_has_error (loop_args es p)" "nil_has_error (parseNestedExpr p)"
proof (induction p and p and p and p and p and e p and p and p and es p and p rule: parse_induct)
  case IH: (1 p)
  show ?case unfolding parseLogicalOr.simps[of p] by (auto intro!: nil_error IH)
next
  case IH: (2 p)
  show ?case unfolding parseLogicalAnd.simps[of p] by (auto intro!: nil_error IH)
next
  case IH: (3 p)
  show ?case unfolding parseCompareBinOp.simps[of p] by (auto intro!: nil_error IH)
next
  case IH: (4 p)
  show ?case unfolding parsePrefixOp.simps[of p] by (auto intro!: nil_error IH)
next
  case IH: (5 p)
  show ?case unfolding parsePostfixOp.simps[of p] by (auto intro!: nil_error IH)
next
  case IH: (6 ret p)
  show ?case unfolding postfix_loop.simps[of ret p] Let_def by (auto intro!: nil_error IH)
next
  case IH: (7 p)
  show ?case unfolding parsePrimaryExpr.simps[of p] by (auto intro!: nil_error IH)
next
  case IH: (8 p)
  show ?case unfolding parseIdent.simps[of p] Let_def by (auto intro!: nil_error IH)
next
  case IH: (9 args p)
  show ?case unfolding loop_args.simps[of args p] by (auto intro!: nil_error IH)
next
  case IH: (10 p)
  show ?case unfolding parseNestedExpr.simps[of p] by (auto intro!: nil_error IH)
qed

lemma Parse_expr_not_nil: "Parse_expr l \<noteq> Inr None"
  using parse_nil_error(1)[of "Parse_init l"]
  by (auto simp: Parse_expr_def nil_has_error_def p_Err_def split: prod.splits option.splits)

subsection \<open>The grammar the parser accepts\<close>

text \<open>
  The expression grammar over token lists, with the tree each sentence stands for: \<open>||\<close> binds
  weakest, then \<open>&&\<close>, the comparisons, \<open>!\<close> and the postfix operators; the binary operators
  associate to the right.
\<close>

datatype nonterm = OrExpr | AndExpr | CompareExpr | PrefixExpr | PostfixExpr | PrimaryExpr

inductive derives :: "nonterm \<Rightarrow> Token list \<Rightarrow> ExprNode \<Rightarrow> bool"
  and derives_args :: "Token list \<Rightarrow> ExprNode list \<Rightarrow> bool" where
  or_one: "derives AndExpr ts n \<Longrightarrow> derives OrExpr ts n"
| or_more: "derives AndExpr ts l \<Longrightarrow> tok_kind o' = TokenKindOr \<Longrightarrow> derives OrExpr us r \<Longrightarrow>
    derives OrExpr (ts @ o' # us) (LogicalOpNode LogicalOpNodeKindOr l r)"
| and_one: "derives CompareExpr ts n \<Longrightarrow> derives AndExpr ts n"
| and_more: "derives CompareExpr ts l \<Longrightarrow> tok_kind o' = TokenKindAnd \<Longrightarrow> derives AndExpr us r \<Longrightarrow>
    derives AndExpr (ts @ o' # us) (LogicalOpNode LogicalOpNodeKindAnd l r)"
| compare_one: "derives PrefixExpr ts n \<Longrightarrow> derives CompareExpr ts n"
| compare_more: "derives PrefixExpr ts l \<Longrightarrow> compare_kind (tok_kind o') = Some k \<Longrightarrow>
    derives CompareExpr us r \<Longrightarrow> derives CompareExpr (ts @ o' # us) (CompareOpNode k l r)"
| prefix_one: "derives PostfixExpr ts n \<Longrightarrow> derives PrefixExpr ts n"
| prefix_not: "tok_kind t = TokenKindNot \<Longrightarrow> derives PrefixExpr ts n \<Longrightarrow>
    derives PrefixExpr (t # ts) (NotOpNode n t)"
| postfix_one: "derives PrimaryExpr ts n \<Longrightarrow> derives PostfixExpr ts n"
| postfix_prop: "derives PostfixExpr ts n \<Longrightarrow> tok_kind d = TokenKindDot \<Longrightarrow> tok_kind i = TokenKindIdent \<Longrightarrow>
    derives PostfixExpr (ts @ [d, i]) (ObjectDerefNode n (ToLower (tok_value i)))"
| postfix_star: "derives PostfixExpr ts n \<Longrightarrow> tok_kind d = TokenKindDot \<Longrightarrow> tok_kind i = TokenKindStar \<Longrightarrow>
    derives PostfixExpr (ts @ [d, i]) (ArrayDerefNode n)"
| postfix_index: "derives PostfixExpr ts n \<Longrightarrow> tok_kind lb = TokenKindLeftBracket \<Longrightarrow>
    derives OrExpr us idx \<Longrightarrow> tok_kind rb = TokenKindRightBracket \<Longrightarrow>
    derives PostfixExpr (ts @ lb # us @ [rb]) (IndexAccessNode n idx)"
| primary_ident: "tok_kind i = TokenKindIdent \<Longrightarrow> derives PrimaryExpr [i] (keyword_or_variable i)"
| primary_call0: "tok_kind i = TokenKindIdent \<Longrightarrow> tok_kind lp = TokenKindLeftParen \<Longrightarrow>
    tok_kind rp = TokenKindRightParen \<Longrightarrow>
    derives PrimaryExpr [i, lp, rp] (FuncCallNode (tok_value i) [] i)"
| primary_call: "tok_kind i = TokenKindIdent \<Longrightarrow> tok_kind lp = TokenKindLeftParen \<Longrightarrow>
    derives_args ts args \<Longrightarrow> tok_kind rp = TokenKindRightParen \<Longrightarrow>
    derives PrimaryExpr (i # lp # ts @ [rp]) (FuncCallNode (tok_value i) args i)"
| primary_paren: "tok_kind lp = TokenKindLeftParen \<Longrightarrow> derives OrExpr ts n \<Longrightarrow>
    tok_kind rp = TokenKindRightParen \<Longrightarrow> derives PrimaryExpr (lp # ts @ [rp]) n"
| primary_int: "tok_kind t = TokenKindInt \<Longrightarrow> parse_int32 (tok_value t) = Some i \<Longrightarrow>
    derives PrimaryExpr [t] (IntNode i t)"
| primary_float: "tok_kind t = TokenKindFloat \<Longrightarrow> parse_float (tok_value t) = Some f \<Longrightarrow>
    derives PrimaryExpr [t] (FloatNode f t)"
| primary_string: "tok_kind t = TokenKindString \<Longrightarrow>
    derives PrimaryExpr [t] (StringNode (unquote (tok_value t)) t)"
| args_one: "derives OrExpr ts n \<Longrightarrow> derives_args ts [n]"
| args_more: "derives OrExpr ts n \<Longrightarrow> tok_kind c = TokenKindComma \<Longrightarrow> derives_args us ns \<Longrightarrow>
    derives_args (ts @ c # us) (n # ns)"

text \<open>\<open>eats p ts q\<close>: calling \<open>next\<close> once per token of \<open>ts\<close> leads from \<open>p\<close> to \<open>q\<close>.\<close>

fun eats :: "ExprParser \<Rightarrow> Token list \<Rightarrow> ExprParser \<Rightarrow> bool" where
  "eats p [] q \<longleftrightarrow> q = p"
| "eats p (t # ts) q \<longleftrightarrow> t = p_cur p \<and> eats (p_next p) ts q"

lemma eats_append: "eats p ts q \<Longrightarrow> eats q us r \<Longrightarrow> eats p (ts @ us) r"
  by (induction ts arbitrary: p) auto

lemma eats_one: "eats p [p_cur p] (p_next p)"
  by simp

lemma eats_snoc: "eats p ts q \<Longrightarrow> eats p (ts @ [p_cur q]) (p_next q)"
  by (rule eats_append) simp_all

lemma eats_middle: "eats p ts q \<Longrightarrow> eats (p_next q) us r \<Longrightarrow> eats p (ts @ p_cur q # us) r"
  by (rule eats_append) simp_all

text \<open>The result of parsing nonterminal \<open>nt\<close> from \<open>p\<close>, when it is a node.\<close>

definition parses :: "nonterm \<Rightarrow> ExprParser \<Rightarrow> ExprNode option \<times> ExprParser \<Rightarrow> bool" where
  "parses nt p r \<longleftrightarrow> (\<forall>n q. r = (Some n, q) \<longrightarrow> (\<exists>ts. eats p ts q \<and> derives nt ts n))"

lemma parses_D: "parses nt p (Some n, q) \<Longrightarrow> \<exists>ts. eats p ts q \<and> derives nt ts n"
  by (simp add: parses_def)

lemma parses_I: "eats p ts q \<Longrightarrow> derives nt ts n \<Longrightarrow> parses nt p (Some n, q)"
  by (auto simp: parses_def)

lemma parses_None [simp]: "parses nt p (None, q)"
  by (simp add: parses_def)

lemma parses_bind:
  assumes "\<And>x q. r = (Some x, q) \<Longrightarrow> parses nt p (f x q)"
  shows "parses nt p (p_bind r f)"
proof -
  obtain y q where "r = (y, q)" by (cases r)
  with assms show ?thesis by (cases y) (auto simp: p_bind_def)
qed

text \<open>The shape of the three binary levels: an operand, and more after an operator.\<close>

lemma parses_binary:
  assumes l: "parses nt1 p r1"
    and one: "\<And>ts n. derives nt1 ts n \<Longrightarrow> derives nt ts n"
    and more: "\<And>q ts us l n. isop q \<Longrightarrow> derives nt1 ts l \<Longrightarrow> derives nt us n \<Longrightarrow>
      derives nt (ts @ p_cur q # us) (node q l n)"
    and r: "\<And>l q. r1 = (Some l, q) \<Longrightarrow> isop q \<Longrightarrow> parses nt (p_next q) (rest q)"
  shows "parses nt p (p_bind r1 (\<lambda>l q. if \<not> isop q then (Some l, q)
    else p_bind (rest q) (\<lambda>n q'. (Some (node q l n), q'))))"
proof (intro parses_bind)
  fix x q assume r1: "r1 = (Some x, q)"
  from l[unfolded r1] obtain ts where ts: "eats p ts q" "derives nt1 ts x" by (blast dest: parses_D)
  show "parses nt p (if \<not> isop q then (Some x, q) else p_bind (rest q) (\<lambda>n q'. (Some (node q x n), q')))"
  proof (cases "isop q")
    case False
    with ts one show ?thesis by (simp add: parses_I)
  next
    case True
    have "parses nt p (p_bind (rest q) (\<lambda>n q'. (Some (node q x n), q')))"
    proof (intro parses_bind)
      fix n q' assume "rest q = (Some n, q')"
      with r[OF r1 True] obtain us where "eats (p_next q) us q'" "derives nt us n"
        by (auto dest: parses_D)
      with ts more[OF True ts(2)] show "parses nt p (Some (node q x n), q')"
        by (blast intro: parses_I eats_middle)
    qed
    with True show ?thesis by simp
  qed
qed

definition parses_args :: "ExprNode list \<Rightarrow> ExprParser \<Rightarrow> ExprNode list option \<times> ExprParser \<Rightarrow> bool" where
  "parses_args args p r \<longleftrightarrow> (\<forall>ns q. r = (Some ns, q) \<longrightarrow>
     (\<exists>ts rp ms. ns = args @ ms \<and> eats p (ts @ [rp]) q \<and> tok_kind rp = TokenKindRightParen \<and>
        derives_args ts ms))"

lemma parses_args_bind:
  assumes "\<And>x q. r = (Some x, q) \<Longrightarrow> parses_args args p (f x q)"
  shows "parses_args args p (p_bind r f)"
proof -
  obtain y q where "r = (y, q)" by (cases r)
  with assms show ?thesis by (cases y) (auto simp: p_bind_def parses_args_def)
qed

lemma parses_leaf:
  "p_kind p = TokenKindInt \<Longrightarrow> parses PrimaryExpr p (parseInt p)"
  "p_kind p = TokenKindFloat \<Longrightarrow> parses PrimaryExpr p (parseFloat p)"
  "p_kind p = TokenKindString \<Longrightarrow> parses PrimaryExpr p (parseString p)"
  by (auto simp: parseInt_def parseFloat_def parseString_def Let_def
      intro!: parses_I[OF eats_one] derives_derives_args.intros split: option.split)

lemma parses_paren:
  assumes "parses OrExpr (p_next p) r" "p_kind p = TokenKindLeftParen"
  shows "parses PrimaryExpr p (p_bind r (\<lambda>nested q.
     if p_kind q = TokenKindRightParen then (Some nested, p_next q) else (None, err q)))"
proof (intro parses_bind)
  fix n q assume "r = (Some n, q)"
  with assms(1) obtain ts where ts: "eats (p_next p) ts q" "derives OrExpr ts n" by (auto dest: parses_D)
  then have "eats p (p_cur p # ts @ [p_cur q]) (p_next q)" by (simp add: eats_snoc)
  with ts(2) assms(2) show "parses PrimaryExpr p
      (if p_kind q = TokenKindRightParen then (Some n, p_next q) else (None, err q))"
    by (auto intro!: parses_I primary_paren)
qed

lemma parses_ident:
  assumes kind: "p_kind p = TokenKindIdent"
    and args: "p_kind (p_next p) = TokenKindLeftParen \<Longrightarrow>
      p_kind (p_next (p_next p)) \<noteq> TokenKindRightParen \<Longrightarrow>
      parses_args [] (p_next (p_next p)) (loop_args [] (p_next (p_next p)))"
  shows "parses PrimaryExpr p (parseIdent p)"
proof -
  let ?q = "p_next p" and ?q' = "p_next (p_next p)"
  consider (var) "p_kind ?q \<noteq> TokenKindLeftParen"
    | (call0) "p_kind ?q = TokenKindLeftParen" "p_kind ?q' = TokenKindRightParen"
    | (call) "p_kind ?q = TokenKindLeftParen" "p_kind ?q' \<noteq> TokenKindRightParen" by blast
  then show ?thesis
  proof cases
    case var
    with kind show ?thesis
      by (auto simp: parseIdent.simps[of p] Let_def intro!: parses_I[OF eats_one] primary_ident)
  next
    case call0
    have "eats p [p_cur p, p_cur ?q, p_cur ?q'] (p_next ?q')" by simp
    with call0 kind show ?thesis
      by (auto simp: parseIdent.simps[of p] Let_def intro!: parses_I primary_call0)
  next
    case call
    have "parses PrimaryExpr p (p_bind (loop_args [] ?q')
        (\<lambda>args q''. (Some (FuncCallNode (tok_value (p_cur p)) args (p_cur p)), q'')))"
    proof (intro parses_bind)
      fix ns q'' assume "loop_args [] ?q' = (Some ns, q'')"
      with args[OF call] obtain ts rp where ts: "eats ?q' (ts @ [rp]) q''"
        "tok_kind rp = TokenKindRightParen" "derives_args ts ns"
        by (auto simp: parses_args_def)
      then have "eats p (p_cur p # p_cur ?q # ts @ [rp]) q''" by simp
      moreover have "derives PrimaryExpr (p_cur p # p_cur ?q # ts @ [rp])
          (FuncCallNode (tok_value (p_cur p)) ns (p_cur p))"
        using kind call(1) ts by (intro primary_call)
      ultimately show "parses PrimaryExpr p (Some (FuncCallNode (tok_value (p_cur p)) ns (p_cur p)), q'')"
        by (rule parses_I)
    qed
    with call show ?thesis by (simp add: parseIdent.simps[of p] Let_def)
  qed
qed

lemma parses_args_step:
  assumes or: "parses OrExpr p r"
    and more: "\<And>arg q. r = (Some arg, q) \<Longrightarrow> p_kind q = TokenKindComma \<Longrightarrow>
      parses_args (args @ [arg]) (p_next q) (loop_args (args @ [arg]) (p_next q))"
  shows "parses_args args p (p_bind r (\<lambda>arg q.
     if p_kind q = TokenKindComma then loop_args (args @ [arg]) (p_next q)
     else if p_kind q = TokenKindRightParen then (Some (args @ [arg]), p_next q)
     else (None, err q)))"
proof (intro parses_args_bind)
  fix arg q assume r: "r = (Some arg, q)"
  with or obtain ts where ts: "eats p ts q" "derives OrExpr ts arg" by (auto dest: parses_D)
  consider (comma) "p_kind q = TokenKindComma" | (close) "p_kind q = TokenKindRightParen"
    | (bad) "p_kind q \<noteq> TokenKindComma" "p_kind q \<noteq> TokenKindRightParen" by blast
  then show "parses_args args p
     (if p_kind q = TokenKindComma then loop_args (args @ [arg]) (p_next q)
      else if p_kind q = TokenKindRightParen then (Some (args @ [arg]), p_next q)
      else (None, err q))"
  proof cases
    case comma
    have "parses_args args p (loop_args (args @ [arg]) (p_next q))"
      unfolding parses_args_def
    proof (intro allI impI)
      fix ns q' assume "loop_args (args @ [arg]) (p_next q) = (Some ns, q')"
      with more[OF r comma] obtain us rp ms where us: "ns = (args @ [arg]) @ ms"
        "eats (p_next q) (us @ [rp]) q'" "tok_kind rp = TokenKindRightParen" "derives_args us ms"
        unfolding parses_args_def by blast
      have "eats p ((ts @ p_cur q # us) @ [rp]) q'" using eats_middle[OF ts(1) us(2)] by simp
      moreover have "derives_args (ts @ p_cur q # us) (arg # ms)"
        using ts(2) comma us(4) by (rule args_more)
      ultimately show "\<exists>ts rp ms. ns = args @ ms \<and> eats p (ts @ [rp]) q' \<and>
          tok_kind rp = TokenKindRightParen \<and> derives_args ts ms"
        using us(1,3) by (metis append.assoc append_Cons append_Nil)
    qed
    with comma show ?thesis by simp
  next
    case close
    with ts eats_snoc[OF ts(1)] args_one show ?thesis by (auto simp: parses_args_def)
  next
    case bad
    then show ?thesis by (simp add: parses_args_def)
  qed
qed

lemma parse_derives:
  "parses OrExpr p (parseLogicalOr p)" "parses AndExpr p (parseLogicalAnd p)"
  "parses CompareExpr p (parseCompareBinOp p)" "parses PrefixExpr p (parsePrefixOp p)"
  "parses PostfixExpr p (parsePostfixOp p)"
  "eats p0 ts0 p \<Longrightarrow> derives PostfixExpr ts0 e \<Longrightarrow> parses PostfixExpr p0 (postfix_loop e p)"
  "parses PrimaryExpr p (parsePrimaryExpr p)"
  "p_kind p = TokenKindIdent \<Longrightarrow> parses PrimaryExpr p (parseIdent p)"
  "parses_args es p (loop_args es p)"
  "p_kind p = TokenKindLeftParen \<Longrightarrow> parses PrimaryExpr p (parseNestedExpr p)"
proof (induction p and p and p and p and p and e p and p and p and es p and p
    arbitrary: and and and and and p0 ts0 rule: parse_induct)
  case IH: (1 p)
  show ?case unfolding parseLogicalOr.simps[of p]
    by (rule parses_binary[where isop = "\<lambda>q. p_kind q = TokenKindOr", OF IH(1)])
      (auto intro: or_one or_more IH(2))
next
  case IH: (2 p)
  show ?case unfolding parseLogicalAnd.simps[of p]
    by (rule parses_binary[where isop = "\<lambda>q. p_kind q = TokenKindAnd", OF IH(1)])
      (auto intro: and_one and_more IH(2))
next
  case IH: (3 p)
  have "parses CompareExpr p (p_bind (parsePrefixOp p) (\<lambda>l q.
     if \<not> compare_kind (p_kind q) \<noteq> None then (Some l, q)
     else p_bind (parseCompareBinOp (p_next q)) (\<lambda>r q'.
       (Some (CompareOpNode (the (compare_kind (p_kind q))) l r), q'))))"
    by (rule parses_binary[where isop = "\<lambda>q. compare_kind (p_kind q) \<noteq> None", OF IH(1)])
      (auto intro: compare_one compare_more IH(2))
  then show ?case unfolding parseCompareBinOp.simps[of p] by simp
next
  case IH: (4 p)
  show ?case
  proof (cases "p_kind p = TokenKindNot")
    case True
    have "parses PrefixExpr p (p_bind (parsePrefixOp (p_next p)) (\<lambda>o' q. (Some (NotOpNode o' (p_cur p)), q)))"
    proof (intro parses_bind)
      fix n q assume "parsePrefixOp (p_next p) = (Some n, q)"
      with IH(2) True obtain ts where "eats (p_next p) ts q" "derives PrefixExpr ts n"
        by (auto dest: parses_D)
      then show "parses PrefixExpr p (Some (NotOpNode n (p_cur p)), q)"
        using True prefix_not by (auto intro!: parses_I[of p "p_cur p # ts"])
    qed
    with True show ?thesis by (simp add: parsePrefixOp.simps[of p])
  next
    case False
    then have "parses PostfixExpr p (parsePostfixOp p)" by (rule IH(1))
    with False show ?thesis
      unfolding parsePrefixOp.simps[of p] parses_def by simp (blast intro: prefix_one)
  qed
next
  case IH: (5 p)
  show ?case unfolding parsePostfixOp.simps[of p]
  proof (intro parses_bind)
    fix n q assume r: "parsePrimaryExpr p = (Some n, q)"
    with IH(1) obtain ts where "eats p ts q" "derives PrimaryExpr ts n" by (auto dest: parses_D)
    with IH(2)[OF r] show "parses PostfixExpr p (postfix_loop n q)" by (blast intro: postfix_one)
  qed
next
  case IH: (6 ret p)
  let ?q = "p_next p"
  consider (dot) "p_kind p = TokenKindDot" | (index) "p_kind p = TokenKindLeftBracket"
    | (other) "p_kind p \<noteq> TokenKindDot" "p_kind p \<noteq> TokenKindLeftBracket" by blast
  then show ?case
  proof cases
    case dot
    have e: "eats p0 (ts0 @ [p_cur p, p_cur ?q]) (p_next ?q)"
      using eats_append[OF IH(5), of "[p_cur p, p_cur ?q]"] by simp
    have star: "p_kind ?q = TokenKindStar \<Longrightarrow>
        parses PostfixExpr p0 (postfix_loop (ArrayDerefNode ret) (p_next ?q))"
      using IH(1)[OF dot refl _ e] postfix_star[OF IH(6)] dot by blast
    have pro: "p_kind ?q = TokenKindIdent \<Longrightarrow> parses PostfixExpr p0
        (postfix_loop (ObjectDerefNode ret (ToLower (tok_value (p_cur ?q)))) (p_next ?q))"
      using IH(2)[OF dot refl _ _ e] postfix_prop[OF IH(6)] dot by simp
    show ?thesis using dot star pro by (simp add: postfix_loop.simps[of ret p] Let_def)
  next
    case index
    have "parses PostfixExpr p0 (p_bind (parseLogicalOr ?q) (\<lambda>idx q.
          if p_kind q \<noteq> TokenKindRightBracket
          then (None, p_unexpected ''closing bracket'' [TokenKindRightBracket] q)
          else postfix_loop (IndexAccessNode ret idx) (p_next q)))"
    proof (intro parses_bind)
      fix idx q assume r: "parseLogicalOr ?q = (Some idx, q)"
      have "parses OrExpr ?q (parseLogicalOr ?q)" using IH(3) index by simp
      with r obtain us where us: "eats ?q us q" "derives OrExpr us idx" by (auto dest: parses_D)
      have e: "eats p0 (ts0 @ p_cur p # us @ [p_cur q]) (p_next q)"
        using eats_middle[OF IH(5) eats_snoc[OF us(1)]] by simp
      have "p_kind q = TokenKindRightBracket \<Longrightarrow>
          parses PostfixExpr p0 (postfix_loop (IndexAccessNode ret idx) (p_next q))"
        using IH(4)[OF _ index r _ e] postfix_index[OF IH(6) index us(2)] index by simp
      then show "parses PostfixExpr p0 (if p_kind q \<noteq> TokenKindRightBracket
          then (None, p_unexpected ''closing bracket'' [TokenKindRightBracket] q)
          else postfix_loop (IndexAccessNode ret idx) (p_next q))" by simp
    qed
    with index show ?thesis by (simp add: postfix_loop.simps[of ret p])
  next
    case other
    with IH(5,6) show ?thesis by (simp add: postfix_loop.simps[of ret p] parses_I)
  qed
next
  case IH: (7 p)
  show ?case unfolding parsePrimaryExpr.simps[of p] by (auto intro!: parses_leaf IH)
next
  case IH: (8 p)
  show ?case by (rule parses_ident[OF IH(2)]) (rule IH(1)[OF refl refl _ refl])
next
  case IH: (9 args p)
  show ?case unfolding loop_args.simps[of args p] by (rule parses_args_step) (auto intro: IH)
next
  case IH: (10 p)
  show ?case unfolding parseNestedExpr.simps[of p] by (rule parses_paren[OF IH])
qed

lemma lex_err_mono:
  assumes "lex_Next l = (t, l')" "lex_err l' = None"
  shows "lex_err l = None"
proof (cases "lex_ok l")
  case True
  with lex_step_Next[OF True] skipWhite_moves(3)[OF True] assms show ?thesis
    by (auto simp: lex_step_def)
next
  case False
  with lex_Next_past_end(1)[OF False assms(1)] assms(2) show ?thesis by simp
qed

lemma eats_err: "eats p ts q \<Longrightarrow> lex_err (p_lexer q) = None \<Longrightarrow> lex_err (p_lexer p) = None"
proof (induction ts arbitrary: p)
  case (Cons t ts)
  then have "lex_err (p_lexer (p_next p)) = None" by simp
  then show ?case
    by (cases "lex_Next (p_lexer p)") (auto simp: p_next_def dest: lex_err_mono)
qed simp

lemma eats_lex_all:
  assumes "eats p ts q" "lex_Next l = (p_cur p, p_lexer p)" "\<forall>t \<in> set ts. tok_kind t \<noteq> TokenKindEnd"
    "p_kind q = TokenKindEnd" "lex_err (p_lexer q) = None"
  shows "lex_all l acc = Inr (acc @ ts @ [p_cur q], lex_pos (p_lexer q))"
  using assms
proof (induction ts arbitrary: p l acc)
  case Nil
  then show ?case by (simp add: lex_all.simps[of l])
next
  case (Cons t ts)
  have err: "lex_err (p_lexer p) = None" using Cons.prems(1,5) by (rule eats_err)
  obtain t' l' where n: "lex_Next (p_lexer p) = (t', l')" by (cases "lex_Next (p_lexer p)")
  have "lex_all (p_lexer p) (acc @ [t]) = Inr ((acc @ [t]) @ ts @ [p_cur q], lex_pos (p_lexer q))"
    using Cons.prems n by (intro Cons.IH[of "p_next p"]) (auto simp: p_next_def)
  with Cons.prems err show ?case by (simp add: lex_all.simps[of l])
qed

lemma derives_no_End:
  "derives nt ts n \<Longrightarrow> \<forall>t \<in> set ts. tok_kind t \<noteq> TokenKindEnd"
  "derives_args ts ns \<Longrightarrow> \<forall>t \<in> set ts. tok_kind t \<noteq> TokenKindEnd"
  by (induction rule: derives_derives_args.inducts) auto

lemma Parse_expr_derives:
  assumes "Parse_expr (NewExprLexer src) = Inr root"
  obtains n ts e off where "root = Some n" "LexExpression src = Inr (ts @ [e], off)"
    "tok_kind e = TokenKindEnd" "derives OrExpr ts n"
proof -
  let ?l = "NewExprLexer src" and ?p = "Parse_init (NewExprLexer src)"
  obtain r q where r: "parseLogicalOr ?p = (r, q)" by (cases "parseLogicalOr ?p")
  with assms have q: "p_Err q = None" "p_kind q = TokenKindEnd" "root = r"
    by (auto simp: Parse_expr_def split: option.splits if_splits)
  from assms Parse_expr_not_nil obtain n where n: "root = Some n" by (cases root) auto
  with parse_derives(1)[of ?p] r q(3) obtain ts where ts: "eats ?p ts q" "derives OrExpr ts n"
    by (auto dest: parses_D)
  have "lex_err (p_lexer q) = None" using q(1) by (simp add: p_Err_def split: option.splits)
  then have "lex_all ?l [] = Inr ([] @ ts @ [p_cur q], lex_pos (p_lexer q))"
    using derives_no_End(1)[OF ts(2)] q(2)
    by (intro eats_lex_all[OF ts(1)]) (auto simp: Parse_init_def split: prod.split)
  with that[OF n _ q(2) ts(2)] show thesis by (simp add: LexExpression_def)
qed

text \<open>C22: a source that parses is lexed without error, and its tokens before the end marker are
  a sentence of the expression grammar whose tree is the parser's result; in particular the
  parser never returns a nil node without an error.\<close>

theorem parse_is_grammatical:
  assumes "Parse_expr (NewExprLexer src) = Inr root"
  shows "\<exists>n ts e off. root = Some n \<and> LexExpression src = Inr (ts @ [e], off) \<and>
    tok_kind e = TokenKindEnd \<and> derives OrExpr ts n"
  using Parse_expr_derives[OF assms] by metis

theorem parse_is_grammatical_witness:
  "\<exists>n ts e off. LexExpression ''!a && b.C == 0x1F }}'' = Inr (ts @ [e], off) \<and>
     derives OrExpr ts n \<and>
     n = LogicalOpNode LogicalOpNodeKindAnd
       (NotOpNode (VariableNode ''a'' \<lparr>tok_kind = TokenKindIdent, tok_value = ''a'', tok_offset = 1\<rparr>)
          \<lparr>tok_kind = TokenKindNot, tok_value = ''!'', tok_offset = 0\<rparr>)
       (CompareOpNode CompareOpNodeKindEq
         (ObjectDerefNode (VariableNode ''b'' \<lparr>tok_kind = TokenKindIdent, tok_value = ''b'', tok_offset = 6\<rparr>) ''c'')
         (IntNode 31 \<lparr>tok_kind = TokenKindInt, tok_value = ''0x1F'', tok_offset = 13\<rparr>))"
proof -
  have "Parse_expr (NewExprLexer ''!a && b.C == 0x1F }}'') = Inr (Some (LogicalOpNode LogicalOpNodeKindAnd
       (NotOpNode (VariableNode ''a'' \<lparr>tok_kind = TokenKindIdent, tok_value = ''a'', tok_offset = 1\<rparr>)
          \<lparr>tok_kind = TokenKindNot, tok_value = ''!'', tok_offset = 0\<rparr>)
       (CompareOpNode CompareOpNodeKindEq
         (ObjectDerefNode (VariableNode ''b'' \<lparr>tok_kind = TokenKindIdent, tok_value = ''b'', tok_offset = 6\<rparr>) ''c'')
         (IntNode 31 \<lparr>tok_kind = TokenKindInt, tok_value = ''0x1F'', tok_offset = 13\<rparr>))))"
    by code_simp
  from parse_is_grammatical[OF this] show ?thesis by blast
qed

text \<open>What the evaluator may assume of a parsed tree: no invalid operator, integers in 32 bits.\<close>

fun node_ok :: "ExprNode \<Rightarrow> bool" where
  "node_ok (IntNode i _) \<longleftrightarrow> - (2 ^ 31) \<le> i \<and> i < 2 ^ 31"
| "node_ok (ObjectDerefNode n _) \<longleftrightarrow> node_ok n"
| "node_ok (ArrayDerefNode n) \<longleftrightarrow> node_ok n"
| "node_ok (IndexAccessNode n idx) \<longleftrightarrow> node_ok n \<and> node_ok idx"
| "node_ok (NotOpNode n _) \<longleftrightarrow> node_ok n"
| "node_ok (CompareOpNode k l r) \<longleftrightarrow> k \<noteq> CompareOpNodeKindInvalid \<and> node_ok l \<and> node_ok r"
| "node_ok (LogicalOpNode k l r) \<longleftrightarrow> k \<noteq> LogicalOpNodeKindInvalid \<and> node_ok l \<and> node_ok r"
| "node_ok (FuncCallNode _ args _) \<longleftrightarrow> list_all node_ok args"
| "node_ok _ \<longleftrightarrow> True"

lemma parse_int32_range: "parse_int32 s = Some i \<Longrightarrow> - (2 ^ 31) \<le> i \<and> i < 2 ^ 31"
  by (auto simp: parse_int32_def Let_def split: if_splits)

lemma derives_node_ok:
  "derives nt ts n \<Longrightarrow> node_ok n"
  "derives_args ts ns \<Longrightarrow> list_all node_ok ns"
  by (induction rule: derives_derives_args.inducts)
    (auto simp: compare_kind_def keyword_or_variable_def dest: parse_int32_range split: if_splits)

lemma Parse_expr_node_ok: "Parse_expr (NewExprLexer src) = Inr (Some n) \<Longrightarrow> node_ok n"
  by (metis Parse_expr_derives derives_node_ok(1) option.inject)

end
