(* ===== verification/Hash_Files.thy ===== *)
theory Hash_Files
  imports Prelude
begin

text \<open>
  \<open>internal/engine/hashfiles.go\<close>: the glob matcher behind \<open>hashFiles()\<close> and the function itself
  over a directory tree. The glob matcher is shown equal to its declarative meaning.
\<close>

subsection \<open>\<open>filepath.Match\<close>\<close>

text \<open>
  A pattern of one path segment, parsed: a character, \<open>?\<close>, \<open>*\<close>, or a class of ranges that may
  be negated. A malformed pattern never matches (the call returns \<open>ErrBadPattern\<close>).
\<close>

datatype glob_item = Lit char | AnyChar | Star | Class bool "(char \<times> char) list"

text \<open>One bound of a class range, and the ranges up to the closing bracket.\<close>

definition glob_esc :: "string \<Rightarrow> (char \<times> string) option" where
  "glob_esc s = (case s of [] \<Rightarrow> None
     | c # cs \<Rightarrow> (if c = CHR ''-'' \<or> c = CHR '']'' then None
         else if c = CHR 0x5C then (case cs of [] \<Rightarrow> None | d # ds \<Rightarrow> if ds = [] then None else Some (d, ds))
         else if cs = [] then None else Some (c, cs)))"

lemma glob_esc_shorter: "glob_esc s = Some (c, r) \<Longrightarrow> length r < length s"
  by (auto simp: glob_esc_def split: list.splits if_splits)

function glob_ranges :: "string \<Rightarrow> (char \<times> char) list \<Rightarrow> ((char \<times> char) list \<times> string) option" where
  "glob_ranges s acc =
     (if HasPrefix s '']'' \<and> acc \<noteq> [] then Some (rev acc, tl s)
      else case glob_esc s of None \<Rightarrow> None
      | Some (lo, r) \<Rightarrow>
         (if HasPrefix r ''-'' then (case glob_esc (tl r) of None \<Rightarrow> None
            | Some (hi, r') \<Rightarrow> glob_ranges r' ((lo, hi) # acc))
          else glob_ranges r ((lo, lo) # acc)))"
  by pat_completeness auto
termination
proof (relation "measure (\<lambda>(s, acc). length s)", goal_cases)
  case (2 s acc x lo r y hi r')
  then show ?case using glob_esc_shorter[of s lo r] glob_esc_shorter[of "tl r" hi r'] by simp
next
  case (3 s acc x lo r)
  then show ?case using glob_esc_shorter[of s lo r] by simp
qed simp

declare glob_ranges.simps [simp del]

lemma glob_ranges_shorter: "glob_ranges s acc = Some (rs, r) \<Longrightarrow> length r \<le> length s"
proof (induction s acc rule: glob_ranges.induct)
  case (1 s acc)
  show ?case
  proof (cases "HasPrefix s '']'' \<and> acc \<noteq> []")
    case True
    with "1.prems" show ?thesis by (auto simp: glob_ranges.simps[of s acc])
  next
    case False
    then obtain lo r' where lo: "glob_esc s = Some (lo, r')"
      using "1.prems" by (auto simp: glob_ranges.simps[of s acc] split: option.splits)
    note s1 = glob_esc_shorter[OF lo]
    show ?thesis
    proof (cases "HasPrefix r' ''-''")
      case True
      with "1.prems" False lo obtain hi r'' where hi: "glob_esc (tl r') = Some (hi, r'')"
        "glob_ranges r'' ((lo, hi) # acc) = Some (rs, r)"
        by (auto simp: glob_ranges.simps[of s acc] split: option.splits)
      from "1.IH"(1)[OF False lo refl True hi(1) refl hi(2)] glob_esc_shorter[OF hi(1)] s1
      show ?thesis by simp
    next
      case noDash: False
      with "1.prems" False lo have "glob_ranges r' ((lo, lo) # acc) = Some (rs, r)"
        by (simp add: glob_ranges.simps[of s acc])
      from "1.IH"(2)[OF False lo refl noDash this] s1 show ?thesis by simp
    qed
  qed
qed

function glob_parse :: "string \<Rightarrow> glob_item list option" where
  "glob_parse s = (case s of [] \<Rightarrow> Some []
     | c # cs \<Rightarrow>
        (if c = CHR ''*'' then map_option (Cons Star) (glob_parse cs)
         else if c = CHR ''?'' then map_option (Cons AnyChar) (glob_parse cs)
         else if c = CHR 0x5C then (case cs of [] \<Rightarrow> None
           | d # ds \<Rightarrow> map_option (Cons (Lit d)) (glob_parse ds))
         else if c = CHR ''['' then
           (let neg = HasPrefix cs ''^''; body = (if neg then tl cs else cs)
            in case glob_ranges body [] of None \<Rightarrow> None
               | Some (rs, r) \<Rightarrow> map_option (Cons (Class neg rs)) (glob_parse r))
         else map_option (Cons (Lit c)) (glob_parse cs)))"
  by pat_completeness auto
termination
proof (relation "measure length", goal_cases)
  case (5 s c cs neg body x rs r)
  from glob_ranges_shorter[of body "[]" rs r] 5 have "length r \<le> length body" by simp
  with 5 show ?case by (cases cs) (auto split: if_splits)
qed auto

declare glob_parse.simps [simp del]

definition in_class :: "bool \<Rightarrow> (char \<times> char) list \<Rightarrow> char \<Rightarrow> bool" where
  "in_class neg rs c \<longleftrightarrow> list_ex (\<lambda>(lo, hi). lo \<le> c \<and> c \<le> hi) rs \<noteq> neg"

function glob_items :: "glob_item list \<Rightarrow> string \<Rightarrow> bool" where
  "glob_items [] s \<longleftrightarrow> s = []"
| "glob_items (Star # p) s \<longleftrightarrow> glob_items p s \<or>
     (case s of [] \<Rightarrow> False | c # cs \<Rightarrow> c \<noteq> CHR ''/'' \<and> glob_items (Star # p) cs)"
| "glob_items (AnyChar # p) s \<longleftrightarrow> (case s of [] \<Rightarrow> False | c # cs \<Rightarrow> c \<noteq> CHR ''/'' \<and> glob_items p cs)"
| "glob_items (Lit d # p) s \<longleftrightarrow> (case s of [] \<Rightarrow> False | c # cs \<Rightarrow> c = d \<and> glob_items p cs)"
| "glob_items (Class neg rs # p) s \<longleftrightarrow> (case s of [] \<Rightarrow> False | c # cs \<Rightarrow> in_class neg rs c \<and> glob_items p cs)"
  by pat_completeness auto
termination
  by (relation "measure (\<lambda>(p, s). length p + length s)") auto

definition filepath_Match :: "string \<Rightarrow> string \<Rightarrow> bool" where
  "filepath_Match pat name = (case glob_parse pat of None \<Rightarrow> False | Some p \<Rightarrow> glob_items p name)"

subsection \<open>\<open>globMatch\<close>\<close>

function matchSegments :: "string list \<Rightarrow> string list \<Rightarrow> bool" where
  "matchSegments [] path \<longleftrightarrow> path = []"
| "matchSegments (p # pat) path \<longleftrightarrow>
     (if p = ''**'' then
        (if matchSegments pat path then True
         else case path of [] \<Rightarrow> False | _ # rest \<Rightarrow> matchSegments (p # pat) rest)
      else case path of [] \<Rightarrow> False
        | s # rest \<Rightarrow> (if filepath_Match p s then matchSegments pat rest else False))"
  by pat_completeness auto
termination
  by (relation "measure (\<lambda>(pat, path). length pat + length path)") auto

definition globMatch :: "string \<Rightarrow> string \<Rightarrow> bool" where
  "globMatch pattern relPath = matchSegments (str_split (CHR ''/'') pattern) (str_split (CHR ''/'') relPath)"

text \<open>What a pattern means: the path splits into one run of segments per pattern segment, of any
  length for \<open>**\<close> and a single matching segment otherwise.\<close>

definition segments_fit :: "string \<Rightarrow> string list \<Rightarrow> bool" where
  "segments_fit p run \<longleftrightarrow> p = ''**'' \<or> (\<exists>s. run = [s] \<and> filepath_Match p s)"

lemma matchSegments_iff:
  "matchSegments pat path \<longleftrightarrow> (\<exists>runs. list_all2 segments_fit pat runs \<and> concat runs = path)"
proof (induction pat path rule: matchSegments.induct)
  case (1 path)
  then show ?case by auto
next
  case (2 p pat path)
  show ?case
  proof (cases "p = ''**''")
    case True
    have eq: "(\<exists>run runs. list_all2 segments_fit pat runs \<and> run @ concat runs = rest) \<longleftrightarrow>
        (\<exists>runs. list_all2 segments_fit (p # pat) runs \<and> concat runs = rest)" for rest
    proof
      assume "\<exists>run runs. list_all2 segments_fit pat runs \<and> run @ concat runs = rest"
      then obtain run runs where "list_all2 segments_fit pat runs" "run @ concat runs = rest" by blast
      then have "list_all2 segments_fit (p # pat) (run # runs) \<and> concat (run # runs) = rest"
        by (simp add: segments_fit_def True)
      then show "\<exists>runs. list_all2 segments_fit (p # pat) runs \<and> concat runs = rest" by blast
    next
      assume "\<exists>runs. list_all2 segments_fit (p # pat) runs \<and> concat runs = rest"
      then obtain run runs where "list_all2 segments_fit pat runs" "concat (run # runs) = rest"
        by (auto simp: list_all2_Cons1)
      then show "\<exists>run runs. list_all2 segments_fit pat runs \<and> run @ concat runs = rest" by auto
    qed
    have "(\<exists>runs. list_all2 segments_fit (p # pat) runs \<and> concat runs = path) \<longleftrightarrow>
        (\<exists>run runs. list_all2 segments_fit pat runs \<and> run @ concat runs = path)"
      using eq[of path] by simp
    also have "\<dots> \<longleftrightarrow> (\<exists>runs. list_all2 segments_fit pat runs \<and> concat runs = path) \<or>
        (\<exists>s rest. path = s # rest \<and> (\<exists>run runs. list_all2 segments_fit pat runs \<and> run @ concat runs = rest))"
      (is "?A \<longleftrightarrow> ?B \<or> ?C")
    proof
      assume ?A
      then obtain run runs where r: "list_all2 segments_fit pat runs" "run @ concat runs = path" by blast
      show "?B \<or> ?C"
      proof (cases run)
        case Nil
        with r show ?thesis by auto
      next
        case (Cons a list)
        with r have "path = a # (list @ concat runs)" by simp
        with r(1) show ?thesis by blast
      qed
    next
      assume "?B \<or> ?C"
      then show ?A by (metis append_Cons append_Nil)
    qed
    finally have *: "(\<exists>runs. list_all2 segments_fit (p # pat) runs \<and> concat runs = path) \<longleftrightarrow> ?B \<or> ?C" .
    show ?thesis
    proof (cases "matchSegments pat path")
      case m: True
      with 2(1)[OF True] True * show ?thesis by simp
    next
      case m: False
      show ?thesis
      proof (cases path)
        case Nil
        with m 2(1)[OF True] True * show ?thesis by simp
      next
        case (Cons s rest)
        have "matchSegments (p # pat) rest \<longleftrightarrow> (\<exists>runs. list_all2 segments_fit (p # pat) runs \<and> concat runs = rest)"
          using 2(2)[OF True m Cons] .
        moreover have "matchSegments (p # pat) path \<longleftrightarrow> matchSegments (p # pat) rest"
          using m True Cons by simp
        moreover have "\<not> (\<exists>runs. list_all2 segments_fit pat runs \<and> concat runs = path)"
          using m 2(1)[OF True] by blast
        ultimately show ?thesis using * eq[of rest] Cons by (simp only: list.inject) blast
      qed
    qed
  next
    case False
    have "(\<exists>runs. list_all2 segments_fit (p # pat) runs \<and> concat runs = path) \<longleftrightarrow>
        (\<exists>s rest. path = s # rest \<and> filepath_Match p s \<and>
           (\<exists>runs. list_all2 segments_fit pat runs \<and> concat runs = rest))"
    proof
      assume "\<exists>s rest. path = s # rest \<and> filepath_Match p s \<and>
           (\<exists>runs. list_all2 segments_fit pat runs \<and> concat runs = rest)"
      then obtain s runs where "path = s # concat runs" "filepath_Match p s" "list_all2 segments_fit pat runs"
        by blast
      then have "list_all2 segments_fit (p # pat) ([s] # runs) \<and> concat ([s] # runs) = path"
        by (simp add: segments_fit_def)
      then show "\<exists>runs. list_all2 segments_fit (p # pat) runs \<and> concat runs = path" by blast
    qed (auto simp: list_all2_Cons1 segments_fit_def False)
    with 2(3)[OF False] False show ?thesis by (cases path) auto
  qed
qed

text \<open>C25: a glob pattern matches a path exactly when the path's segments can be divided among the
  pattern's segments, any number of them (also none) to each \<open>**\<close> and one matching segment to
  every other.\<close>

theorem globMatch_iff:
  "globMatch pattern relPath \<longleftrightarrow>
     (\<exists>runs. list_all2 (\<lambda>p run. p = ''**'' \<or> (\<exists>s. run = [s] \<and> filepath_Match p s))
        (str_split (CHR ''/'') pattern) runs \<and> concat runs = str_split (CHR ''/'') relPath)"
  unfolding globMatch_def matchSegments_iff segments_fit_def by simp

subsection \<open>\<open>hashFiles\<close>\<close>

text \<open>
  What the operating system shows of the workspace: \<open>filepath.WalkDir\<close>'s files (paths relative to
  the root) or the error that stopped it, and the content of each file or the error opening or
  reading it. SHA-256 in hexadecimal is a parameter.
\<close>

type_synonym os_error = string

record work_tree =
  wt_walk :: "os_error + string list"
  wt_read :: "string \<Rightarrow> os_error + string"

definition hashFiles :: "(string \<Rightarrow> string) \<Rightarrow> work_tree \<Rightarrow> string list \<Rightarrow> os_error + string" where
  "hashFiles sha256hex t patterns =
     bind_res (wt_walk t) (\<lambda>rels.
       let relPaths = sort (remdups (filter (\<lambda>rel. list_ex (\<lambda>p. globMatch p rel) patterns) rels)) in
       if relPaths = [] then Inr []
       else bind_res (map_res (wt_read t) relPaths) (\<lambda>contents. Inr (sha256hex (concat contents))))"

text \<open>The digest depends on the set of files and the set of patterns only, not on the order in
  which the directory is walked or the patterns are listed.\<close>

theorem hashFiles_order_independent:
  assumes "set rels = set rels'" "set patterns = set patterns'"
  shows "hashFiles sha \<lparr>wt_walk = Inr rels, wt_read = rd\<rparr> patterns =
    hashFiles sha \<lparr>wt_walk = Inr rels', wt_read = rd\<rparr> patterns'"
proof -
  have ex: "list_ex (\<lambda>p. globMatch p rel) patterns = list_ex (\<lambda>p. globMatch p rel) patterns'" for rel
    using assms(2) by (simp add: list_ex_iff)
  have "sort (remdups (filter P rels)) = sort (remdups (filter P rels'))" for P
    using assms(1) by (intro sorted_distinct_set_unique) auto
  then show ?thesis unfolding hashFiles_def ex by (simp add: Let_def)
qed

theorem hashFiles_order_independent_witness:
  "hashFiles (\<lambda>s. s) \<lparr>wt_walk = Inr [''b/go.sum'', ''go.mod'', ''a/go.sum''], wt_read = Inr\<rparr> [''**/go.sum''] =
   Inr ''a/go.sumb/go.sum''"
proof -
  have r: "hashFiles (\<lambda>s. s) \<lparr>wt_walk = Inr [''a/go.sum'', ''b/go.sum'', ''go.mod''], wt_read = Inr\<rparr> [''**/go.sum''] =
   Inr ''a/go.sumb/go.sum''"
    by code_simp
  have "hashFiles (\<lambda>s. s) \<lparr>wt_walk = Inr [''b/go.sum'', ''go.mod'', ''a/go.sum''], wt_read = Inr\<rparr> [''**/go.sum''] =
    hashFiles (\<lambda>s. s) \<lparr>wt_walk = Inr [''a/go.sum'', ''b/go.sum'', ''go.mod''], wt_read = Inr\<rparr> [''**/go.sum'']"
    by (rule hashFiles_order_independent) auto
  with r show ?thesis by simp
qed

end
