(* ===== verification/Expr_Eval.thy ===== *)
theory Expr_Eval
  imports Context Ghaexpr_Parser Hash_Files
begin

text \<open>
  \<open>internal/engine/expr.go\<close>: evaluation of parsed expressions in a context, and the scanner that
  substitutes the \<open>${{ ... }}\<close> parts of a string. What the evaluator takes from outside (JSON
  encoding and decoding, SHA-256, the workspace's files) is a record of functions.
\<close>

record eval_env =
  ev_json_marshal :: "goval \<Rightarrow> string + string"
  ev_json_unmarshal :: "string \<Rightarrow> string + goval"
  ev_sha256hex :: "string \<Rightarrow> string"
  ev_tree :: "string \<Rightarrow> work_tree" \<comment> \<open>of the workspace at a path\<close>

datatype eval_error =
    ParseFailed ExprError
  | PathError path_error
  | IndexNotLiteral
  | UnsupportedPath
  | UnsupportedNode
  | ArrayDerefUnsupported
  | UnknownLogicalOperator
  | UnknownCompareOperator
  | NeedsNumericOperands CompareOpNodeKind
  | WrongArgumentCount string
  | ToJSONFailed string
  | FromJSONFailed string
  | NoWorkspace
  | HashFilesFailed os_error
  | UnsupportedFunction string

definition map_err :: "('e \<Rightarrow> 'f) \<Rightarrow> 'e + 'a \<Rightarrow> 'f + 'a" where
  "map_err f r = (case r of Inl e \<Rightarrow> Inl (f e) | Inr x \<Rightarrow> Inr x)"

lemma map_err_simps [simp]:
  "map_err f (Inl e) = Inl (f e)" "map_err f (Inr x) = Inr x"
  "map_err f r = Inr x \<longleftrightarrow> r = Inr x"
  by (auto simp: map_err_def split: sum.splits)

fun pathFromNode :: "ExprNode \<Rightarrow> eval_error + string list" where
  "pathFromNode (VariableNode name _) = Inr [ToLower name]"
| "pathFromNode (ObjectDerefNode receiver property) =
     bind_res (pathFromNode receiver) (\<lambda>base. Inr (base @ [property]))"
| "pathFromNode (IndexAccessNode operand index) =
     bind_res (pathFromNode operand) (\<lambda>base.
       case index of StringNode v _ \<Rightarrow> Inr (base @ [v]) | _ \<Rightarrow> Inl IndexNotLiteral)"
| "pathFromNode _ = Inl UnsupportedPath"

definition compareValues :: "CompareOpNodeKind \<Rightarrow> goval \<Rightarrow> goval \<Rightarrow> eval_error + goval" where
  "compareValues kind left right =
     (if IsEqualityOp kind then
        (let eq = (toStr left = toStr right)
         in Inr (VBool (if kind = CompareOpNodeKindNotEq then \<not> eq else eq)))
      else case (toNumber left, toNumber right) of
        (Some lf, Some rf) \<Rightarrow>
          (if kind = CompareOpNodeKindLess then Inr (VBool (lf < rf))
           else if kind = CompareOpNodeKindLessEq then Inr (VBool (lf \<le> rf))
           else if kind = CompareOpNodeKindGreater then Inr (VBool (rf < lf))
           else if kind = CompareOpNodeKindGreaterEq then Inr (VBool (rf \<le> lf))
           else Inl UnknownCompareOperator)
      | _ \<Rightarrow> Inl (NeedsNumericOperands kind))"

definition callHashFiles :: "eval_env \<Rightarrow> Context \<Rightarrow> goval list \<Rightarrow> eval_error + goval" where
  "callHashFiles env ctx args =
     (case mget (ctx_github ctx) ''workspace'' of
        Some (VStr workspace) \<Rightarrow>
          (if workspace = [] then Inl NoWorkspace
           else map_err HashFilesFailed
             (bind_res (hashFiles (ev_sha256hex env) (ev_tree env workspace) (map toStr args)) (\<lambda>h. Inr (VStr h))))
      | _ \<Rightarrow> Inl NoWorkspace)"

definition callFunction :: "eval_env \<Rightarrow> Context \<Rightarrow> string \<Rightarrow> goval list \<Rightarrow> eval_error + goval" where
  "callFunction env ctx name args =
     (let f = ToLower name; n = length args in
      if f \<in> {''success'', ''failure'', ''always'', ''cancelled''} then
        (if n \<noteq> 0 then Inl (WrongArgumentCount name) else map_err PathError (callStatusFunc ctx f))
      else if f = ''contains'' then
        (if n \<noteq> 2 then Inl (WrongArgumentCount f)
         else Inr (VBool (str_contains (toStr (args ! 0)) (toStr (args ! 1)))))
      else if f = ''startswith'' then
        (if n \<noteq> 2 then Inl (WrongArgumentCount f)
         else Inr (VBool (HasPrefix (toStr (args ! 0)) (toStr (args ! 1)))))
      else if f = ''endswith'' then
        (if n \<noteq> 2 then Inl (WrongArgumentCount f)
         else Inr (VBool (HasSuffix (toStr (args ! 0)) (toStr (args ! 1)))))
      else if f = ''format'' then
        (if n = 0 then Inl (WrongArgumentCount f) else Inr (VStr (formatGHA (toStr (hd args)) (tl args))))
      else if f = ''join'' then
        (if n < 1 \<or> n > 2 then Inl (WrongArgumentCount f)
         else Inr (VStr (joinValue (args ! 0) (if n = 2 then toStr (args ! 1) else '', ''))))
      else if f = ''tojson'' then
        (if n \<noteq> 1 then Inl (WrongArgumentCount f)
         else map_err ToJSONFailed (bind_res (ev_json_marshal env (args ! 0)) (\<lambda>b. Inr (VStr b))))
      else if f = ''fromjson'' then
        (if n \<noteq> 1 then Inl (WrongArgumentCount f)
         else map_err FromJSONFailed (ev_json_unmarshal env (toStr (args ! 0))))
      else if f = ''hashfiles'' then
        (if n = 0 then Inl (WrongArgumentCount f) else callHashFiles env ctx args)
      else Inl (UnsupportedFunction name))"

definition evalPath :: "Context \<Rightarrow> ExprNode \<Rightarrow> eval_error + goval" where
  "evalPath ctx node = bind_res (pathFromNode node) (\<lambda>path. map_err PathError (resolvePath ctx path))"

fun evalNode :: "eval_env \<Rightarrow> Context \<Rightarrow> ExprNode \<Rightarrow> eval_error + goval" where
  "evalNode env ctx (NullNode _) = Inr VNil"
| "evalNode env ctx (BoolNode b _) = Inr (VBool b)"
| "evalNode env ctx (IntNode i _) = Inr (VFloat (f64_of_int i))"
| "evalNode env ctx (FloatNode f _) = Inr (VFloat f)"
| "evalNode env ctx (StringNode s _) = Inr (VStr s)"
| "evalNode env ctx (VariableNode name tok) = evalPath ctx (VariableNode name tok)"
| "evalNode env ctx (ObjectDerefNode receiver property) = evalPath ctx (ObjectDerefNode receiver property)"
| "evalNode env ctx (IndexAccessNode operand index) = evalPath ctx (IndexAccessNode operand index)"
| "evalNode env ctx (ArrayDerefNode _) = Inl ArrayDerefUnsupported"
| "evalNode env ctx (NotOpNode operand _) =
     bind_res (evalNode env ctx operand) (\<lambda>val. Inr (VBool (\<not> truthy val)))"
| "evalNode env ctx (CompareOpNode kind l r) =
     bind_res (evalNode env ctx l) (\<lambda>left.
       bind_res (evalNode env ctx r) (\<lambda>right. compareValues kind left right))"
| "evalNode env ctx (LogicalOpNode kind l r) =
     bind_res (evalNode env ctx l) (\<lambda>left.
       if kind = LogicalOpNodeKindAnd then (if \<not> truthy left then Inr left else evalNode env ctx r)
       else if kind = LogicalOpNodeKindOr then (if truthy left then Inr left else evalNode env ctx r)
       else Inl UnknownLogicalOperator)"
| "evalNode env ctx (FuncCallNode callee args _) =
     bind_res (map_res (evalNode env ctx) args) (\<lambda>vals. callFunction env ctx callee vals)"

definition parseExpr :: "string \<Rightarrow> eval_error + ExprNode option" where
  "parseExpr expr = map_err ParseFailed (Parse_expr (NewExprLexer (TrimSpace expr @ ''}}'')))"

definition EvalExpression :: "eval_env \<Rightarrow> string \<Rightarrow> Context \<Rightarrow> eval_error + goval" where
  "EvalExpression env expr ctx = bind_res (parseExpr expr) (\<lambda>node.
     case node of None \<Rightarrow> Inl UnsupportedNode | Some n \<Rightarrow> evalNode env ctx n)"

definition unwrap :: "string \<Rightarrow> string" where
  "unwrap expr0 = (let expr = TrimSpace expr0 in
     if HasPrefix expr ''${{'' \<and> HasSuffix expr ''}}''
     then TrimSpace (drop 3 (take (length expr - 2) expr)) else expr)"

definition EvalBool :: "eval_env \<Rightarrow> string \<Rightarrow> Context \<Rightarrow> eval_error + bool" where
  "EvalBool env expr ctx = bind_res (EvalExpression env (unwrap expr) ctx) (\<lambda>val. Inr (truthy val))"

subsection \<open>Substitution\<close>

text \<open>
  The matches of \<open>\$\{\{(.*?)\}\}\<close>: an opening, the shortest text up to a closing on the same line.
\<close>

fun expr_close :: "string \<Rightarrow> string option" where
  "expr_close [] = None"
| "expr_close (c # cs) = (if HasPrefix (c # cs) ''}}'' then Some []
     else if c = newline then None else map_option (Cons c) (expr_close cs))"

datatype segment = Text string | Expr string

definition match_here :: "string \<Rightarrow> string option" where
  "match_here s = (if HasPrefix s ''${{'' then expr_close (drop 3 s) else None)"

function segments :: "string \<Rightarrow> segment list" where
  "segments s = (case s of [] \<Rightarrow> []
     | c # cs \<Rightarrow> (case match_here s of
         Some e \<Rightarrow> Expr e # segments (drop (length e + 5) s)
       | None \<Rightarrow> Text [c] # segments cs))"
  by pat_completeness auto
termination
  by (relation "measure length") auto

declare segments.simps [simp del]

fun seg_value :: "eval_env \<Rightarrow> Context \<Rightarrow> segment \<Rightarrow> eval_error + string" where
  "seg_value env ctx (Text t) = Inr t"
| "seg_value env ctx (Expr e) = bind_res (EvalExpression env (TrimSpace e) ctx) (\<lambda>v. Inr (toStr v))"

text \<open>All matches are evaluated; when some fail, the error of the last one is reported.\<close>

definition SubstituteExpressions :: "eval_env \<Rightarrow> string \<Rightarrow> Context \<Rightarrow> eval_error + string" where
  "SubstituteExpressions env s ctx =
     (let rs = map (seg_value env ctx) (segments s);
          errs = List.map_filter (\<lambda>r. case r of Inl e \<Rightarrow> Some e | Inr _ \<Rightarrow> None) rs
      in if errs = [] then Inr (concat (map (\<lambda>r. case r of Inl _ \<Rightarrow> [] | Inr t \<Rightarrow> t) rs))
         else Inl (last errs))"

subsection \<open>Evaluation of parsed expressions\<close>

text \<open>Errors that say a node or operator is unknown to the evaluator.\<close>

definition internal_error :: "eval_error \<Rightarrow> bool" where
  "internal_error e \<longleftrightarrow> e = UnsupportedNode \<or> e = UnknownLogicalOperator \<or> e = UnknownCompareOperator"

definition no_internal :: "eval_error + 'a \<Rightarrow> bool" where
  "no_internal r \<longleftrightarrow> (case r of Inl e \<Rightarrow> \<not> internal_error e | Inr _ \<Rightarrow> True)"

named_theorems no_internal_intros \<open>that evaluation has no internal error\<close>

lemma no_internal_simps [simp]:
  "no_internal (Inr x)" "no_internal (Inl e) \<longleftrightarrow> \<not> internal_error e"
  by (simp_all add: no_internal_def)

lemma no_internal_bind [no_internal_intros]:
  "no_internal r \<Longrightarrow> (\<And>x. r = Inr x \<Longrightarrow> no_internal (f x)) \<Longrightarrow> no_internal (bind_res r f)"
  by (cases r) auto

lemma no_internal_map_err [no_internal_intros]:
  "(\<And>e. \<not> internal_error (f e)) \<Longrightarrow> no_internal (map_err f r)"
  by (cases r) auto

lemma no_internal_map_res:
  "(\<And>x. x \<in> set xs \<Longrightarrow> no_internal (f x)) \<Longrightarrow> no_internal (map_res f xs)"
  by (induction xs) (auto intro!: no_internal_bind)

lemma no_internal_path: "no_internal (pathFromNode n)"
  by (induction n rule: pathFromNode.induct)
    (auto simp: internal_error_def intro!: no_internal_bind split: ExprNode.split)

lemma no_internal_evalPath [no_internal_intros]: "no_internal (evalPath ctx n)"
  unfolding evalPath_def
  by (intro no_internal_bind no_internal_path no_internal_map_err) (simp add: internal_error_def)

lemma no_internal_compare [no_internal_intros]:
  "k \<noteq> CompareOpNodeKindInvalid \<Longrightarrow> no_internal (compareValues k l r)"
  by (cases k) (auto simp: compareValues_def IsEqualityOp_def internal_error_def split: option.split)

lemma no_internal_call [no_internal_intros]: "no_internal (callFunction env ctx name args)"
  unfolding callFunction_def Let_def callHashFiles_def
  by (auto simp: internal_error_def intro!: no_internal_map_err split: option.split goval.split)

lemma evalNode_no_internal: "node_ok n \<Longrightarrow> no_internal (evalNode env ctx n)"
proof (induction n rule: node_ok.induct)
  case (7 k l r)
  then show ?case by (cases k) (auto intro!: no_internal_intros)
next
  case (8 callee args tok)
  then show ?case by (auto simp: list_all_iff intro!: no_internal_intros no_internal_map_res)
qed (auto simp: internal_error_def intro!: no_internal_intros)

text \<open>C24: evaluating an expression string never meets a nil node or an unknown operator: those
  branches of the evaluator are unreachable from the parser.\<close>

theorem eval_no_internal_error:
  "EvalExpression env expr ctx \<notin> {Inl UnsupportedNode, Inl UnknownLogicalOperator, Inl UnknownCompareOperator}"
proof -
  have "no_internal (EvalExpression env expr ctx)"
    unfolding EvalExpression_def
  proof (rule no_internal_bind)
    show "no_internal (parseExpr expr)"
      by (auto simp: parseExpr_def internal_error_def intro: no_internal_map_err)
    fix node assume "parseExpr expr = Inr node"
    then have p: "Parse_expr (NewExprLexer (TrimSpace expr @ ''}}'')) = Inr node"
      by (simp add: parseExpr_def)
    with Parse_expr_not_nil obtain n where "node = Some n" by (cases node) auto
    with p Parse_expr_node_ok evalNode_no_internal
    show "no_internal (case node of None \<Rightarrow> Inl UnsupportedNode | Some n \<Rightarrow> evalNode env ctx n)" by simp
  qed
  then show ?thesis by (auto simp: no_internal_def internal_error_def)
qed

text \<open>Negation distributes over the short-circuiting operators, with the same value and the
  same error, although \<open>&&\<close> and \<open>||\<close> return operands rather than booleans.\<close>

theorem eval_de_morgan:
  "evalNode env ctx (NotOpNode (LogicalOpNode LogicalOpNodeKindAnd a b) t) =
     evalNode env ctx (LogicalOpNode LogicalOpNodeKindOr (NotOpNode a t1) (NotOpNode b t2)) \<and>
   evalNode env ctx (NotOpNode (LogicalOpNode LogicalOpNodeKindOr a b) t) =
     evalNode env ctx (LogicalOpNode LogicalOpNodeKindAnd (NotOpNode a t1) (NotOpNode b t2))"
  by (cases "evalNode env ctx a"; cases "evalNode env ctx b") (auto simp: truthy_def)

text \<open>On operands that have a number, the four orderings are a total order and its converses:
  \<open><=\<close> is the negation of \<open>>\<close>, \<open>>=\<close> of \<open><\<close>, and one of \<open><=\<close>, \<open>>=\<close> always holds; on any other
  operand each of them is an error.\<close>

theorem compare_order:
  assumes "toNumber l = Some x" "toNumber r = Some y"
  shows "\<exists>lt le :: bool. compareValues CompareOpNodeKindLess l r = Inr (VBool lt) \<and>
    compareValues CompareOpNodeKindLessEq l r = Inr (VBool le) \<and>
    compareValues CompareOpNodeKindGreater l r = Inr (VBool (\<not> le)) \<and>
    compareValues CompareOpNodeKindGreaterEq l r = Inr (VBool (\<not> lt)) \<and> (lt \<longrightarrow> le)"
  using assms float64_linear[of x y] by (auto simp: compareValues_def IsEqualityOp_def less_le_not_le)

theorem compare_order_witness:
  "compareValues CompareOpNodeKindGreaterEq (VFloat (f64_of_int 2)) (VBool True) = Inr (VBool True)"
proof -
  have "compareValues CompareOpNodeKindLess (VFloat (f64_of_int 2)) (VBool True) = Inr (VBool False)"
    by code_simp
  with compare_order[of "VFloat (f64_of_int 2)" "f64_of_int 2" "VBool True" "f64_of_int 1"]
  show ?thesis by (auto simp: toNumber_def)
qed

text \<open>An integer that comes from YAML (a Go \<open>int\<close>, such as a \<open>strategy.matrix\<close> value) cannot
  be compared with \<open><\<close>, \<open><=\<close>, \<open>>\<close> or \<open>>=\<close>: whatever the other operand, it is an error.\<close>

theorem yaml_int_comparison_fails:
  assumes "kind \<notin> {CompareOpNodeKindEq, CompareOpNodeKindNotEq}"
  shows "compareValues kind (VInt i) v = Inl (NeedsNumericOperands kind)"
  using assms by (auto simp: compareValues_def IsEqualityOp_def toNumber_def split: option.split)

definition sample_env :: eval_env where
  "sample_env = \<lparr>ev_json_marshal = (\<lambda>_. Inl ''unsupported''), ev_json_unmarshal = (\<lambda>_. Inl ''unsupported''),
     ev_sha256hex = (\<lambda>s. s), ev_tree = (\<lambda>_. \<lparr>wt_walk = Inr [], wt_read = Inl\<rparr>)\<rparr>"

theorem yaml_int_comparison_fails_witness:
  "EvalExpression sample_env ''matrix.n > 1'' sample_context = Inl (NeedsNumericOperands CompareOpNodeKindGreater)"
proof -
  have "parseExpr ''matrix.n > 1'' = Inr (Some (CompareOpNode CompareOpNodeKindGreater
      (ObjectDerefNode (VariableNode ''matrix'' \<lparr>tok_kind = TokenKindIdent, tok_value = ''matrix'', tok_offset = 0\<rparr>) ''n'')
      (IntNode 1 \<lparr>tok_kind = TokenKindInt, tok_value = ''1'', tok_offset = 11\<rparr>)))"
    by code_simp
  moreover have "resolvePath sample_context [''matrix'', ''n''] = Inr (VInt 2)" by code_simp
  moreover have "ToLower ''matrix'' = ''matrix''" by code_simp
  ultimately show ?thesis
    by (simp add: EvalExpression_def evalPath_def yaml_int_comparison_fails)
qed

subsection \<open>Substitution replaces each expression once\<close>

lemma expr_close_first:
  assumes "\<not> sublist ''}}'' (e @ ''}'')" "newline \<notin> set e"
  shows "expr_close (e @ ''}}'' @ b) = Some e"
  using assms
proof (induction e)
  case (Cons c e)
  have "\<not> HasPrefix (c # e @ ''}}'' @ b) ''}}''"
  proof
    assume p: "HasPrefix (c # e @ ''}}'' @ b) ''}}''"
    then have "HasPrefix (c # e @ ''}'') ''}}''" by (cases e) auto
    then obtain r where "c # e @ ''}'' = ''}}'' @ r" by (auto simp: HasPrefix_iff)
    with Cons.prems(1) show False by (metis append_Cons append_Nil sublist_def)
  qed
  moreover have "\<not> sublist ''}}'' (e @ ''}'')" using Cons.prems(1) by (metis append_Cons sublist_Cons_right)
  moreover have "c \<noteq> newline" using Cons.prems(2) by (metis list.set_intros(1))
  moreover have "newline \<notin> set e" using Cons.prems(2) by simp
  ultimately show ?case using Cons.IH by simp
qed simp

lemma segments_Nil [simp]: "segments [] = []"
  by (simp add: segments.simps)

lemma segments_text:
  assumes "\<not> sublist ''${{'' a" "b \<noteq> [] \<longrightarrow> HasPrefix b ''${{''"
  shows "segments (a @ b) = map (\<lambda>c. Text [c]) a @ segments b"
  using assms
proof (induction a)
  case (Cons c a)
  have "\<not> HasPrefix (c # a @ b) ''${{''"
  proof
    assume p: "HasPrefix (c # a @ b) ''${{''"
    consider "a = []" | d where "a = [d]" | d d' a' where "a = d # d' # a'"
      by (metis list.exhaust)
    then show False
    proof cases
      case 1
      with p Cons.prems(2) show False by (cases b) auto
    next
      case 2
      with p Cons.prems(2) show False by (cases b) auto
    next
      case 3
      with p have "c # a = ''${{'' @ a'" by auto
      with Cons.prems(1) show False by (metis append_Nil sublist_def)
    qed
  qed
  then have m: "match_here (c # a @ b) = None" by (simp only: match_here_def if_False)
  have "\<not> sublist ''${{'' a" using Cons.prems(1) by (metis sublist_Cons_right)
  with m Cons.IH Cons.prems(2) show ?case by (simp add: segments.simps[of "c # a @ b"])
qed simp

lemma segments_expr:
  assumes "\<not> sublist ''}}'' (e @ ''}'')" "newline \<notin> set e"
  shows "segments (''${{'' @ e @ ''}}'' @ b) = Expr e # segments b"
proof -
  have "match_here (''${{'' @ e @ ''}}'' @ b) = Some e"
    using expr_close_first[OF assms, of b] by (simp add: match_here_def)
  moreover have "drop (length e + 5) (''${{'' @ e @ ''}}'' @ b) = b"
    by (simp add: numeral_eq_Suc)
  ultimately show ?thesis by (subst segments.simps) simp
qed

definition seg_errors :: "(eval_error + string) list \<Rightarrow> eval_error list" where
  "seg_errors rs = List.map_filter (\<lambda>r. case r of Inl e \<Rightarrow> Some e | Inr _ \<Rightarrow> None) rs"

lemma seg_errors_simps [simp]:
  "seg_errors [] = []" "seg_errors (Inl e # rs) = e # seg_errors rs" "seg_errors (Inr t # rs) = seg_errors rs"
  "seg_errors (rs @ rs') = seg_errors rs @ seg_errors rs'"
  by (simp_all add: seg_errors_def List.map_filter_def)

lemma seg_errors_map_Inr [simp]: "seg_errors (map (\<lambda>x. Inr (f x)) xs) = []"
  by (induction xs) simp_all

lemma Substitute_Inr_iff:
  "SubstituteExpressions env s ctx = Inr r \<longleftrightarrow>
     (\<exists>ts. map (seg_value env ctx) (segments s) = map Inr ts \<and> r = concat ts)"
proof -
  have "(if seg_errors rs = [] then Inr (concat (map (\<lambda>r. case r of Inl _ \<Rightarrow> [] | Inr t \<Rightarrow> t) rs))
      else Inl (last (seg_errors rs))) = Inr r \<longleftrightarrow> (\<exists>ts. rs = map Inr ts \<and> r = concat ts)"
    for rs :: "(eval_error + string) list"
  proof -
    have "seg_errors rs = [] \<longleftrightarrow> (\<exists>ts. rs = map Inr ts)"
    proof (induction rs)
      case (Cons x rs)
      then show ?case by (cases x) (auto simp: Cons_eq_map_conv)
    qed simp
    moreover have "concat (map (\<lambda>r. case r of Inl _ \<Rightarrow> [] | Inr t \<Rightarrow> t) rs) = concat ts"
      if "rs = map Inr ts" for ts
      unfolding that by (induction ts) simp_all
    ultimately show ?thesis by auto
  qed
  then show ?thesis by (simp only: SubstituteExpressions_def Let_def seg_errors_def)
qed

lemma seg_value_text: "map (seg_value env ctx) (map (\<lambda>c. Text [c]) a) = map Inr (map (\<lambda>c. [c]) a)"
  by simp

lemma concat_single: "concat (map (\<lambda>c. [c]) a) = a"
  by (induction a) auto

text \<open>Substitution replaces the first expression by its value as text and goes on after it: the
  text before is copied, and the value itself is not scanned for expressions again.\<close>

theorem substitute_first_expression:
  assumes "\<not> sublist ''${{'' a" "\<not> sublist ''}}'' (e @ ''}'')" "newline \<notin> set e"
    "EvalExpression env (TrimSpace e) ctx = Inr v" "SubstituteExpressions env b ctx = Inr r"
  shows "SubstituteExpressions env (a @ ''${{'' @ e @ ''}}'' @ b) ctx = Inr (a @ toStr v @ r)"
proof -
  from assms(5) obtain ts where ts: "map (seg_value env ctx) (segments b) = map Inr ts" "r = concat ts"
    by (auto simp: Substitute_Inr_iff)
  have "segments (a @ ''${{'' @ e @ ''}}'' @ b) = map (\<lambda>c. Text [c]) a @ Expr e # segments b"
    using segments_text[OF assms(1), of "''${{'' @ e @ ''}}'' @ b"] segments_expr[OF assms(2,3)] by simp
  then have "map (seg_value env ctx) (segments (a @ ''${{'' @ e @ ''}}'' @ b)) =
      map Inr (map (\<lambda>c. [c]) a @ toStr v # ts)"
    using ts(1) assms(4) by simp
  then show ?thesis unfolding Substitute_Inr_iff
    by (intro exI[of _ "map (\<lambda>c. [c]) a @ toStr v # ts"]) (simp add: ts(2) concat_single)
qed

theorem substitute_first_expression_witness:
  "SubstituteExpressions sample_env ''ref=${{ github.ref }};${{env.CI}}'' sample_context = Inr ''ref=main;true''"
proof -
  have "SubstituteExpressions sample_env (''ref='' @ ''${{'' @ '' github.ref '' @ ''}}'' @ '';${{env.CI}}'') sample_context =
    Inr (''ref='' @ toStr (VStr ''main'') @ '';true'')"
    by (rule substitute_first_expression) code_simp+
  moreover have "toStr (VStr ''main'') = ''main''" by code_simp
  ultimately show ?thesis by simp
qed

text \<open>A string without \<open>${{\<close> is not changed.\<close>

theorem substitute_plain_text:
  assumes "\<not> sublist ''${{'' s"
  shows "SubstituteExpressions env s ctx = Inr s"
  using segments_text[OF assms, of "[]"] unfolding Substitute_Inr_iff
  by (intro exI[of _ "map (\<lambda>c. [c]) s"]) (simp add: concat_single)

theorem substitute_plain_text_witness:
  "SubstituteExpressions sample_env ''echo $HOME {{x}}'' sample_context = Inr ''echo $HOME {{x}}''"
  by (rule substitute_plain_text) code_simp

text \<open>A condition made of two \<open>${{ }}\<close> parts is cut at the first closing: in every context
  \<open>${{ false }} || ${{ true }}\<close> is false, although \<open>false || true\<close> is true.\<close>

theorem condition_stops_at_first_close:
  "EvalBool env ''${{ false }} || ${{ true }}'' ctx = Inr False \<and>
   EvalBool env ''${{ false || true }}'' ctx = Inr True"
proof -
  have p: "parseExpr (unwrap ''${{ false }} || ${{ true }}'') = Inr (Some (BoolNode False
      \<lparr>tok_kind = TokenKindIdent, tok_value = ''false'', tok_offset = 0\<rparr>))"
    by code_simp
  have q: "parseExpr (unwrap ''${{ false || true }}'') = Inr (Some (LogicalOpNode LogicalOpNodeKindOr
      (BoolNode False \<lparr>tok_kind = TokenKindIdent, tok_value = ''false'', tok_offset = 0\<rparr>)
      (BoolNode True \<lparr>tok_kind = TokenKindIdent, tok_value = ''true'', tok_offset = 9\<rparr>)))"
    by code_simp
  from p q show ?thesis by (simp add: EvalBool_def EvalExpression_def truthy_def)
qed

end
