(* ===== verification/Paths.thy ===== *)
theory Paths
  imports Prelude
begin

text \<open>
  Slash-separated paths as \<open>path/filepath\<close> handles them (\<open>Clean\<close>, \<open>Join\<close>, \<open>Dir\<close>, \<open>Base\<close>), and files
  that are written at an offset, which the cache and the artifact server both rely on.
\<close>

subsection \<open>Clean, Join, Dir, Base\<close>

abbreviation slash :: char where "slash \<equiv> CHR ''/''"

text \<open>One segment on the stack of segments kept so far, the last first.\<close>

definition clean_seg :: "bool \<Rightarrow> string list \<Rightarrow> string \<Rightarrow> string list" where
  "clean_seg rooted out seg =
     (if seg = [] \<or> seg = ''.'' then out
      else if seg = ''..'' then
        (if out \<noteq> [] \<and> hd out \<noteq> ''..'' then tl out else if rooted then out else seg # out)
      else seg # out)"

definition clean_segs :: "bool \<Rightarrow> string list \<Rightarrow> string list" where
  "clean_segs rooted segs = rev (fold (\<lambda>seg out. clean_seg rooted out seg) segs [])"

definition is_rooted :: "string \<Rightarrow> bool" where
  "is_rooted p \<longleftrightarrow> p \<noteq> [] \<and> hd p = slash"

text \<open>The path of a list of segments.\<close>

definition render :: "bool \<Rightarrow> string list \<Rightarrow> string" where
  "render rooted segs = (if rooted then slash # str_join segs [slash]
     else if segs = [] then ''.'' else str_join segs [slash])"

definition Clean :: "string \<Rightarrow> string" where
  "Clean p = (if p = [] then ''.'' else render (is_rooted p) (clean_segs (is_rooted p) (str_split slash p)))"

definition Join :: "string list \<Rightarrow> string" where
  "Join elems = (let es = filter (\<lambda>e. e \<noteq> []) elems in
     if es = [] then [] else Clean (str_join es [slash]))"

text \<open>\<open>Dir\<close>: everything before the last slash, cleaned.\<close>

definition Dir :: "string \<Rightarrow> string" where
  "Dir p = (case last_index p slash of
     None \<Rightarrow> ''.''
   | Some i \<Rightarrow> Clean (take (i + 1) p))"

definition trim_slashes :: "string \<Rightarrow> string" where
  "trim_slashes p = rev (dropWhile (\<lambda>c. c = slash) (rev p))"

definition Base :: "string \<Rightarrow> string" where
  "Base p = (if p = [] then ''.'' else let q = trim_slashes p in
     if q = [] then ''/'' else last (str_split slash q))"

subsubsection \<open>Segments\<close>

text \<open>A segment a cleaned path can hold, and the cleaned lists: \<open>..\<close> only at the front.\<close>

definition plain_seg :: "string \<Rightarrow> bool" where
  "plain_seg s \<longleftrightarrow> s \<noteq> [] \<and> s \<noteq> ''.'' \<and> s \<noteq> ''..'' \<and> slash \<notin> set s"

definition clean_list :: "bool \<Rightarrow> string list \<Rightarrow> bool" where
  "clean_list rooted segs \<longleftrightarrow>
     (\<exists>n ss. segs = replicate n ''..'' @ ss \<and> list_all plain_seg ss \<and> (rooted \<longrightarrow> n = 0))"

lemma clean_seg_step:
  assumes "clean_list rooted (rev out)" "slash \<notin> set seg"
  shows "clean_list rooted (rev (clean_seg rooted out seg))"
proof -
  from assms(1) obtain n ss where o': "rev out = replicate n ''..'' @ ss" "list_all plain_seg ss" "rooted \<longrightarrow> n = 0"
    by (auto simp: clean_list_def)
  then have out: "out = rev ss @ replicate n ''..''" by (metis rev_append rev_replicate rev_rev_ident)
  consider "seg = [] \<or> seg = ''.''" | "seg = ''..''" | "plain_seg seg"
    using assms(2) by (auto simp: plain_seg_def)
  then show ?thesis
  proof cases
    case 1
    with assms(1) show ?thesis by (auto simp: clean_seg_def)
  next
    case 2
    show ?thesis
    proof (cases ss rule: rev_cases)
      case Nil
      then have rep: "out = replicate n ''..''" using out by simp
      have "clean_seg rooted out seg = (if rooted then out else seg # out)"
        using 2 rep by (cases n) (auto simp: clean_seg_def)
      then have "rev (clean_seg rooted out seg) = (if rooted then rev out else replicate (Suc n) ''..'')"
        using 2 rep by (auto simp: replicate_append_same)
      with assms(1) show ?thesis
        by (auto simp: clean_list_def intro!: exI[of _ "Suc n"])
    next
      case (snoc ys y)
      then have "plain_seg y" using o'(2) by simp
      then have "y \<noteq> ''..''" by (simp add: plain_seg_def)
      with 2 snoc out have "rev (clean_seg rooted out seg) = replicate n ''..'' @ ys"
        by (simp add: clean_seg_def rev_replicate)
      with snoc o'(2,3) show ?thesis by (auto simp: clean_list_def)
    qed
  next
    case 3
    then have "rev (clean_seg rooted out seg) = replicate n ''..'' @ (ss @ [seg])"
      using o'(1) by (auto simp: clean_seg_def plain_seg_def)
    moreover have "list_all plain_seg (ss @ [seg])" using 3 o'(2) by simp
    ultimately show ?thesis unfolding clean_list_def using o'(3) by blast
  qed
qed

lemma clean_segs_clean:
  assumes "\<forall>s \<in> set segs. slash \<notin> set s"
  shows "clean_list rooted (clean_segs rooted segs)"
proof -
  have "clean_list rooted (rev (fold (\<lambda>seg out. clean_seg rooted out seg) segs out))"
    if "clean_list rooted (rev out)" for out
    using assms that
    by (induction segs arbitrary: out) (auto intro: clean_seg_step)
  from this[of "[]"] show ?thesis by (simp add: clean_segs_def clean_list_def)
qed

lemma clean_segs_plain:
  assumes "list_all plain_seg ss"
  shows "fold (\<lambda>seg out. clean_seg rooted out seg) ss out = rev ss @ out"
  using assms by (induction ss arbitrary: out) (auto simp: clean_seg_def plain_seg_def)

lemma clean_segs_id:
  assumes "clean_list rooted segs"
  shows "clean_segs rooted segs = segs"
proof -
  from assms obtain n ss where s: "segs = replicate n ''..'' @ ss" "list_all plain_seg ss" "rooted \<longrightarrow> n = 0"
    by (auto simp: clean_list_def)
  have "fold (\<lambda>seg out. clean_seg rooted out seg) (replicate n ''..'') (replicate k ''..'') = replicate (n + k) ''..''"
    if "\<not> rooted" for k
  proof (induction n arbitrary: k)
    case (Suc n)
    have "clean_seg rooted (replicate k ''..'') ''..'' = replicate (Suc k) ''..''"
      using that by (cases k) (simp_all add: clean_seg_def)
    with Suc[of "Suc k"] show ?case by simp
  qed simp
  from this[of 0] s show ?thesis
    by (cases rooted) (simp_all add: clean_segs_def clean_segs_plain)
qed

subsubsection \<open>Paths below a directory\<close>

lemma plain_list_clean: "list_all plain_seg ss \<Longrightarrow> clean_list rooted ss"
proof -
  assume "list_all plain_seg ss"
  then have "ss = replicate 0 ''..'' @ ss \<and> list_all plain_seg ss \<and> (rooted \<longrightarrow> (0::nat) = 0)" by simp
  then show ?thesis unfolding clean_list_def by blast
qed

lemma clean_list_rooted: "clean_list True segs \<Longrightarrow> list_all plain_seg segs"
  by (auto simp: clean_list_def)

lemma clean_list_no_slash: "clean_list rooted segs \<Longrightarrow> \<forall>s \<in> set segs. slash \<notin> set s \<and> s \<noteq> []"
proof -
  assume "clean_list rooted segs"
  then obtain n ss where s: "segs = replicate n ''..'' @ ss" "list_all plain_seg ss"
    unfolding clean_list_def by blast
  have "slash \<notin> set s \<and> s \<noteq> []" if "s \<in> set segs" for s
  proof (cases "s = ''..''")
    case False
    with that s(1) have "s \<in> set ss" by (auto simp: set_replicate_conv_if split: if_splits)
    with s(2) show ?thesis by (simp add: list_all_iff plain_seg_def)
  qed simp
  then show ?thesis by blast
qed

lemma split_render:
  assumes "clean_list rooted segs"
  shows "str_split slash (render rooted segs) =
    (if rooted then [] # (if segs = [] then [[]] else segs) else if segs = [] then [''.''] else segs)"
proof -
  have "segs \<noteq> [] \<Longrightarrow> str_split slash (str_join segs [slash]) = segs"
    using clean_list_no_slash[OF assms] by (intro str_split_join) auto
  then show ?thesis by (auto simp: render_def)
qed

lemma is_rooted_render:
  assumes "clean_list rooted segs"
  shows "is_rooted (render rooted segs) \<longleftrightarrow> rooted" "render rooted segs \<noteq> []"
proof -
  have h: "hd (str_join segs [slash]) \<noteq> slash \<and> str_join segs [slash] \<noteq> []" if "segs \<noteq> []"
  proof -
    from that obtain s ss where s: "segs = s # ss" by (cases segs) auto
    with clean_list_no_slash[OF assms] have "slash \<notin> set s" "s \<noteq> []" by auto
    then show ?thesis unfolding s by (cases ss; cases s) auto
  qed
  then show "is_rooted (render rooted segs) \<longleftrightarrow> rooted" "render rooted segs \<noteq> []"
    by (auto simp: render_def is_rooted_def)
qed

lemma Clean_segs: "p \<noteq> [] \<Longrightarrow> \<exists>segs. clean_list (is_rooted p) segs \<and> Clean p = render (is_rooted p) segs"
  using clean_segs_clean[of "str_split slash p" "is_rooted p"] str_split_no_sep[of _ slash p]
  by (auto simp: Clean_def)

lemma clean_segs_skip:
  "clean_segs rooted ([] # xs) = clean_segs rooted xs"
  "clean_segs rooted [''.''] = []" "clean_segs rooted [] = []"
  by (simp_all add: clean_segs_def clean_seg_def)

lemma Clean_render:
  assumes "clean_list rooted segs"
  shows "Clean (render rooted segs) = render rooted segs"
proof -
  have c: "Clean (render rooted segs) = render rooted (clean_segs rooted (str_split slash (render rooted segs)))"
    using is_rooted_render[OF assms] by (simp add: Clean_def)
  have "clean_segs rooted (str_split slash (render rooted segs)) = segs"
    unfolding split_render[OF assms] using clean_segs_id[OF assms]
    by (cases "segs = []"; cases rooted) (simp_all only: clean_segs_skip if_True if_False)
  with c show ?thesis by simp
qed

text \<open>\<open>Clean\<close> is idempotent: cleaning a cleaned path changes nothing.\<close>

theorem Clean_idempotent: "Clean (Clean p) = Clean p"
proof (cases "p = []")
  case True
  then show ?thesis by (simp add: Clean_def) code_simp
next
  case False
  then show ?thesis using Clean_segs[OF False] Clean_render by metis
qed

lemma clean_seg_skip: "clean_seg rooted out [] = out" "clean_seg rooted out ''.'' = out"
  by (simp_all add: clean_seg_def)

text \<open>Joining a cleaned relative path without leading \<open>..\<close> to a rooted directory appends segments.\<close>

lemma str_split_joined: "str_split c (a @ c # b) = str_split c a @ str_split c b"
  by (induction a) (auto split: list.splits)

lemma Join_below:
  assumes "list_all plain_seg R" "list_all plain_seg S"
  shows "Join [render True R, render rooted S] = render True (R @ S)"
proof -
  note R = plain_list_clean[OF assms(1), of True] and S = plain_list_clean[OF assms(2), of rooted]
  have "Join [render True R, render rooted S] = Clean (render True R @ slash # render rooted S)"
    using is_rooted_render(2)[OF R] is_rooted_render(2)[OF S] by (simp add: Join_def)
  also have "\<dots> = render True (clean_segs True (str_split slash (render True R @ slash # render rooted S)))"
    by (simp add: Clean_def is_rooted_def render_def)
  also have "str_split slash (render True R @ slash # render rooted S) =
      ([] # (if R = [] then [[]] else R)) @
      (if rooted then [] # (if S = [] then [[]] else S) else if S = [] then [''.''] else S)"
    by (simp only: str_split_joined split_render[OF R] split_render[OF S] if_True)
  also have "clean_segs True \<dots> = R @ S"
    using assms by (simp add: clean_segs_def clean_segs_plain clean_seg_skip)
  finally show ?thesis .
qed

text \<open>An absolute, cleaned directory, as the segments below the root.\<close>

definition clean_root :: "string \<Rightarrow> bool" where
  "clean_root root \<longleftrightarrow> is_rooted root \<and> Clean root = root"

lemma clean_root_segs:
  assumes "clean_root root"
  obtains R where "list_all plain_seg R" "root = render True R"
proof -
  from assms have "root \<noteq> []" "is_rooted root" by (auto simp: clean_root_def is_rooted_def)
  from Clean_segs[OF this(1)] this(2) assms obtain segs where
    s: "clean_list True segs" "root = render True segs" by (auto simp: clean_root_def)
  from s(1) have "list_all plain_seg segs" by (rule clean_list_rooted)
  with s(2) that show ?thesis by blast
qed

lemma Join_root:
  assumes "list_all plain_seg R" "filter (\<lambda>e. e \<noteq> []) xs = ys" "ys \<noteq> []"
  shows "Join (render True R # xs) = render True (clean_segs True (R @ str_split slash (str_join ys [slash])))"
proof -
  note R = plain_list_clean[OF assms(1), of True]
  have "Join (render True R # xs) = Clean (render True R @ slash # str_join ys [slash])"
    using is_rooted_render(2)[OF R] assms(2,3) by (simp add: Join_def str_join_Cons)
  also have "\<dots> = render True (clean_segs True (str_split slash (render True R @ slash # str_join ys [slash])))"
    by (simp add: Clean_def is_rooted_def render_def)
  also have "str_split slash (render True R @ slash # str_join ys [slash]) =
      ([] # (if R = [] then [[]] else R)) @ str_split slash (str_join ys [slash])"
    by (simp only: str_split_joined split_render[OF R] if_True)
  also have "clean_segs True \<dots> = clean_segs True (R @ str_split slash (str_join ys [slash]))"
    by (simp add: clean_segs_def clean_seg_skip)
  finally show ?thesis .
qed

text \<open>\<open>Dir\<close> of a path below the root drops its last segment.\<close>

lemma last_index_app:
  assumes "c \<notin> set b"
  shows "last_index (a @ c # b) c = Some (length a)"
proof -
  have "takeWhile (\<lambda>d. d \<noteq> c) (rev (a @ c # b)) = rev b"
    using assms by (subst rev_append, subst rev.simps, subst append_assoc, subst takeWhile_append2) auto
  then show ?thesis by (simp add: last_index_def)
qed

lemma str_join_snoc: "ws \<noteq> [] \<Longrightarrow> str_join (ws @ [w]) sep = str_join ws sep @ sep @ w"
proof (induction ws)
  case (Cons v ws)
  then show ?case by (cases "ws = []") (simp_all add: str_join_Cons)
qed simp

lemma clean_segs_trailing: "clean_segs rooted (xs @ [[]]) = clean_segs rooted xs"
  by (simp add: clean_segs_def clean_seg_def)

lemma Dir_render:
  assumes "list_all plain_seg (S @ [s])"
  shows "Dir (render True (S @ [s])) = render True S"
proof -
  have S: "list_all plain_seg S" and s: "slash \<notin> set s" using assms by (simp_all add: plain_seg_def)
  note cl = plain_list_clean[OF S, of True]
  show ?thesis
  proof (cases "S = []")
    case True
    have "last_index ([] @ slash # s) slash = Some 0" using last_index_app[OF s, of "[]"] by simp
    moreover have "Clean [slash] = render True []" by code_simp
    ultimately show ?thesis using True by (simp add: Dir_def render_def)
  next
    case False
    let ?a = "slash # str_join S [slash]"
    have r: "render True (S @ [s]) = ?a @ slash # s" using False by (simp add: render_def str_join_snoc)
    have "Dir (render True (S @ [s])) = Clean (?a @ [slash])"
      unfolding r Dir_def last_index_app[OF s] option.case by simp
    also have "\<dots> = render True (clean_segs True (str_split slash (?a @ [slash])))"
      by (simp add: Clean_def is_rooted_def)
    also have "str_split slash (?a @ [slash]) = ([] # S) @ [[]]"
    proof -
      have "str_split slash (?a @ slash # []) = str_split slash ?a @ str_split slash []" by (rule str_split_joined)
      moreover have "str_split slash (render True S) = [] # S" using split_render[OF cl] False by simp
      ultimately show ?thesis by (simp add: render_def)
    qed
    also have "clean_segs True \<dots> = S"
      unfolding clean_segs_trailing clean_segs_skip by (rule clean_segs_id[OF cl])
    finally show ?thesis .
  qed
qed
subsection \<open>Writing at an offset\<close>

text \<open>A file opened without truncation, after \<open>Seek(offset)\<close> and a copy: a gap reads as zero bytes.\<close>

definition write_at :: "nat \<Rightarrow> string \<Rightarrow> string \<Rightarrow> string" where
  "write_at offset data old = (if data = [] then old else
     take offset old @ replicate (offset - length old) (CHR 0x00) @ data @ drop (offset + length data) old)"

lemma length_write_at [simp]:
  "length (write_at off d old) = (if d = [] then length old else max (length old) (off + length d))"
  by (auto simp: write_at_def min_def max_def)

lemma nth_write_at:
  assumes "i < length (write_at off d old)"
  shows "write_at off d old ! i =
    (if off \<le> i \<and> i < off + length d then d ! (i - off) else if i < length old then old ! i else CHR 0x00)"
  using assms by (auto simp: write_at_def nth_append min_def split: if_splits)

text \<open>A chunk of a content, and a set of chunks that leaves no byte out.\<close>

definition chunk_of :: "string \<Rightarrow> nat \<times> string \<Rightarrow> bool" where
  "chunk_of c ch \<longleftrightarrow> (case ch of (off, d) \<Rightarrow> off + length d \<le> length c \<and> d = take (length d) (drop off c))"

definition chunks_cover :: "string \<Rightarrow> (nat \<times> string) list \<Rightarrow> bool" where
  "chunks_cover c chs \<longleftrightarrow>
     list_all (\<lambda>i. list_ex (\<lambda>(off, d). off \<le> i \<and> i < off + length d) chs) [0..<length c]"

definition write_chunks :: "(nat \<times> string) list \<Rightarrow> string \<Rightarrow> string" where
  "write_chunks chs old = fold (\<lambda>(off, d). write_at off d) chs old"

lemma write_chunks_nth:
  assumes "list_all (chunk_of c) chs" "length old \<le> length c"
    "\<forall>i < length c. (i < length old \<and> old ! i = c ! i) \<or> (\<exists>(off, d) \<in> set chs. off \<le> i \<and> i < off + length d)"
  shows "write_chunks chs old = c"
  using assms
proof (induction chs arbitrary: old)
  case Nil
  then have "\<forall>i < length c. i < length old \<and> old ! i = c ! i" by simp
  with Nil.prems(2) show ?case
    by (auto simp: write_chunks_def intro!: nth_equalityI) (metis le_antisym not_le_imp_less less_irrefl)
next
  case (Cons ch chs)
  obtain off d where ch: "ch = (off, d)" by (cases ch)
  with Cons.prems(1) have d: "off + length d \<le> length c" "d = take (length d) (drop off c)"
    by (simp_all add: chunk_of_def)
  have dn: "d ! k = c ! (off + k)" if "k < length d" for k
    using d that by (metis (no_types, lifting) add_leE nth_drop nth_take)
  let ?n = "write_at off d old"
  have len: "length ?n \<le> length c" using Cons.prems(2) d(1) by simp
  have "(i < length ?n \<and> ?n ! i = c ! i) \<or> (\<exists>(off, d) \<in> set chs. off \<le> i \<and> i < off + length d)"
    if i: "i < length c" for i
  proof (cases "off \<le> i \<and> i < off + length d")
    case True
    then have il: "i < length ?n" by auto
    moreover have "?n ! i = c ! i" using True dn[of "i - off"] by (subst nth_write_at[OF il]) auto
    ultimately show ?thesis by blast
  next
    case False
    with Cons.prems(3) i ch consider "i < length old" "old ! i = c ! i"
      | "\<exists>(off, d) \<in> set chs. off \<le> i \<and> i < off + length d" by fastforce
    then show ?thesis
    proof cases
      case 1
      then have il: "i < length ?n" by auto
      with 1 False show ?thesis by (subst nth_write_at[OF il]) auto
    qed blast
  qed
  with Cons.IH[of ?n] Cons.prems(1) len ch show ?case by (simp add: write_chunks_def)
qed

end
