(* ===== verification/Commands.thy ===== *)
theory Commands
  imports Paths
begin

text \<open>
  \<open>internal/commands\<close>: the workflow-command protocol. \<open>files.go\<close> parses the files a step writes
  (\<open>GITHUB_ENV\<close>, \<open>GITHUB_OUTPUT\<close>, \<open>GITHUB_PATH\<close>), \<open>legacy.go\<close> and \<open>annotations.go\<close> the commands
  in its output, and \<open>RedactMasks\<close> hides the masked values. A file is its content, or the error
  opening or reading it.
\<close>

subsection \<open>Command files\<close>

record FileSet =
  fs_env :: string
  fs_path :: string
  fs_output :: string
  fs_summary :: string
  fs_state :: string

text \<open>The file names below the directory; \<open>CreateFileSet\<close> creates them empty.\<close>

definition FileSet_names :: "string \<Rightarrow> FileSet" where
  "FileSet_names dir = \<lparr>fs_env = Join [dir, ''github_env''], fs_path = Join [dir, ''github_path''],
     fs_output = Join [dir, ''github_output''], fs_summary = Join [dir, ''github_step_summary''],
     fs_state = Join [dir, ''github_state'']\<rparr>"

text \<open>
  \<open>bufio.Scanner\<close>: lines without their newline and a carriage return before it; an unterminated
  last line counts when it is not empty; a line of 64 KiB or more stops the scan with an error.
\<close>

definition raw_lines :: "string \<Rightarrow> string list" where
  "raw_lines data = (let ls = str_split newline data in if last ls = [] then butlast ls else ls)"

definition scan_lines :: "string \<Rightarrow> string list" where
  "scan_lines data = map (\<lambda>l. TrimSuffix l [CHR 0x0D]) (raw_lines data)"

definition line_too_long :: "string \<Rightarrow> bool" where
  "line_too_long data \<longleftrightarrow> list_ex (\<lambda>l. int (length l) \<ge> 65536) (raw_lines data)"

text \<open>The lines up to the delimiter line (or the end), and the lines after it.\<close>

definition heredoc_value :: "string \<Rightarrow> string list \<Rightarrow> string list" where
  "heredoc_value delim ls = takeWhile (\<lambda>l. l \<noteq> delim) ls"

definition heredoc_rest :: "string \<Rightarrow> string list \<Rightarrow> string list" where
  "heredoc_rest delim ls = drop 1 (dropWhile (\<lambda>l. l \<noteq> delim) ls)"

lemma heredoc_rest_length: "length (heredoc_rest delim ls) \<le> length ls"
  using length_dropWhile_le[of "\<lambda>l. l \<noteq> delim" ls] by (simp add: heredoc_rest_def)

function kv_lines :: "string list \<Rightarrow> string smap \<Rightarrow> string smap" where
  "kv_lines [] result = result"
| "kv_lines (line # ls) result =
     (if line = [] then kv_lines ls result
      else case str_index line ''<<'' of
        Some idx \<Rightarrow> (let name = take idx line; delim = drop (idx + 2) line in
          kv_lines (heredoc_rest delim ls)
            (mput name (str_join (heredoc_value delim ls) [newline]) result))
      | None \<Rightarrow> (case str_index line ''='' of
          Some idx \<Rightarrow> kv_lines ls (mput (take idx line) (drop (idx + 1) line) result)
        | None \<Rightarrow> kv_lines ls result))"
  by pat_completeness auto
termination
  by (relation "measure (\<lambda>(ls, r). length ls)") (auto simp: le_imp_less_Suc heredoc_rest_length)

datatype file_error = OpenFailed string | LineTooLong

definition ParseKeyValueFile :: "string + string \<Rightarrow> file_error + string smap" where
  "ParseKeyValueFile file = (case file of Inl e \<Rightarrow> Inl (OpenFailed e)
     | Inr data \<Rightarrow> if line_too_long data then Inl LineTooLong
         else Inr (kv_lines (scan_lines data) []))"

definition ParseLines :: "string + string \<Rightarrow> file_error + string list" where
  "ParseLines file = (case file of Inl e \<Rightarrow> Inl (OpenFailed e)
     | Inr data \<Rightarrow> Inr (filter (\<lambda>l. l \<noteq> []) (str_split newline data)))"

subsection \<open>Deprecated output commands\<close>

text \<open>A match of \<open>PREFIX name STOP... value\<close> at the start of a line: name, value and length. The
  name may run over line ends, the value ends with its line.\<close>

definition legacy_match :: "string \<Rightarrow> string \<Rightarrow> string \<Rightarrow> (string \<times> string \<times> nat) option" where
  "legacy_match pre close s =
     (if HasPrefix s pre then
        (let r = drop (length pre) s; name = takeWhile (\<lambda>c. c \<noteq> hd close) r; t = drop (length name) r
         in if name \<noteq> [] \<and> HasPrefix t close then
              (let val = takeWhile (\<lambda>c. c \<noteq> newline) (drop (length close) t)
               in Some (name, val, length pre + length name + length close + length val))
            else None)
      else None)"

lemma legacy_match_pos: "legacy_match pre close s = Some (name, val, n) \<Longrightarrow> 0 < n \<and> s \<noteq> []"
  by (auto simp: legacy_match_def Let_def split: if_splits)

function legacy_find :: "string \<Rightarrow> string \<Rightarrow> bool \<Rightarrow> string \<Rightarrow> (string \<times> string) list" where
  "legacy_find pre close bol s = (case (if bol then legacy_match pre close s else None) of
     Some (name, val, n) \<Rightarrow> (name, val) # legacy_find pre close False (drop n s)
   | None \<Rightarrow> (case s of [] \<Rightarrow> [] | c # cs \<Rightarrow> legacy_find pre close (c = newline) cs))"
  by pat_completeness auto
termination
  by (relation "measure (\<lambda>(pre, close, bol, s). length s)")
    (auto dest!: legacy_match_pos sym[of "Some _"] split: if_splits)

declare legacy_find.simps [simp del]

definition ParseLegacyOutputs :: "string \<Rightarrow> string smap" where
  "ParseLegacyOutputs stdout =
     fold (\<lambda>(k, v). mput k v)
       (legacy_find ''::set-output name='' ''::'' True stdout @
        legacy_find ''##[set-output name='' '';]'' True stdout) []"

subsection \<open>Log commands and masks\<close>

definition is_re_space :: "char \<Rightarrow> bool" where
  "is_re_space c \<longleftrightarrow> c \<in> {CHR '' '', CHR 0x09, CHR 0x0A, CHR 0x0C, CHR 0x0D}"

definition command_arg :: "string \<Rightarrow> string \<Rightarrow> string option" where
  "command_arg cmd line = (if HasPrefix line cmd then Some (drop (length cmd) line) else None)"

text \<open>\<open>::LEVEL::message\<close> or \<open>::LEVEL params::message\<close>.\<close>

definition annotation_match :: "string \<Rightarrow> string \<Rightarrow> string option" where
  "annotation_match level line = (case command_arg (''::'' @ level) line of
     None \<Rightarrow> None
   | Some r \<Rightarrow> (if HasPrefix r ''::'' then Some (drop 2 r)
       else if r \<noteq> [] \<and> is_re_space (hd r) then
         (let t = dropWhile (\<lambda>c. c \<noteq> CHR '':'') r in
          if HasPrefix t ''::'' then Some (drop 2 t) else None)
       else None))"

definition annotationPrefix :: "string \<Rightarrow> string" where
  "annotationPrefix level =
     (if level = ''error'' then [CHR 0xE2, CHR 0x9D, CHR 0x8C, CHR '' '']
      else if level = ''warning'' then
        [CHR 0xE2, CHR 0x9A, CHR 0xA0, CHR 0xEF, CHR 0xB8, CHR 0x8F, CHR '' '', CHR '' '']
      else if level = ''notice'' then
        [CHR 0xE2, CHR 0x84, CHR 0xB9, CHR 0xEF, CHR 0xB8, CHR 0x8F, CHR '' '', CHR '' '']
      else [])"

fun annotation_line :: "string list \<Rightarrow> string \<Rightarrow> string" where
  "annotation_line [] line = line"
| "annotation_line (level # levels) line = (case annotation_match level line of
     Some msg \<Rightarrow> annotationPrefix level @ msg
   | None \<Rightarrow> annotation_line levels line)"

definition render_line :: "bool \<Rightarrow> string \<Rightarrow> string list" where
  "render_line showDebug line =
     (if command_arg ''::add-mask::'' line \<noteq> None then []
      else case command_arg ''::endgroup::'' line of
        Some r \<Rightarrow> (if list_all is_re_space r then [] else [line])
      | None \<Rightarrow> (case command_arg ''::group::'' line of
          Some title \<Rightarrow> [[CHR 0xE2, CHR 0x96, CHR 0xB6, CHR '' ''] @ title]
        | None \<Rightarrow> (case command_arg ''::debug::'' line of
            Some msg \<Rightarrow> (if showDebug then [[CHR 0xF0, CHR 0x9F, CHR 0x90, CHR 0x9B, CHR '' ''] @ msg] else [])
          | None \<Rightarrow> [annotation_line [''error'', ''warning'', ''notice''] line])))"

definition ProcessWorkflowCommands :: "string \<Rightarrow> bool \<Rightarrow> string \<times> string list" where
  "ProcessWorkflowCommands txt showDebug =
     (let lines = str_split newline txt in
      (str_join (concat (map (render_line showDebug) lines)) [newline],
       List.map_filter (command_arg ''::add-mask::'') lines))"

definition RedactMasks :: "string \<Rightarrow> string list \<Rightarrow> string" where
  "RedactMasks txt masks = fold (\<lambda>v t. if v \<noteq> [] then str_replace t v ''***'' else t) masks txt"

subsection \<open>Masked values do not survive\<close>

lemma sublist_Cons_notin: "sublist w (c # xs) \<Longrightarrow> c \<notin> set w \<Longrightarrow> sublist w xs"
  by (auto simp: sublist_Cons_right prefix_Cons)

lemma sublist_of_drop:
  assumes "sublist w (drop n s)"
  shows "sublist w s"
proof -
  from assms obtain a b where "drop n s = a @ w @ b" by (auto simp: sublist_def)
  then have "s = (take n s @ a) @ w @ b" by (metis append.assoc append_take_drop_id)
  then show ?thesis unfolding sublist_def by blast
qed

lemma HasPrefix_prefix: "HasPrefix s p \<longleftrightarrow> prefix p s"
  by (simp add: HasPrefix_iff prefix_def)

lemma replace_stars_prefix:
  "CHR ''*'' \<notin> set w \<Longrightarrow> prefix w (str_replace s v ''***'') \<Longrightarrow> v \<noteq> [] \<Longrightarrow> prefix w s"
proof (induction s arbitrary: w)
  case (Cons c cs)
  show ?case
  proof (cases "HasPrefix (c # cs) v")
    case True
    with Cons.prems show ?thesis by (cases w) (auto simp: str_replace_hit)
  next
    case False
    with Cons show ?thesis by (cases w) (auto simp: str_replace_miss)
  qed
qed simp

lemma replace_stars_sublist:
  "CHR ''*'' \<notin> set w \<Longrightarrow> sublist w (str_replace s v ''***'') \<Longrightarrow> v \<noteq> [] \<Longrightarrow> sublist w s"
proof (induction s v "''***''" rule: str_replace.induct)
  case (1 s v)
  show ?case
  proof (cases s)
    case Nil
    with "1.prems" show ?thesis by simp
  next
    case (Cons c cs)
    show ?thesis
    proof (cases "HasPrefix s v")
      case True
      with "1.prems" have "sublist w (str_replace (drop (length v) s) v ''***'')"
        by (auto simp: str_replace_hit dest!: sublist_Cons_notin)
      with "1.hyps"(1)[OF _ Cons True] "1.prems" have "sublist w (drop (length v) s)" by blast
      then show ?thesis by (rule sublist_of_drop)
    next
      case np: False
      then have eq: "str_replace s v ''***'' = c # str_replace cs v ''***''"
        unfolding Cons by (rule str_replace_miss)
      with "1.prems"(2) consider "prefix w (str_replace s v ''***'')" | "sublist w (str_replace cs v ''***'')"
        by (auto simp: sublist_Cons_right)
      then show ?thesis
      proof cases
        case 1
        with "1.prems" show ?thesis by (blast intro: replace_stars_prefix prefix_imp_sublist)
      next
        case 2
        with "1.hyps"(2)[OF _ Cons np] "1.prems" have "sublist w cs" by blast
        then show ?thesis by (simp add: Cons sublist_Cons_right)
      qed
    qed
  qed
qed

lemma replace_stars_gone:
  "v \<noteq> [] \<Longrightarrow> CHR ''*'' \<notin> set v \<Longrightarrow> \<not> sublist v (str_replace s v ''***'')"
proof (induction s v "''***''" rule: str_replace.induct)
  case (1 s v)
  show ?case
  proof (cases s)
    case Nil
    with "1.prems" show ?thesis by simp
  next
    case (Cons c cs)
    show ?thesis
    proof (cases "HasPrefix s v")
      case True
      have "\<not> sublist v (str_replace (drop (length v) s) v ''***'')"
        using "1.hyps"(1)[OF _ Cons True] "1.prems" by blast
      with "1.prems" True show ?thesis
        by (auto simp: str_replace_hit dest!: sublist_Cons_notin)
    next
      case np: False
      have IH: "\<not> sublist v (str_replace cs v ''***'')"
        using "1.hyps"(2)[OF _ Cons np] "1.prems" by blast
      have eq: "str_replace s v ''***'' = c # str_replace cs v ''***''"
        using np unfolding Cons by (rule str_replace_miss)
      have "\<not> prefix v (str_replace s v ''***'')"
        using replace_stars_prefix[OF "1.prems"(2) _ "1.prems"(1)] np by (auto simp: HasPrefix_prefix)
      with IH show ?thesis by (simp add: eq sublist_Cons_right)
    qed
  qed
qed

lemma redact_sublist:
  "CHR ''*'' \<notin> set w \<Longrightarrow> sublist w (RedactMasks t0 masks) \<Longrightarrow> sublist w t0"
proof (induction masks arbitrary: t0)
  case (Cons v masks)
  show ?case
  proof (cases "v = []")
    case False
    then have "RedactMasks t0 (v # masks) = RedactMasks (str_replace t0 v ''***'') masks"
      by (simp add: RedactMasks_def)
    with Cons.prems(2) have "sublist w (RedactMasks (str_replace t0 v ''***'') masks)" by argo
    then have "sublist w (str_replace t0 v ''***'')" by (rule Cons.IH[OF Cons.prems(1)])
    from replace_stars_sublist[OF Cons.prems(1) this False] show ?thesis .
  next
    case True
    then have "RedactMasks t0 (v # masks) = RedactMasks t0 masks" by (simp add: RedactMasks_def)
    with Cons.prems(2) have "sublist w (RedactMasks t0 masks)" by argo
    then show ?thesis by (rule Cons.IH[OF Cons.prems(1)])
  qed
qed (simp add: RedactMasks_def)

lemma redact_gone:
  assumes "v \<in> set masks" "v \<noteq> []" "CHR ''*'' \<notin> set v"
  shows "\<not> sublist v (RedactMasks t0 masks)"
  using assms(1)
proof (induction masks arbitrary: t0)
  case (Cons u masks)
  show ?case
  proof (cases "u = v")
    case True
    with assms(2) have "RedactMasks t0 (u # masks) = RedactMasks (str_replace t0 v ''***'') masks"
      by (simp add: RedactMasks_def)
    with redact_sublist[OF assms(3)] replace_stars_gone[OF assms(2,3)] show ?thesis by metis
  next
    case False
    with Cons.prems Cons.IH show ?thesis by (simp add: RedactMasks_def)
  qed
qed simp

text \<open>C26: after redaction no masked value occurs in the text, for any number of masks in any order
  that may overlap, provided the value is not empty and has no \<open>*\<close> itself.\<close>

theorem redacted_values_gone:
  assumes "v \<in> set masks" "v \<noteq> []" "CHR ''*'' \<notin> set v"
  shows "\<not> sublist v (RedactMasks t0 masks)"
  by (rule redact_gone[OF assms])

theorem redacted_values_gone_witness:
  "\<not> sublist ''s3cret'' (RedactMasks ''login s3cret3cret'' [''t'', ''s3cret'', ''login''])"
  by (rule redacted_values_gone) auto

subsection \<open>Reading back what was written\<close>

lemma str_split_append_sep: "str_split c (v @ c # s) = str_split c v @ str_split c s"
  by (induction v) (auto split: list.splits)

lemma raw_lines_append: "raw_lines (v @ newline # s) = str_split newline v @ raw_lines s"
  by (simp add: raw_lines_def Let_def str_split_append_sep last_append butlast_append)

lemma raw_lines_line: "newline \<notin> set l \<Longrightarrow> raw_lines (l @ newline # s) = l # raw_lines s"
  by (simp add: raw_lines_append str_split_no)

lemma raw_lines_Nil [simp]: "raw_lines [] = []"
  by (simp add: raw_lines_def)

text \<open>An entry \<open>NAME<<DELIM\<close>, the value, \<open>DELIM\<close>, and when it can be read back: the first \<open><<\<close> of
  the first line is the operator, the delimiter is no line of the value, and the scanner keeps
  every line as it is.\<close>

definition heredoc_text :: "string \<times> string \<times> string \<Rightarrow> string" where
  "heredoc_text e = (case e of (name, val, delim) \<Rightarrow>
     (name @ ''<<'' @ delim) @ newline # val @ newline # delim @ newline # [])"

definition plain_line :: "string \<Rightarrow> bool" where
  "plain_line l \<longleftrightarrow> CHR 0x0D \<notin> set l \<and> int (length l) < 65536"

definition heredoc_ok :: "string \<times> string \<times> string \<Rightarrow> bool" where
  "heredoc_ok e \<longleftrightarrow> (case e of (name, val, delim) \<Rightarrow>
     newline \<notin> set name \<and> newline \<notin> set delim \<and>
     str_index (name @ ''<<'' @ delim) ''<<'' = Some (length name) \<and>
     delim \<notin> set (str_split newline val) \<and>
     plain_line (name @ ''<<'' @ delim) \<and> plain_line delim \<and> list_all plain_line (str_split newline val))"

lemma TrimSuffix_plain: "plain_line l \<Longrightarrow> TrimSuffix l [CHR 0x0D] = l"
  by (auto simp: TrimSuffix_def HasSuffix_iff plain_line_def)

lemma raw_lines_three:
  "newline \<notin> set h \<Longrightarrow> newline \<notin> set d \<Longrightarrow>
   raw_lines (h @ newline # v @ newline # d @ newline # r) = h # str_split newline v @ d # raw_lines r"
  by (simp add: raw_lines_append str_split_no)

lemma heredoc_raw_lines:
  assumes "heredoc_ok (n, v, d)"
  shows "raw_lines (heredoc_text (n, v, d) @ r) = (n @ ''<<'' @ d) # str_split newline v @ d # raw_lines r"
proof -
  from assms have "newline \<notin> set (n @ ''<<'' @ d)" "newline \<notin> set d" by (auto simp: heredoc_ok_def)
  from raw_lines_three[OF this, of v r] show ?thesis by (simp add: heredoc_text_def)
qed

lemma heredoc_scan:
  assumes "list_all heredoc_ok es"
  shows "\<not> line_too_long (concat (map heredoc_text es)) \<and>
    scan_lines (concat (map heredoc_text es)) =
      concat (map (\<lambda>(n, v, d). (n @ ''<<'' @ d) # str_split newline v @ [d]) es)"
  using assms
proof (induction es)
  case Nil
  then show ?case by (simp add: line_too_long_def scan_lines_def)
next
  case (Cons e es)
  obtain n v d where e: "e = (n, v, d)" by (cases e)
  with Cons.prems have ok: "heredoc_ok (n, v, d)" by simp
  then have plain: "plain_line (n @ ''<<'' @ d)" "plain_line d" "list_all plain_line (str_split newline v)"
    by (simp_all add: heredoc_ok_def)
  have lines: "raw_lines (concat (map heredoc_text (e # es))) =
      (n @ ''<<'' @ d) # str_split newline v @ d # raw_lines (concat (map heredoc_text es))"
    using heredoc_raw_lines[OF ok] e by simp
  have "\<not> (65536 \<le> int (length l))" if "plain_line l" for l using that by (simp add: plain_line_def)
  with plain have "\<not> list_ex (\<lambda>l. 65536 \<le> int (length l)) ((n @ ''<<'' @ d) # str_split newline v @ [d])"
    unfolding list_ex_iff list_all_iff by (metis Un_iff list.set(2) insertE list.set(1) empty_iff set_append)
  moreover have "map (\<lambda>l. TrimSuffix l [CHR 0x0D]) ((n @ ''<<'' @ d) # str_split newline v @ [d]) =
      (n @ ''<<'' @ d) # str_split newline v @ [d]"
    using plain by (auto simp: TrimSuffix_plain list_all_iff intro!: map_idI simp del: append.simps)
  ultimately show ?case
    using Cons e unfolding line_too_long_def scan_lines_def lines by simp
qed

lemma kv_lines_angles:
  assumes "str_index (p @ ''<<'' @ d) ''<<'' = Some (length p)"
  shows "kv_lines ((p @ ''<<'' @ d) # ls) m =
    kv_lines (heredoc_rest d ls) (mput p (str_join (heredoc_value d ls) [newline]) m)"
  using assms by (simp add: Let_def)

lemma kv_lines_heredoc:
  assumes "heredoc_ok (n, v, d)"
  shows "kv_lines ((n @ ''<<'' @ d) # str_split newline v @ d # ls) m = kv_lines ls (mput n v m)"
proof -
  have i: "str_index (n @ ''<<'' @ d) ''<<'' = Some (length n)" and d: "d \<notin> set (str_split newline v)"
    using assms by (auto simp: heredoc_ok_def)
  have "heredoc_value d (str_split newline v @ d # ls) = str_split newline v"
    "heredoc_rest d (str_split newline v @ d # ls) = ls"
    using d by (auto simp: heredoc_value_def heredoc_rest_def takeWhile_tail dropWhile_append)
  with i show ?thesis by (simp add: Let_def)
qed

text \<open>C27: the heredoc form round-trips: a command file written as \<open>NAME<<DELIM\<close> entries, whose
  values may have any number of lines, is read back as exactly those values, a later entry of a
  name replacing an earlier one.\<close>

theorem heredoc_round_trip:
  assumes "list_all heredoc_ok es"
  shows "ParseKeyValueFile (Inr (concat (map heredoc_text es))) =
    Inr (fold (\<lambda>(name, val, delim). mput name val) es [])"
proof -
  have "kv_lines (concat (map (\<lambda>(n, v, d). (n @ ''<<'' @ d) # str_split newline v @ [d]) es)) m =
      fold (\<lambda>(name, val, delim). mput name val) es m" for m
    using assms
  proof (induction es arbitrary: m)
    case (Cons e es)
    obtain n v d where e: "e = (n, v, d)" by (cases e)
    with Cons.prems have ok: "heredoc_ok (n, v, d)" by simp
    let ?ls = "concat (map (\<lambda>(n, v, d). (n @ ''<<'' @ d) # str_split newline v @ [d]) es)"
    have "concat (map (\<lambda>(n, v, d). (n @ ''<<'' @ d) # str_split newline v @ [d]) (e # es)) =
        (n @ ''<<'' @ d) # str_split newline v @ d # ?ls" by (simp add: e)
    then have "kv_lines (concat (map (\<lambda>(n, v, d). (n @ ''<<'' @ d) # str_split newline v @ [d]) (e # es))) m =
        kv_lines ?ls (mput n v m)"
      by (simp only: kv_lines_heredoc[OF ok])
    also have "\<dots> = fold (\<lambda>(name, val, delim). mput name val) es (mput n v m)"
      by (rule Cons.IH) (use Cons.prems in simp)
    also have "\<dots> = fold (\<lambda>(name, val, delim). mput name val) (e # es) m" by (simp add: e)
    finally show ?case .
  qed simp
  with heredoc_scan[OF assms] show ?thesis by (simp add: ParseKeyValueFile_def)
qed

theorem heredoc_round_trip_witness:
  "ParseKeyValueFile (Inr (concat (map heredoc_text
     [(''a'', ''one'' @ newline # ''two=2'', ''EOF''), (''b'', ''x<<y'', ''END''), (''a'', [], ''_'')]))) =
   Inr [(''a'', []), (''b'', ''x<<y'')]"
proof -
  have "list_all heredoc_ok
     [(''a'', ''one'' @ newline # ''two=2'', ''EOF''), (''b'', ''x<<y'', ''END''), (''a'', [], ''_'')]"
    by code_simp
  from heredoc_round_trip[OF this] show ?thesis by simp
qed

text \<open>A single-line entry \<open>NAME=VALUE\<close> whose value contains \<open><<\<close> is read as a heredoc: the name
  gets the text up to \<open><<\<close>, and every later line of the file is swallowed as its value unless
  one of them is the delimiter.\<close>

theorem value_with_angles_is_heredoc:
  assumes "str_index (name @ ''='' @ a) ''<<'' = None" "str_index (name @ ''='' @ a @ ''<<'' @ b) ''<<'' =
      Some (length (name @ ''='' @ a))" "b \<notin> set ls"
  shows "kv_lines ((name @ ''='' @ a @ ''<<'' @ b) # ls) m =
    mput (name @ ''='' @ a) (str_join ls [newline]) m"
proof -
  have "heredoc_value b ls = ls" "heredoc_rest b ls = []"
  proof -
    have "dropWhile (\<lambda>l. l \<noteq> b) ls = []" using assms(3) by (auto simp: dropWhile_eq_Nil_conv)
    then show "heredoc_rest b ls = []" unfolding heredoc_rest_def by (simp only: drop_Nil)
  qed (use assms(3) in \<open>auto simp: heredoc_value_def takeWhile_eq_all_conv\<close>)
  then show ?thesis using kv_lines_angles[of "name @ ''='' @ a" b ls m] assms(2) by simp
qed

theorem value_with_angles_is_heredoc_witness:
  "ParseKeyValueFile (Inr (''shift=1<<4'' @ newline # ''tag=v1'' @ newline # [])) = Inr [(''shift=1'', ''tag=v1'')]"
proof -
  have "kv_lines ((''shift'' @ ''='' @ ''1'' @ ''<<'' @ ''4'') # [''tag=v1'']) [] =
      mput (''shift'' @ ''='' @ ''1'') (str_join [''tag=v1''] [newline]) []"
    by (rule value_with_angles_is_heredoc) (code_simp | simp)+
  moreover have "scan_lines (''shift=1<<4'' @ newline # ''tag=v1'' @ newline # []) = [''shift=1<<4'', ''tag=v1'']"
    "\<not> line_too_long (''shift=1<<4'' @ newline # ''tag=v1'' @ newline # [])"
    by code_simp+
  ultimately show ?thesis by (simp add: ParseKeyValueFile_def)
qed

end
