(* ===== verification/Host.thy ===== *)
theory Host
  imports Expr_Eval Commands Paths
begin

text \<open>
  What the engine and the runner ask of the machine they run on. Effects are functions of a state \<open>'s\<close>
  that answer a result or an error and the next state (\<open>io\<close>); the operating system, the processes it
  runs and the libraries that read YAML and JSON are the record \<open>host\<close>, an argument of every definition
  that uses them. The interface between the engine and a job's execution environment
  (\<open>internal/runner/backend.go\<close>) is the record \<open>runner_job\<close>.
\<close>

subsection \<open>Errors and effects\<close>

datatype exec_error =
  Message string
| EvalFailed eval_error
| FileFailed file_error
| DecodeRejected decode_error
| CredentialsRejected credentials_error
| Wrapped string exec_error

type_synonym ('s, 'a) io = "'s \<Rightarrow> (exec_error + 'a) \<times> 's"

definition io_ret :: "'a \<Rightarrow> ('s, 'a) io" where
  "io_ret x s = (Inr x, s)"

definition io_fail :: "exec_error \<Rightarrow> ('s, 'a) io" where
  "io_fail e s = (Inl e, s)"

definition io_bind :: "('s, 'a) io \<Rightarrow> ('a \<Rightarrow> ('s, 'b) io) \<Rightarrow> ('s, 'b) io" where
  "io_bind m f s = (case m s of (Inl e, s1) \<Rightarrow> (Inl e, s1) | (Inr x, s1) \<Rightarrow> f x s1)"

text \<open>\<open>fmt.Errorf("msg: %w", err)\<close>.\<close>

definition io_wrap :: "string \<Rightarrow> ('s, 'a) io \<Rightarrow> ('s, 'a) io" where
  "io_wrap msg m s = (case m s of (Inl e, s1) \<Rightarrow> (Inl (Wrapped msg e), s1) | (Inr x, s1) \<Rightarrow> (Inr x, s1))"

definition io_res :: "('e \<Rightarrow> exec_error) \<Rightarrow> 'e + 'a \<Rightarrow> ('s, 'a) io" where
  "io_res f r s = (case r of Inl e \<Rightarrow> (Inl (f e), s) | Inr x \<Rightarrow> (Inr x, s))"

fun io_map :: "('a \<Rightarrow> ('s, 'b) io) \<Rightarrow> 'a list \<Rightarrow> ('s, 'b list) io" where
  "io_map f [] = io_ret []"
| "io_map f (x # xs) = io_bind (f x) (\<lambda>y. io_bind (io_map f xs) (\<lambda>ys. io_ret (y # ys)))"

named_theorems io_simps

lemma io_simps_basic [io_simps]:
  "io_ret x s = (Inr x, s)" "io_fail e s = (Inl e, s)"
  "io_res f (Inl e') s = (Inl (f e'), s)" "io_res f (Inr y) s = (Inr y, s)"
  by (simp_all add: io_ret_def io_fail_def io_res_def)

lemma io_bind_Inr:
  "io_bind m f s = (Inr y, t) \<longleftrightarrow> (\<exists>x u. m s = (Inr x, u) \<and> f x u = (Inr y, t))"
  by (auto simp: io_bind_def split: prod.splits sum.splits)

lemma io_bind_eq: "m s = (Inr x, u) \<Longrightarrow> io_bind m f s = f x u"
  "m s = (Inl e, u) \<Longrightarrow> io_bind m f s = (Inl e, u)"
  by (simp_all add: io_bind_def)

lemma io_wrap_Inr: "io_wrap msg m s = (Inr y, t) \<longleftrightarrow> m s = (Inr y, t)"
  by (auto simp: io_wrap_def split: prod.splits sum.splits)

lemma io_res_Inr: "io_res f r s = (Inr y, t) \<longleftrightarrow> r = Inr y \<and> t = s"
  by (auto simp: io_res_def split: sum.splits)

text \<open>What an effect does to the state, whatever it answers, as a relation between the states before and after.
  A relation that is reflexive and transitive is kept by a composition when its parts keep it.\<close>

definition keeps :: "('s \<Rightarrow> 's \<Rightarrow> bool) \<Rightarrow> ('s, 'a) io \<Rightarrow> bool" where
  "keeps R m \<longleftrightarrow> (\<forall>s. R s (snd (m s)))"

text \<open>What a value that an effect answers satisfies.\<close>

definition returns :: "('a \<Rightarrow> bool) \<Rightarrow> ('s, 'a) io \<Rightarrow> bool" where
  "returns Q m \<longleftrightarrow> (\<forall>s x t. m s = (Inr x, t) \<longrightarrow> Q x)"

lemma returns_basic: "Q x \<Longrightarrow> returns Q (io_ret x)" "returns Q (io_fail e)" "returns Q m \<Longrightarrow> returns Q (io_wrap msg m)"
  by (auto simp: returns_def io_ret_def io_fail_def io_wrap_Inr)

lemma returns_bind_any: "(\<And>x. returns Q (f x)) \<Longrightarrow> returns Q (io_bind m f)"
  by (auto simp: returns_def io_bind_Inr)

lemmas returns_intros = returns_basic returns_bind_any

lemma returns_bind: "returns P m \<Longrightarrow> (\<And>x. P x \<Longrightarrow> returns Q (f x)) \<Longrightarrow> returns Q (io_bind m f)"
  by (fastforce simp: returns_def io_bind_Inr)

lemma returns_map: "(\<And>x. returns Q (f x)) \<Longrightarrow> returns (list_all Q) (io_map f xs)"
  by (induction xs) (auto intro!: returns_basic(1) returns_bind)

locale io_relation =
  fixes R :: "'s \<Rightarrow> 's \<Rightarrow> bool"
  assumes R_refl: "R s s"
    and R_trans: "R s t \<Longrightarrow> R t u \<Longrightarrow> R s u"
begin

lemma keeps_ret: "keeps R (io_ret x)"
  by (simp add: keeps_def io_ret_def R_refl)

lemma keeps_fail: "keeps R (io_fail e)"
  by (simp add: keeps_def io_fail_def R_refl)

lemma keeps_res: "keeps R (io_res f r)"
  by (simp add: keeps_def io_res_def R_refl split: sum.split)

lemma keeps_wrap: "keeps R m \<Longrightarrow> keeps R (io_wrap msg m)"
  by (auto simp: keeps_def io_wrap_def split: prod.split sum.split) (metis snd_conv)+

lemma keeps_bind_returns:
  assumes "keeps R m" "returns Q m" "\<And>x. Q x \<Longrightarrow> keeps R (f x)"
  shows "keeps R (io_bind m f)"
proof -
  have "R s (snd (io_bind m f s))" for s
  proof (cases "m s")
    case (Pair r t)
    with assms(1) have st: "R s t" by (metis keeps_def snd_conv)
    show ?thesis
    proof (cases r)
      case (Inr x)
      with Pair assms(2) have "Q x" unfolding returns_def by blast
      with assms(3) have "R t (snd (f x t))" by (simp add: keeps_def)
      with st Inr Pair show ?thesis by (simp add: io_bind_def R_trans[OF st])
    qed (simp add: Pair io_bind_def st)
  qed
  then show ?thesis by (simp add: keeps_def)
qed

lemma keeps_bind: "keeps R m \<Longrightarrow> (\<And>x. keeps R (f x)) \<Longrightarrow> keeps R (io_bind m f)"
  by (rule keeps_bind_returns[where Q = "\<lambda>_. True"]) (simp_all add: returns_def)

lemma keeps_map: "(\<And>x. keeps R (f x)) \<Longrightarrow> keeps R (io_map f xs)"
  by (induction xs) (simp_all add: keeps_ret keeps_bind)

lemma keeps_if: "keeps R m \<Longrightarrow> keeps R m' \<Longrightarrow> keeps R (if b then m else m')"
  by simp

lemmas keeps_intros = keeps_ret keeps_fail keeps_res keeps_wrap keeps_bind keeps_map

end

subsection \<open>Action metadata\<close>

record ActionInput =
  in_description :: string
  in_required :: bool
  in_default :: string

record ActionStep =
  as_id :: string
  as_name :: string
  as_run :: string
  as_uses :: string
  as_with :: "string smap"
  as_shell :: string
  as_env :: "string smap"
  as_if :: string
  as_continue_on_error :: bool
  as_working_directory :: string

record ActionOutput =
  out_description :: string
  out_value :: string

record ActionRuns =
  runs_using :: string
  runs_main :: string
  runs_post :: string
  runs_post_if :: string
  runs_image :: string
  runs_entrypoint :: string
  runs_args :: "string list"
  runs_env :: "string smap"
  runs_steps :: "ActionStep list"

record ActionMetadata =
  md_name :: string
  md_inputs :: "ActionInput smap"
  md_outputs :: "ActionOutput smap"
  md_runs :: ActionRuns

subsection \<open>The machine\<close>

text \<open>A process to run: arguments (the program first), standard input, directory, environment additions,
  and the timeouts in minutes its context carries.\<close>

type_synonym deadline = "float64 list"

record process =
  pr_args :: "string list"
  pr_stdin :: string
  pr_dir :: string
  pr_env :: "string list"
  pr_deadline :: deadline

datatype process_result =
  Exited int string string       \<comment> \<open>exit code, standard output, standard error\<close>
| NotRun string

datatype read_result = NotExist | ReadFailed string | Content string

record 'w host =
  h_eval :: "'w \<Rightarrow> eval_env"
  h_stat :: "string \<Rightarrow> 'w \<Rightarrow> bool"
  h_read :: "string \<Rightarrow> 'w \<Rightarrow> read_result"
  h_create :: "string \<Rightarrow> 'w \<Rightarrow> (string + unit) \<times> 'w"
  h_mkdir_all :: "string \<Rightarrow> 'w \<Rightarrow> (string + unit) \<times> 'w"
  h_remove_all :: "string \<Rightarrow> 'w \<Rightarrow> (string + unit) \<times> 'w"
  h_remove :: "string \<Rightarrow> 'w \<Rightarrow> 'w"
  h_mkdir_temp :: "string \<Rightarrow> string \<Rightarrow> 'w \<Rightarrow> (string + string) \<times> 'w"
  h_create_temp :: "string \<Rightarrow> 'w \<Rightarrow> (string + string) \<times> 'w"
  h_run :: "process \<Rightarrow> 'w \<Rightarrow> process_result \<times> 'w"
  h_now :: "'w \<Rightarrow> int"
  h_sleep :: "int \<Rightarrow> 'w \<Rightarrow> 'w"
  h_cache_dir :: "string + string"
  h_goos :: string
  h_goarch :: string
  h_yaml_action :: "string \<Rightarrow> string + ActionMetadata"
  h_json_object :: "string \<Rightarrow> string + goval smap"

text \<open>An operation of the host as an effect.\<close>

definition io_op :: "('w \<Rightarrow> (string + 'a) \<times> 'w) \<Rightarrow> ('w, 'a) io" where
  "io_op f w = (case f w of (Inl e, w1) \<Rightarrow> (Inl (Message e), w1) | (Inr x, w1) \<Rightarrow> (Inr x, w1))"

definition read_file :: "'w host \<Rightarrow> string \<Rightarrow> ('w, string) io" where
  "read_file h p w = (case h_read h p w of
     NotExist \<Rightarrow> (Inl (Message (''open '' @ p @ '': no such file or directory'')), w)
   | ReadFailed e \<Rightarrow> (Inl (Message e), w)
   | Content c \<Rightarrow> (Inr c, w))"

text \<open>A command run for its effect: an error unless it exits with code 0.\<close>

definition cmd_of :: "string list \<Rightarrow> process" where
  "cmd_of args = \<lparr>pr_args = args, pr_stdin = [], pr_dir = [], pr_env = [], pr_deadline = []\<rparr>"

definition run_ok :: "'w host \<Rightarrow> process \<Rightarrow> ('w, string) io" where
  "run_ok h p w = (case h_run h p w of
     (Exited code out err, w1) \<Rightarrow>
       (if code = 0 then Inr out else Inl (Message (''exit status '' @ itoa code @ '': '' @ err)), w1)
   | (NotRun e, w1) \<Rightarrow> (Inl (Message e), w1))"

text \<open>A command run for its exit code: only failing to run it is an error.\<close>

record StepResult =
  sr_exit_code :: int
  sr_stdout :: string
  sr_stderr :: string

definition run_step_process :: "'w host \<Rightarrow> string \<Rightarrow> process \<Rightarrow> ('w, StepResult) io" where
  "run_step_process h msg p w = (case h_run h p w of
     (Exited code out err, w1) \<Rightarrow> (Inr \<lparr>sr_exit_code = code, sr_stdout = out, sr_stderr = err\<rparr>, w1)
   | (NotRun e, w1) \<Rightarrow> (Inl (Wrapped msg (Message e)), w1))"

subsection \<open>A job's execution environment\<close>

record StepSpec =
  sp_command :: string
  sp_args :: "string list"
  sp_shell :: string
  sp_env :: "string smap"
  sp_working_directory :: string
  sp_files_dir :: string

record DockerActionSpec =
  da_image :: string
  da_entrypoint :: "string list"
  da_args :: "string list"
  da_env :: "string smap"
  da_action_source_dir :: string
  da_action_path_in_container :: string
  da_files_dir :: string

record RunnerContainerSpec =
  rc_image :: string
  rc_env :: "string smap"
  rc_ports :: "string list"
  rc_volumes :: "string list"
  rc_options :: string
  rc_username :: string
  rc_password :: string

record 'w runner_job =
  rj_FilesRoot :: string
  rj_WorkspacePath :: string
  rj_Platform :: string
  rj_CopyToContainer :: "deadline \<Rightarrow> string \<Rightarrow> string \<Rightarrow> ('w, unit) io"
  rj_Exec :: "deadline \<Rightarrow> StepSpec \<Rightarrow> ('w, StepResult) io"
  rj_RunDockerAction :: "deadline \<Rightarrow> DockerActionSpec \<Rightarrow> ('w, StepResult) io"
  rj_Stop :: "deadline \<Rightarrow> ('w, unit) io"

type_synonym 'w backend =
  "deadline \<Rightarrow> string \<Rightarrow> string \<Rightarrow> RunnerContainerSpec option \<Rightarrow> RunnerContainerSpec smap \<Rightarrow> ('w, 'w runner_job) io"

end
