(* ===== verification/Runner.thy ===== *)
theory Runner
  imports Host Workflow
begin

text \<open>
  The backends that run a job's steps (\<open>internal/runner\<close>): the Docker backend with its service
  containers (\<open>docker_backend.go\<close>, \<open>dockeropts.go\<close>), the macOS host backend (\<open>host_backend.go\<close>), the dry
  run (\<open>dryrun.go\<close>) and the choice between them (\<open>backend.go\<close>). The \<open>docker\<close> commands they build are
  exact; what the processes do is the host's.
\<close>

subsection \<open>dockeropts.go\<close>

record opt_scan =
  os_tokens :: "string list"
  os_current :: string
  os_in_token :: bool
  os_quote :: "char option"

definition opt_flush :: "opt_scan \<Rightarrow> opt_scan" where
  "opt_flush s = (if os_in_token s
     then s\<lparr>os_tokens := os_tokens s @ [os_current s], os_current := [], os_in_token := False\<rparr> else s)"

definition opt_step :: "char \<Rightarrow> opt_scan \<Rightarrow> opt_scan" where
  "opt_step r s = (case os_quote s of
     Some q \<Rightarrow> (if r = q then s\<lparr>os_quote := None\<rparr> else s\<lparr>os_current := os_current s @ [r]\<rparr>)
   | None \<Rightarrow>
       (if r \<in> {CHR '' '', CHR 0x09, CHR 0x0A, CHR 0x0D} then opt_flush s
        else if r = CHR 0x22 \<or> r = squote then s\<lparr>os_quote := Some r, os_in_token := True\<rparr>
        else s\<lparr>os_in_token := True, os_current := os_current s @ [r]\<rparr>))"

definition opt_init :: opt_scan where
  "opt_init = \<lparr>os_tokens = [], os_current = [], os_in_token = False, os_quote = None\<rparr>"

definition splitDockerOptions :: "string \<Rightarrow> string + string list" where
  "splitDockerOptions s = (let e = fold opt_step s opt_init in
     if os_quote e \<noteq> None then Inl (''unterminated quote in options: '' @ s)
     else Inr (os_tokens (opt_flush e)))"

subsection \<open>docker_backend.go: helpers\<close>

definition linuxRunnerImage :: string where "linuxRunnerImage = ''ubuntu:22.04''"
definition containerFilesMount :: string where "containerFilesMount = ''/mirror-files''"
definition containerWorkspaceMount :: string where "containerWorkspaceMount = ''/github/workspace''"

definition dockerRegistryLogin :: "'w host \<Rightarrow> deadline \<Rightarrow> string \<Rightarrow> string \<Rightarrow> string \<Rightarrow> ('w, string) io" where
  "dockerRegistryLogin h ctx registry username password =
     io_wrap (''docker login '' @ registry)
       (run_ok h ((cmd_of [''docker'', ''login'', registry, ''-u'', username, ''--password-stdin''])
          \<lparr>pr_stdin := password, pr_deadline := ctx\<rparr>))"

definition dockerRegistryLogout :: "'w host \<Rightarrow> deadline \<Rightarrow> string \<Rightarrow> ('w, string) io" where
  "dockerRegistryLogout h ctx registry =
     io_wrap (''docker logout '' @ registry)
       (run_ok h ((cmd_of [''docker'', ''logout'', registry])\<lparr>pr_deadline := ctx\<rparr>))"

text \<open>One poll: no error, an error, or sleep and poll again. The loop is run with a number of polls as fuel;
  \<open>wait_polls_enough\<close> below gives a number that is enough.\<close>

definition health_poll :: "'w host \<Rightarrow> deadline \<Rightarrow> string \<Rightarrow> int \<Rightarrow> 'w \<Rightarrow> (string + unit) option \<times> 'w" where
  "health_poll h ctx containerID deadline_at w =
     (case h_run h ((cmd_of [''docker'', ''inspect'', ''--format'', ''{{.State.Health.Status}}'', containerID])
         \<lparr>pr_deadline := ctx\<rparr>) w of (r, w1) \<Rightarrow>
        (let failed = (case r of Exited code _ _ \<Rightarrow> code \<noteq> 0 | NotRun _ \<Rightarrow> True);
             status = (case r of Exited _ out err \<Rightarrow> TrimSpace (out @ err) | NotRun _ \<Rightarrow> [])
         in if failed \<or> status = ''<no value>'' \<or> status = [] then (Some (Inr ()), w1)
            else if status = ''healthy'' then (Some (Inr ()), w1)
            else if deadline_at < h_now h w1
            then (Some (Inl (''service container '' @ containerID @ '' did not become healthy (last status: '' @ status @ '')'')), w1)
            else (None, h_sleep h 1000000000 w1)))"

fun health_loop :: "'w host \<Rightarrow> deadline \<Rightarrow> string \<Rightarrow> int \<Rightarrow> nat \<Rightarrow> 'w \<Rightarrow> (string + unit) option \<times> 'w" where
  "health_loop h ctx containerID deadline_at 0 w = (None, w)"
| "health_loop h ctx containerID deadline_at (Suc n) w =
     (case health_poll h ctx containerID deadline_at w of
        (Some r, w1) \<Rightarrow> (Some r, w1)
      | (None, w1) \<Rightarrow> health_loop h ctx containerID deadline_at n w1)"

definition health_timeout :: int where "health_timeout = 300 * 1000000000"

definition waitForServiceHealth :: "'w host \<Rightarrow> deadline \<Rightarrow> string \<Rightarrow> nat \<Rightarrow> ('w, unit) io" where
  "waitForServiceHealth h ctx containerID polls w =
     (case health_loop h ctx containerID (h_now h w + health_timeout) polls w of
        (Some (Inr u), w1) \<Rightarrow> (Inr u, w1)
      | (Some (Inl e), w1) \<Rightarrow> (Inl (Message e), w1)
      | (None, w1) \<Rightarrow> (Inl (Message ''out of polls''), w1))"

definition max_polls :: nat where "max_polls = 302"

definition sanitizeDockerName :: "string \<Rightarrow> string" where
  "sanitizeDockerName s = map (\<lambda>c. if is_lower c \<or> is_digit c \<or> c = CHR ''-'' then c else CHR ''-'') (ToLower s)"

definition env_flags :: "string smap \<Rightarrow> string list" where
  "env_flags env = concat (map (\<lambda>(k, v). [''-e'', k @ ''='' @ v]) env)"

definition container_flags :: "RunnerContainerSpec \<Rightarrow> string list" where
  "container_flags spec = env_flags (rc_env spec) @ concat (map (\<lambda>p. [''-p'', p]) (rc_ports spec)) @
     concat (map (\<lambda>v. [''-v'', v]) (rc_volumes spec))"

definition option_flags :: "string \<Rightarrow> string + string list" where
  "option_flags opts = (if opts = [] then Inr [] else splitDockerOptions opts)"

subsection \<open>docker_backend.go: starting a job\<close>

record docker_job =
  dj_container :: string
  dj_files_root :: string
  dj_workspace :: string
  dj_logouts :: "string list"
  dj_network :: string
  dj_services :: "string list"

definition docker_cmd :: "deadline \<Rightarrow> string list \<Rightarrow> process" where
  "docker_cmd ctx args = (cmd_of (''docker'' # args))\<lparr>pr_deadline := ctx\<rparr>"

text \<open>\<open>os.RemoveAll(hostFilesRoot)\<close> before returning an error.\<close>

definition or_cleanup :: "'w host \<Rightarrow> string \<Rightarrow> ('w, 'a) io \<Rightarrow> ('w, 'a) io" where
  "or_cleanup h root m w = (case m w of
     (Inl e, w1) \<Rightarrow> (Inl e, snd (h_remove_all h root w1)) | (Inr x, w1) \<Rightarrow> (Inr x, w1))"

text \<open>\<open>registryHostFor\<close>, which the package has a copy of its own of.\<close>

definition docker_registryHostFor :: "string \<Rightarrow> string" where
  "docker_registryHostFor img =
     (let dockerHub = ''index.docker.io'' in case str_cut img ''/'' of (first, _, found) \<Rightarrow>
      if \<not> found then dockerHub
      else if CHR ''.'' \<in> set first \<or> CHR '':'' \<in> set first \<or> first = ''localhost'' then first
      else dockerHub)"

lemma docker_registryHostFor_eq: "docker_registryHostFor = registryHostFor"
  by (simp add: docker_registryHostFor_def registryHostFor_def Let_def fun_eq_iff)

definition login_if :: "'w host \<Rightarrow> deadline \<Rightarrow> string \<Rightarrow> string \<Rightarrow> string \<Rightarrow> ('w, string list) io" where
  "login_if h ctx img username password =
     (if username = [] then io_ret []
      else io_bind (dockerRegistryLogin h ctx (docker_registryHostFor img) username password)
        (\<lambda>_. io_ret [docker_registryHostFor img]))"

definition service_args :: "string \<Rightarrow> string \<Rightarrow> RunnerContainerSpec \<Rightarrow> string list \<Rightarrow> string list" where
  "service_args networkName name spec opts =
     [''run'', ''-d'', ''--rm'', ''--network'', networkName, ''--network-alias'', name] @
     container_flags spec @ opts @ [rc_image spec]"

definition start_service :: "'w host \<Rightarrow> deadline \<Rightarrow> string \<Rightarrow> string \<Rightarrow> RunnerContainerSpec \<Rightarrow>
    ('w, string \<times> string list) io" where
  "start_service h ctx networkName name spec =
     io_bind (login_if h ctx (rc_image spec) (rc_username spec) (rc_password spec)) (\<lambda>logouts.
     io_bind (io_res Message (option_flags (rc_options spec))) (\<lambda>opts.
     io_bind (io_wrap (''start service '' @ name)
       (run_ok h (docker_cmd ctx (service_args networkName name spec opts)))) (\<lambda>out.
     io_bind (io_wrap (''service '' @ name) (waitForServiceHealth h ctx (TrimSpace out) max_polls)) (\<lambda>_.
     io_ret (TrimSpace out, logouts)))))"

fun start_services :: "'w host \<Rightarrow> deadline \<Rightarrow> string \<Rightarrow> RunnerContainerSpec smap \<Rightarrow> string list \<Rightarrow>
    ('w, string list \<times> string list) io" where
  "start_services h ctx networkName services [] = io_ret ([], [])"
| "start_services h ctx networkName services (name # names) =
     (case mget services name of
        None \<Rightarrow> start_services h ctx networkName services names
      | Some spec \<Rightarrow>
          io_bind (start_service h ctx networkName name spec) (\<lambda>(sid, logouts).
          io_bind (start_services h ctx networkName services names) (\<lambda>(ids, logouts').
          io_ret (sid # ids, logouts @ logouts'))))"

definition create_network :: "'w host \<Rightarrow> deadline \<Rightarrow> string \<Rightarrow> ('w, unit) io" where
  "create_network h ctx networkName w =
     (case h_run h (docker_cmd ctx [''network'', ''create'', networkName]) w of
        (Exited code out err, w1) \<Rightarrow>
          (if code = 0 \<or> str_contains err ''already exists'' then Inr ()
           else Inl (Message (''create network '' @ networkName @ '': '' @ err)), w1)
      | (NotRun e, w1) \<Rightarrow> (Inl (Message (''create network '' @ networkName @ '': '' @ e)), w1))"

definition job_args :: "string \<Rightarrow> string \<Rightarrow> string \<Rightarrow> string \<Rightarrow> RunnerContainerSpec option \<Rightarrow> string list \<Rightarrow> string list" where
  "job_args filesRoot workspace networkName img containerSpec opts =
     [''run'', ''-d'', ''--rm'', ''-v'', filesRoot @ '':'' @ containerFilesMount, ''-v'', workspace @ '':'' @ containerWorkspaceMount] @
     (if networkName = [] then [] else [''--network'', networkName]) @
     (case containerSpec of None \<Rightarrow> [] | Some c \<Rightarrow> container_flags c @ opts) @ [img, ''sleep'', ''infinity'']"

definition docker_StartJob :: "'w host \<Rightarrow> deadline \<Rightarrow> string \<Rightarrow> string \<Rightarrow> RunnerContainerSpec option \<Rightarrow>
    RunnerContainerSpec smap \<Rightarrow> ('w, docker_job) io" where
  "docker_StartJob h ctx jobID workspace containerSpec services =
     (if workspace = [] then io_fail (Message ''hostWorkspaceDir must not be empty'')
      else io_bind (io_wrap ''create job files root'' (io_op (h_mkdir_temp h [] ''mirror-job-''))) (\<lambda>filesRoot.
        let img = (case containerSpec of
              Some c \<Rightarrow> if rc_image c \<noteq> [] then rc_image c else linuxRunnerImage | None \<Rightarrow> linuxRunnerImage);
            networkName = (if services = [] then [] else sanitizeDockerName (''mirror-svc-'' @ jobID))
        in io_bind (case containerSpec of None \<Rightarrow> io_ret []
             | Some c \<Rightarrow> or_cleanup h filesRoot (login_if h ctx img (rc_username c) (rc_password c))) (\<lambda>logouts.
        io_bind (if services = [] then io_ret ([], [])
             else io_bind (or_cleanup h filesRoot (create_network h ctx networkName)) (\<lambda>_.
               start_services h ctx networkName services (sort (map fst services)))) (\<lambda>(ids, logouts').
        io_bind (case containerSpec of None \<Rightarrow> io_ret []
             | Some c \<Rightarrow> or_cleanup h filesRoot (io_res Message (option_flags (rc_options c)))) (\<lambda>opts.
        io_bind (or_cleanup h filesRoot (io_wrap ''start job container''
             (run_ok h (docker_cmd ctx (job_args filesRoot workspace networkName img containerSpec opts))))) (\<lambda>out.
        io_ret \<lparr>dj_container = TrimSpace out, dj_files_root = filesRoot, dj_workspace = workspace,
          dj_logouts = logouts @ logouts', dj_network = networkName, dj_services = ids\<rparr>))))))"

subsection \<open>docker_backend.go: a running job\<close>

definition docker_Copy :: "'w host \<Rightarrow> docker_job \<Rightarrow> deadline \<Rightarrow> string \<Rightarrow> string \<Rightarrow> ('w, unit) io" where
  "docker_Copy h j ctx hostPath containerPath =
     io_bind (io_wrap (''mkdir -p '' @ containerPath @ '' in container'')
       (run_ok h (docker_cmd ctx [''exec'', dj_container j, ''mkdir'', ''-p'', containerPath]))) (\<lambda>_.
     io_bind (io_wrap (''docker cp '' @ hostPath)
       (run_ok h (docker_cmd ctx [''cp'', hostPath @ ''/.'', dj_container j @ '':'' @ containerPath]))) (\<lambda>_.
     io_ret ()))"

text \<open>\<open>filepath.Rel\<close> on paths: the target relative to the base.\<close>

fun strip_common :: "string list \<Rightarrow> string list \<Rightarrow> string list \<times> string list" where
  "strip_common (b # bs) (t # ts) = (if b = t then strip_common bs ts else (b # bs, t # ts))"
| "strip_common bs ts = (bs, ts)"

definition path_segs :: "string \<Rightarrow> string list" where
  "path_segs p = clean_segs (is_rooted p) (str_split slash p)"

definition filepath_Rel :: "string \<Rightarrow> string \<Rightarrow> string option" where
  "filepath_Rel base target =
     (if is_rooted base \<noteq> is_rooted target then None
      else (case strip_common (path_segs base) (path_segs target) of (bs, ts) \<Rightarrow>
        if ''..'' \<in> set bs then None
        else Some (render False (replicate (length bs) ''..'' @ ts))))"

definition command_file_flags :: "string \<Rightarrow> string list" where
  "command_file_flags dir = concat (map (\<lambda>(k, f). [''-e'', k @ ''='' @ dir @ ''/'' @ f])
     [(''GITHUB_ENV'', ''github_env''), (''GITHUB_PATH'', ''github_path''), (''GITHUB_OUTPUT'', ''github_output''),
      (''GITHUB_STEP_SUMMARY'', ''github_step_summary''), (''GITHUB_STATE'', ''github_state'')])"

definition docker_exec_args :: "docker_job \<Rightarrow> string \<Rightarrow> StepSpec \<Rightarrow> string list" where
  "docker_exec_args j containerFilesDir spec =
     [''exec''] @ (if sp_working_directory spec = [] then [] else [''-w'', sp_working_directory spec]) @
     env_flags (sp_env spec) @ command_file_flags containerFilesDir @ [dj_container j] @
     (if sp_args spec \<noteq> [] then sp_args spec
      else [if sp_shell spec = [] then ''sh'' else sp_shell spec, ''-c'', sp_command spec])"

definition docker_Exec :: "'w host \<Rightarrow> docker_job \<Rightarrow> deadline \<Rightarrow> StepSpec \<Rightarrow> ('w, StepResult) io" where
  "docker_Exec h j ctx spec = (case filepath_Rel (dj_files_root j) (sp_files_dir spec) of
     None \<Rightarrow> io_fail (Message ''FilesDir must be a subdirectory of the job FilesRoot'')
   | Some rel \<Rightarrow>
       (if HasPrefix rel ''..'' then io_fail (Message ''FilesDir must be a subdirectory of the job FilesRoot'')
        else run_step_process h ''docker exec''
          (docker_cmd ctx (docker_exec_args j (Join [containerFilesMount, rel]) spec))))"

definition docker_action_args :: "docker_job \<Rightarrow> DockerActionSpec \<Rightarrow> string list" where
  "docker_action_args j spec =
     [''run'', ''--rm'', ''-v'', dj_workspace j @ '':'' @ containerWorkspaceMount, ''-w'', containerWorkspaceMount,
      ''-v'', da_files_dir spec @ '':'' @ containerFilesMount, ''-e'', ''GITHUB_WORKSPACE='' @ containerWorkspaceMount] @
     command_file_flags containerFilesMount @
     (if da_action_source_dir spec = [] then []
      else [''-v'', da_action_source_dir spec @ '':'' @ da_action_path_in_container spec @ '':ro'',
            ''-e'', ''GITHUB_ACTION_PATH='' @ da_action_path_in_container spec]) @
     env_flags (da_env spec) @
     [''--network'', ''container:'' @ dj_container j, ''-v'', ''/var/run/docker.sock:/var/run/docker.sock''] @
     (case da_entrypoint spec of
        [] \<Rightarrow> da_image spec # da_args spec
      | e # es \<Rightarrow> [''--entrypoint'', e] @ [da_image spec] @ es @ da_args spec)"

definition docker_RunDockerAction :: "'w host \<Rightarrow> docker_job \<Rightarrow> deadline \<Rightarrow> DockerActionSpec \<Rightarrow> ('w, StepResult) io" where
  "docker_RunDockerAction h j ctx spec =
     run_step_process h (''docker run (docker action '' @ da_image spec @ '')'') (docker_cmd ctx (docker_action_args j spec))"

text \<open>\<open>Stop\<close>: the container first, the rest whatever happens; the container's error wins over the directory's.\<close>

definition best_effort :: "'w host \<Rightarrow> deadline \<Rightarrow> string list \<Rightarrow> 'w \<Rightarrow> 'w" where
  "best_effort h ctx args w = snd (h_run h (docker_cmd ctx args) w)"

definition docker_Stop :: "'w host \<Rightarrow> docker_job \<Rightarrow> deadline \<Rightarrow> ('w, unit) io" where
  "docker_Stop h j ctx w =
     (case io_wrap (''stop job container '' @ dj_container j)
         (run_ok h (docker_cmd ctx [''rm'', ''-f'', dj_container j])) w of (stopErr, w1) \<Rightarrow>
      let w2 = fold (\<lambda>sid. best_effort h ctx [''rm'', ''-f'', sid]) (dj_services j) w1;
          w3 = (if dj_network j = [] then w2 else best_effort h ctx [''network'', ''rm'', dj_network j] w2);
          w4 = fold (\<lambda>registry w. snd (dockerRegistryLogout h ctx registry w)) (dj_logouts j) w3
      in case h_remove_all h (dj_files_root j) w4 of (r, w5) \<Rightarrow>
           (case stopErr of Inl e \<Rightarrow> Inl e
            | Inr _ \<Rightarrow> (case r of Inl e \<Rightarrow> Inl (Wrapped (''remove job files root '' @ dj_files_root j) (Message e))
                | Inr _ \<Rightarrow> Inr ()), w5))"

definition docker_runner_job :: "'w host \<Rightarrow> docker_job \<Rightarrow> 'w runner_job" where
  "docker_runner_job h j = \<lparr>rj_FilesRoot = dj_files_root j, rj_WorkspacePath = containerWorkspaceMount,
     rj_Platform = ''linux'', rj_CopyToContainer = docker_Copy h j, rj_Exec = docker_Exec h j,
     rj_RunDockerAction = docker_RunDockerAction h j, rj_Stop = docker_Stop h j\<rparr>"

definition LinuxDockerBackend :: "'w host \<Rightarrow> 'w backend" where
  "LinuxDockerBackend h ctx jobID workspace containerSpec services =
     io_bind (docker_StartJob h ctx jobID workspace containerSpec services) (\<lambda>j. io_ret (docker_runner_job h j))"

subsection \<open>host_backend.go\<close>

definition translateMirrorPath :: "string \<Rightarrow> string \<Rightarrow> string" where
  "translateMirrorPath root p = (if HasPrefix p ''/mirror-'' then Join [root, p] else p)"

definition host_Copy :: "'w host \<Rightarrow> string \<Rightarrow> deadline \<Rightarrow> string \<Rightarrow> string \<Rightarrow> ('w, unit) io" where
  "host_Copy h root ctx hostPath containerPath = (let dest = translateMirrorPath root containerPath in
     io_bind (io_wrap (''mkdir '' @ dest) (io_op (h_mkdir_all h dest))) (\<lambda>_.
     io_bind (io_wrap (''cp '' @ hostPath @ '' -> '' @ dest) (run_ok h ((cmd_of [''cp'', ''-R'', hostPath @ ''/.'', dest])\<lparr>pr_deadline := ctx\<rparr>))) (\<lambda>_.
     io_ret ())))"

definition host_env :: "string \<Rightarrow> StepSpec \<Rightarrow> string smap" where
  "host_env root spec =
     (let env = map (\<lambda>(k, v). (k, if k = ''GITHUB_ACTION_PATH'' then translateMirrorPath root v else v)) (sp_env spec);
          file = (\<lambda>k f m. mput k (Join [sp_files_dir spec, f]) m)
      in file ''GITHUB_STATE'' ''github_state'' (file ''GITHUB_STEP_SUMMARY'' ''github_step_summary''
           (file ''GITHUB_OUTPUT'' ''github_output'' (file ''GITHUB_PATH'' ''github_path''
             (file ''GITHUB_ENV'' ''github_env'' env)))))"

definition host_args :: "string \<Rightarrow> StepSpec \<Rightarrow> string list" where
  "host_args root spec = (if sp_args spec \<noteq> [] then map (translateMirrorPath root) (sp_args spec)
     else [if sp_shell spec = [] then ''bash'' else sp_shell spec, ''-c'', sp_command spec])"

definition host_Exec :: "'w host \<Rightarrow> string \<Rightarrow> deadline \<Rightarrow> StepSpec \<Rightarrow> ('w, StepResult) io" where
  "host_Exec h root ctx spec = run_step_process h ''exec''
     \<lparr>pr_args = host_args root spec, pr_stdin = [], pr_dir = sp_working_directory spec,
      pr_env = map (\<lambda>(k, v). k @ ''='' @ v) (host_env root spec), pr_deadline = ctx\<rparr>"

text \<open>Unreachable: the engine rejects Docker actions by the platform first (\<open>docker_needs_linux\<close>).\<close>

definition host_RunDockerAction :: "deadline \<Rightarrow> DockerActionSpec \<Rightarrow> ('w, StepResult) io" where
  "host_RunDockerAction ctx spec = io_fail (Message ''docker actions require a Linux job'')"

definition host_Stop :: "'w host \<Rightarrow> string \<Rightarrow> deadline \<Rightarrow> ('w, unit) io" where
  "host_Stop h root ctx = io_op (h_remove_all h root)"

definition host_runner_job :: "'w host \<Rightarrow> string \<Rightarrow> string \<Rightarrow> string \<Rightarrow> 'w runner_job" where
  "host_runner_job h root filesRoot workspace = \<lparr>rj_FilesRoot = filesRoot, rj_WorkspacePath = workspace,
     rj_Platform = ''darwin'', rj_CopyToContainer = host_Copy h root, rj_Exec = host_Exec h root,
     rj_RunDockerAction = host_RunDockerAction, rj_Stop = host_Stop h root\<rparr>"

definition HostBackend :: "'w host \<Rightarrow> 'w backend" where
  "HostBackend h ctx jobID workspace containerSpec services =
     (if workspace = [] then io_fail (Message ''hostWorkspaceDir must not be empty'')
      else if containerSpec \<noteq> None then io_fail (Message ''container: is not supported on macOS jobs'')
      else if services \<noteq> [] then io_fail (Message ''services: is not supported on macOS jobs'')
      else io_bind (io_wrap ''create job root'' (io_op (h_mkdir_temp h [] ''mirror-host-job-''))) (\<lambda>root.
        io_bind (or_cleanup h root (io_wrap ''create files root'' (io_op (h_mkdir_all h (Join [root, ''files'']))))) (\<lambda>_.
        io_ret (host_runner_job h root (Join [root, ''files'']) workspace))))"

text \<open>On the host, \<open>/mirror-event\<close> is a directory below the job's root, where \<open>host_Copy\<close> puts the event; but of a
  step's environment only \<open>GITHUB_ACTION_PATH\<close> is translated, so the process is told the path it has in a
  container, which does not exist on the host.\<close>

lemma host_event_path_untranslated:
  assumes "mget (sp_env spec) ''GITHUB_EVENT_PATH'' = Some ''/mirror-event/event.json''"
  shows "mget (host_env root spec) ''GITHUB_EVENT_PATH'' = Some ''/mirror-event/event.json'' \<and>
    translateMirrorPath root ''/mirror-event'' = Join [root, ''/mirror-event'']"
proof -
  have "mget (map (\<lambda>(k, v). (k, if k = ''GITHUB_ACTION_PATH'' then f v else v)) m) k = mget m k"
    if "k \<noteq> ''GITHUB_ACTION_PATH''" for f :: "string \<Rightarrow> string" and m k
    using that by (induction m) auto
  then show ?thesis using assms by (simp add: host_env_def translateMirrorPath_def HasPrefix_def)
qed

subsection \<open>dryrun.go and the choice of a backend\<close>

definition dry_result :: StepResult where
  "dry_result = \<lparr>sr_exit_code = 0, sr_stdout = ''(dry run: not executed)'' @ [newline], sr_stderr = []\<rparr>"

definition dry_runner_job :: "'w host \<Rightarrow> string \<Rightarrow> string \<Rightarrow> 'w runner_job" where
  "dry_runner_job h dir workspace = \<lparr>rj_FilesRoot = dir, rj_WorkspacePath = workspace, rj_Platform = ''linux'',
     rj_CopyToContainer = (\<lambda>_ _ _. io_ret ()), rj_Exec = (\<lambda>_ _. io_ret dry_result),
     rj_RunDockerAction = (\<lambda>_ _. io_ret dry_result), rj_Stop = (\<lambda>_. io_op (h_remove_all h dir))\<rparr>"

definition DryRunBackend :: "'w host \<Rightarrow> 'w backend" where
  "DryRunBackend h ctx jobID workspace containerSpec services =
     io_bind (io_wrap ''create dry-run files root'' (io_op (h_mkdir_temp h [] ''mirror-dryrun-''))) (\<lambda>dir.
     io_ret (dry_runner_job h dir workspace))"

datatype backend_choice = UseLinuxDocker | UseHost

definition SelectBackend :: "string \<Rightarrow> string \<Rightarrow> string + backend_choice" where
  "SelectBackend goos runsOn =
     (if runsOn \<in> {''ubuntu-latest'', ''ubuntu-24.04'', ''ubuntu-22.04''} then Inr UseLinuxDocker
      else if runsOn \<in> {''macos-latest'', ''macos-15'', ''macos-14'', ''macos-13''} then
        (if goos \<noteq> ''darwin'' then Inl (''runner '' @ runsOn @ '' requires running mirror-gha on a Mac host (this host is '' @ goos @ '')'')
         else Inr UseHost)
      else Inl (''runner '' @ runsOn @ '' is not supported yet''))"

definition backend_of :: "'w host \<Rightarrow> backend_choice \<Rightarrow> 'w backend" where
  "backend_of h c = (case c of UseLinuxDocker \<Rightarrow> LinuxDockerBackend h | UseHost \<Rightarrow> HostBackend h)"

subsection \<open>Options survive quoting\<close>

lemma opt_step_quoted:
  "q \<notin> set t \<Longrightarrow> fold opt_step t \<lparr>os_tokens = ts, os_current = cur, os_in_token = True, os_quote = Some q\<rparr> =
     \<lparr>os_tokens = ts, os_current = cur @ t, os_in_token = True, os_quote = Some q\<rparr>"
  by (induction t arbitrary: cur) (auto simp: opt_step_def)

lemma opt_step_token:
  assumes "q \<in> {CHR 0x22, squote}" "q \<notin> set t"
  shows "fold opt_step (q # t @ [q]) \<lparr>os_tokens = ts, os_current = [], os_in_token = False, os_quote = None\<rparr> =
     \<lparr>os_tokens = ts, os_current = t, os_in_token = True, os_quote = None\<rparr>"
  using assms opt_step_quoted[OF assms(2), of ts "[]"] by (auto simp: opt_step_def)

definition quoted_token :: "char \<times> string \<Rightarrow> string" where
  "quoted_token qt = (case qt of (q, t) \<Rightarrow> q # t @ [q])"

lemma opt_step_join:
  assumes "list_all (\<lambda>(q, t). q \<in> {CHR 0x22, squote} \<and> q \<notin> set t) qts" "qts \<noteq> []"
  shows "fold opt_step (str_join (map quoted_token qts) '' '')
      \<lparr>os_tokens = ts, os_current = [], os_in_token = False, os_quote = None\<rparr> =
     \<lparr>os_tokens = ts @ map snd (butlast qts), os_current = snd (last qts), os_in_token = True, os_quote = None\<rparr>"
  using assms
proof (induction qts arbitrary: ts)
  case (Cons x qts)
  obtain q t where x: "x = (q, t)" by (cases x)
  have qt: "q \<in> {CHR 0x22, squote}" "q \<notin> set t" using Cons.prems(1) x by simp_all
  show ?case
  proof (cases "qts = []")
    case True
    then show ?thesis using opt_step_token[OF qt] by (simp add: x quoted_token_def)
  next
    case False
    have rest: "list_all (\<lambda>(q, t). q \<in> {CHR 0x22, squote} \<and> q \<notin> set t) qts" using Cons.prems(1) by simp
    have sp: "opt_step (CHR '' '') \<lparr>os_tokens = ts, os_current = t, os_in_token = True, os_quote = None\<rparr> =
        \<lparr>os_tokens = ts @ [t], os_current = [], os_in_token = False, os_quote = None\<rparr>"
      by (simp add: opt_step_def opt_flush_def)
    let ?s = "\<lparr>os_tokens = ts, os_current = [], os_in_token = False, os_quote = None\<rparr>"
    let ?b = "str_join (map quoted_token qts) '' ''"
    have "str_join (map quoted_token (x # qts)) '' '' = (q # t @ [q]) @ CHR '' '' # ?b"
      using False by (simp add: str_join_Cons quoted_token_def x)
    then have "fold opt_step (str_join (map quoted_token (x # qts)) '' '') ?s =
        fold opt_step ?b (opt_step (CHR '' '') (fold opt_step (q # t @ [q]) ?s))"
      by (simp only: fold_append fold.simps o_apply)
    also have "\<dots> = fold opt_step ?b \<lparr>os_tokens = ts @ [t], os_current = [], os_in_token = False, os_quote = None\<rparr>"
      unfolding opt_step_token[OF qt] sp ..
    finally show ?thesis unfolding Cons.IH[OF rest False] x using False by simp
  qed
qed simp

text \<open>C16: Quoting is enough for any argument: options made of tokens in single or double quotes, separated by
  spaces, are split into exactly those tokens, empty ones and ones with spaces included.\<close>

theorem docker_options_round_trip:
  assumes "list_all (\<lambda>(q, t). q \<in> {CHR 0x22, squote} \<and> q \<notin> set t) qts"
  shows "splitDockerOptions (str_join (map quoted_token qts) '' '') = Inr (map snd qts)"
proof (cases "qts = []")
  case True
  then show ?thesis by (simp add: splitDockerOptions_def opt_init_def opt_flush_def)
next
  case False
  have "map snd (butlast qts) @ [snd (last qts)] = map snd qts"
    using False by (metis append_butlast_last_id list.simps(8,9) map_append)
  then show ?thesis
    using opt_step_join[OF assms False, of "[]"] by (simp add: splitDockerOptions_def opt_init_def opt_flush_def)
qed

theorem docker_options_round_trip_witness:
  "splitDockerOptions (str_join (map quoted_token [(CHR 0x22, ''pg_isready -U x''), (squote, [])]) '' '') =
    Inr [''pg_isready -U x'', []]"
proof -
  have q: "list_all (\<lambda>(q, t). q \<in> {CHR 0x22, squote} \<and> q \<notin> set t) [(CHR 0x22, ''pg_isready -U x''), (squote, [])]"
    by code_simp
  show ?thesis using docker_options_round_trip[OF q] by simp
qed

subsection \<open>Waiting ends\<close>

text \<open>A clock that no process turns back and that a second's sleep moves on by a second at least.\<close>

definition clock_ok :: "'w host \<Rightarrow> bool" where
  "clock_ok h \<longleftrightarrow> (\<forall>p w. h_now h w \<le> h_now h (snd (h_run h p w))) \<and>
     (\<forall>w. h_now h w + 1000000000 \<le> h_now h (h_sleep h 1000000000 w))"

lemma health_poll_again:
  assumes "clock_ok h" "health_poll h ctx c D w = (None, w1)"
  shows "h_now h w \<le> D" "h_now h w + 1000000000 \<le> h_now h w1"
proof -
  let ?p = "(cmd_of [''docker'', ''inspect'', ''--format'', ''{{.State.Health.Status}}'', c])\<lparr>pr_deadline := ctx\<rparr>"
  have run: "h_now h w \<le> h_now h (snd (h_run h ?p w))" using assms(1) by (simp add: clock_ok_def)
  have "\<not> D < h_now h (snd (h_run h ?p w)) \<and> w1 = h_sleep h 1000000000 (snd (h_run h ?p w))"
    using assms(2) by (simp add: health_poll_def Let_def split: prod.splits if_splits)
  moreover have "h_now h v + 1000000000 \<le> h_now h (h_sleep h 1000000000 v)" for v
    using assms(1) by (simp add: clock_ok_def)
  ultimately show "h_now h w \<le> D" "h_now h w + 1000000000 \<le> h_now h w1"
    using run by (auto intro: order_trans add_right_mono)
qed

lemma health_loop_answers:
  assumes "clock_ok h" "D < h_now h w + int n * 1000000000"
  shows "fst (health_loop h ctx c D (Suc n) w) \<noteq> None"
  using assms(2)
proof (induction n arbitrary: w)
  case 0
  then show ?case using health_poll_again(1)[OF assms(1), of ctx c D w]
    by (fastforce split: prod.splits option.splits)
next
  case (Suc n)
  show ?case
  proof (cases "health_poll h ctx c D w")
    case (Pair r w1)
    show ?thesis
    proof (cases r)
      case None
      have "D < h_now h w1 + int n * 1000000000"
        using Suc.prems health_poll_again(2)[OF assms(1), of ctx c D w w1] Pair None by simp
      from Suc.IH[OF this] Pair None show ?thesis by simp
    qed (simp add: Pair)
  qed
qed

text \<open>C15: Waiting for a service ends: with a clock that moves, \<open>waitForServiceHealth\<close> answers (healthy, no
  health check, or the error that the service did not become healthy in five minutes) within 302 polls,
  whatever \<open>docker inspect\<close> reports.\<close>

theorem wait_polls_enough:
  assumes "clock_ok h"
  shows "fst (health_loop h ctx c (h_now h w + health_timeout) max_polls w) \<noteq> None"
proof -
  have "h_now h w + health_timeout < h_now h w + int 301 * 1000000000" by (simp add: health_timeout_def)
  from health_loop_answers[OF assms this] show ?thesis by (simp add: max_polls_def eval_nat_numeral)
qed

text \<open>A host whose containers stay in the state \<open>starting\<close> and whose only state is the clock.\<close>

definition starting_host :: "int host" where
  "starting_host = \<lparr>h_eval = (\<lambda>_. sample_env), h_stat = (\<lambda>_ _. False), h_read = (\<lambda>_ _. NotExist),
     h_create = (\<lambda>_ w. (Inr (), w)), h_mkdir_all = (\<lambda>_ w. (Inr (), w)), h_remove_all = (\<lambda>_ w. (Inr (), w)),
     h_remove = (\<lambda>_ w. w), h_mkdir_temp = (\<lambda>d p w. (Inr (d @ p), w)), h_create_temp = (\<lambda>p w. (Inr p, w)),
     h_run = (\<lambda>_ w. (Exited 0 ''starting'' [], w)), h_now = (\<lambda>w. w), h_sleep = (\<lambda>d w. w + d),
     h_cache_dir = Inr ''/cache'', h_goos = ''linux'', h_goarch = ''amd64'',
     h_yaml_action = (\<lambda>_. Inl ''no yaml''), h_json_object = (\<lambda>_. Inr [])\<rparr>"

theorem wait_polls_enough_witness:
  "fst (health_loop starting_host [] ''c1'' (h_now starting_host 0 + health_timeout) max_polls 0) \<noteq> None"
  by (rule wait_polls_enough) (simp add: clock_ok_def starting_host_def)

end
