(* ===== verification/Actions.thy ===== *)
theory Actions
  imports Host
begin

text \<open>
  Resolving what a \<open>uses:\<close> step refers to (\<open>internal/actions\<close>): the reference itself (\<open>resolve.go\<close>), the
  action's metadata (\<open>metadata.go\<close>), its inputs as environment variables (\<open>input_env.go\<close>), fetching its
  source and the Node runtime into the cache (\<open>fetch.go\<close>, \<open>node.go\<close>, \<open>cache.go\<close>) and the image of a
  Docker action (\<open>docker.go\<close>).
\<close>

subsection \<open>resolve.go\<close>

record ActionRef =
  ar_local :: bool
  ar_local_path :: string
  ar_docker :: bool
  ar_docker_image :: string
  ar_owner :: string
  ar_repo :: string
  ar_subpath :: string
  ar_ref :: string

definition empty_ref :: ActionRef where
  "empty_ref = \<lparr>ar_local = False, ar_local_path = [], ar_docker = False, ar_docker_image = [],
     ar_owner = [], ar_repo = [], ar_subpath = [], ar_ref = []\<rparr>"

definition ResolveUsesRef :: "string \<Rightarrow> string + ActionRef" where
  "ResolveUsesRef uses =
     (if HasPrefix uses ''docker://''
      then Inr (empty_ref\<lparr>ar_docker := True, ar_docker_image := TrimPrefix uses ''docker://''\<rparr>)
      else if HasPrefix uses ''./'' \<or> HasPrefix uses ''../''
      then Inr (empty_ref\<lparr>ar_local := True, ar_local_path := uses\<rparr>)
      else case last_index uses (CHR 0x40) of
        None \<Rightarrow> Inl (''uses '' @ uses @ '' is missing a ref (e.g. owner/repo at v1)'')
      | Some atIdx \<Rightarrow>
          (let repoPart = take atIdx uses; ref = drop (atIdx + 1) uses in
           if ref = [] then Inl (''uses '' @ uses @ '' has an empty ref'')
           else (let parts = str_split slash repoPart in
             if length parts < 2 \<or> parts ! 0 = [] \<or> parts ! 1 = []
             then Inl (''uses '' @ uses @ '' must be in the form owner/repo[/subpath] and a ref'')
             else Inr (empty_ref\<lparr>ar_owner := parts ! 0, ar_repo := parts ! 1, ar_ref := ref,
                    ar_subpath := (if 2 < length parts then str_join (drop 2 parts) [slash] else [])\<rparr>))))"

subsection \<open>input_env.go and metadata.go\<close>

definition inputEnvKey :: "string \<Rightarrow> string" where
  "inputEnvKey name = ''INPUT_'' @
     map (\<lambda>c. if is_upper c \<or> is_digit c \<or> c = CHR ''-'' then c else CHR ''_'') (ToUpper name)"

definition InputEnv :: "ActionMetadata \<Rightarrow> string smap \<Rightarrow> string smap" where
  "InputEnv metadata withs =
     (let env = fold (\<lambda>(name, input) env. if in_default input \<noteq> []
            then mput (inputEnvKey name) (in_default input) env else env) (md_inputs metadata) []
      in fold (\<lambda>(name, val) env. mput (inputEnvKey name) val env) withs env)"

fun parse_metadata_files :: "'w host \<Rightarrow> string \<Rightarrow> string list \<Rightarrow> ('w, ActionMetadata) io" where
  "parse_metadata_files h dir [] =
     io_fail (Message (''neither action.yml nor action.yaml found in '' @ dir))"
| "parse_metadata_files h dir (name # names) = (\<lambda>w.
     case h_read h (Join [dir, name]) w of
       NotExist \<Rightarrow> parse_metadata_files h dir names w
     | ReadFailed e \<Rightarrow> (Inl (Wrapped (''read '' @ name) (Message e)), w)
     | Content data \<Rightarrow> (case h_yaml_action h data of
           Inl e \<Rightarrow> (Inl (Wrapped (''parse '' @ name) (Message e)), w)
         | Inr meta \<Rightarrow> (Inr meta, w)))"

definition ParseMetadata :: "'w host \<Rightarrow> string \<Rightarrow> ('w, ActionMetadata) io" where
  "ParseMetadata h dir = parse_metadata_files h dir [''action.yml'', ''action.yaml'']"

subsection \<open>cache.go, fetch.go and node.go\<close>

definition CacheRoot :: "'w host \<Rightarrow> string + string" where
  "CacheRoot h = (case h_cache_dir h of Inl e \<Rightarrow> Inl e | Inr base \<Rightarrow> Inr (Join [base, ''mirror-gha'']))"

text \<open>The download both share: into a temporary file that is removed on every path, then unpacked into a
  fresh \<open>dest\<close>.\<close>

definition download_into :: "'w host \<Rightarrow> string \<Rightarrow> string \<Rightarrow> string \<Rightarrow> ('w, string) io" where
  "download_into h pattern url dest =
     io_bind (io_wrap ''create temp file'' (io_op (h_create_temp h pattern))) (\<lambda>tmpPath w.
       case io_bind (io_wrap (''download '' @ url) (run_ok h (cmd_of [''curl'', ''-fsSL'', ''-o'', tmpPath, url]))) (\<lambda>_.
         io_bind (io_wrap (''clear stale cache dir '' @ dest) (io_op (h_remove_all h dest))) (\<lambda>_.
         io_bind (io_wrap (''create cache dir '' @ dest) (io_op (h_mkdir_all h dest))) (\<lambda>_.
         io_bind (io_wrap (''extract '' @ tmpPath)
           (run_ok h (cmd_of [''tar'', ''-xzf'', tmpPath, ''-C'', dest, ''--strip-components=1'']))) (\<lambda>_.
         io_ret dest)))) w of
         (r, w1) \<Rightarrow> (r, h_remove h tmpPath w1))"

definition FetchRemote :: "'w host \<Rightarrow> string \<Rightarrow> string \<Rightarrow> string \<Rightarrow> string \<Rightarrow> ('w, string) io" where
  "FetchRemote h owner repo ref cacheRoot w =
     (let dest = Join [cacheRoot, ''actions'', owner, repo, ref] in
      if h_stat h (Join [dest, ''action.yml'']) w then (Inr dest, w)
      else if h_stat h (Join [dest, ''action.yaml'']) w then (Inr dest, w)
      else download_into h ''mirror-action-*.tar.gz''
        (''https://codeload.github.com/'' @ owner @ ''/'' @ repo @ ''/tar.gz/'' @ ref) dest w)"

definition PinnedNodeVersion :: string where "PinnedNodeVersion = ''20.11.1''"
definition ContainerNodePath :: string where "ContainerNodePath = ''/mirror-node''"

definition ContainerActionPath :: "string \<Rightarrow> string" where
  "ContainerActionPath stepID = ''/mirror-actions/'' @ stepID"

definition nodeArch :: "'w host \<Rightarrow> string + string" where
  "nodeArch h = (if h_goarch h = ''amd64'' then Inr ''x64''
     else if h_goarch h = ''arm64'' then Inr ''arm64''
     else Inl (''unsupported architecture for the Node runtime: '' @ h_goarch h))"

definition EnsureNode :: "'w host \<Rightarrow> string \<Rightarrow> string \<Rightarrow> ('w, string) io" where
  "EnsureNode h cacheRoot platform =
     (if platform \<noteq> ''linux'' \<and> platform \<noteq> ''darwin''
      then io_fail (Message (''unsupported Node runtime platform: '' @ platform))
      else io_bind (io_res Message (nodeArch h)) (\<lambda>arch w.
        let dest = Join [cacheRoot, ''node'', PinnedNodeVersion, platform, arch] in
        if h_stat h (Join [dest, ''bin'', ''node'']) w then (Inr dest, w)
        else download_into h ''mirror-node-*.tar.gz''
          (''https://nodejs.org/dist/v'' @ PinnedNodeVersion @ ''/node-v'' @ PinnedNodeVersion @ ''-'' @ platform @ ''-'' @
           arch @ ''.tar.gz'') dest w))"

subsection \<open>docker.go\<close>

text \<open>Runs of characters outside \<open>[a-zA-Z0-9]\<close> become one dash.\<close>

definition is_tag_char :: "char \<Rightarrow> bool" where
  "is_tag_char c \<longleftrightarrow> is_upper c \<or> is_lower c \<or> is_digit c"

fun sanitize_tag :: "string \<Rightarrow> bool \<Rightarrow> string" where
  "sanitize_tag [] in_run = []"
| "sanitize_tag (c # cs) in_run =
     (if is_tag_char c then c # sanitize_tag cs False
      else if in_run then sanitize_tag cs True else CHR ''-'' # sanitize_tag cs True)"

definition imageTagFor :: "string \<Rightarrow> string + string" where
  "imageTagFor actionRef = (if actionRef = [] then Inl ''actionRef must not be empty''
     else Inr (''mirror-gha-'' @ ToLower (sanitize_tag actionRef False) @ '':latest''))"

definition BuildActionImage :: "'w host \<Rightarrow> deadline \<Rightarrow> string \<Rightarrow> string \<Rightarrow> string \<Rightarrow> ('w, string) io" where
  "BuildActionImage h ctx hostSourceDir dockerfileRelPath actionRef =
     io_bind (io_res Message (imageTagFor actionRef)) (\<lambda>tag w.
       case run_ok h ((cmd_of [''docker'', ''image'', ''inspect'', tag])\<lparr>pr_deadline := ctx\<rparr>) w of
         (Inr _, w1) \<Rightarrow> (Inr tag, w1)
       | (Inl _, w1) \<Rightarrow>
           (let dockerfile = Join [hostSourceDir, dockerfileRelPath] in
            io_bind (io_wrap (''docker build '' @ dockerfile)
              (run_ok h ((cmd_of [''docker'', ''build'', ''-f'', dockerfile, ''-t'', tag, hostSourceDir])\<lparr>pr_deadline := ctx\<rparr>)))
              (\<lambda>_. io_ret tag) w1))"

definition ResolveDockerImage :: "'w host \<Rightarrow> deadline \<Rightarrow> string \<Rightarrow> string \<Rightarrow> ActionRuns \<Rightarrow> ('w, string) io" where
  "ResolveDockerImage h ctx hostSourceDir actionRef runs =
     (if HasPrefix (runs_image runs) ''docker://'' then io_ret (TrimPrefix (runs_image runs) ''docker://'')
      else if runs_image runs = [] then io_fail (Message ''docker action has no runs.image set'')
      else BuildActionImage h ctx hostSourceDir (runs_image runs) actionRef)"

subsection \<open>References\<close>

lemma not_docker_prefix:
  assumes "repo \<noteq> []" "slash \<notin> set owner" "slash \<notin> set repo"
  shows "\<not> HasPrefix (owner @ slash # repo @ r) ''docker://''"
proof
  assume "HasPrefix (owner @ slash # repo @ r) ''docker://''"
  then obtain q where q: "owner @ slash # repo @ r = ''docker:'' @ slash # slash # q" by (auto simp: HasPrefix_iff)
  have s: "takeWhile (\<lambda>c. c \<noteq> slash) (x @ slash # y) = x" "dropWhile (\<lambda>c. c \<noteq> slash) (x @ slash # y) = slash # y"
    if "slash \<notin> set x" for x y
    using that by (induction x) auto
  have "slash \<notin> set ''docker:''" by simp
  with s[OF assms(2)] s[OF this] q have "repo @ r = slash # q" by (metis list.inject)
  with assms(1,3) show False by (cases repo) auto
qed

text \<open>C17: A Marketplace reference reads back: \<open>owner/repo\<close>, an optional subpath and \<open>@ref\<close> are resolved into
  exactly these parts, for any owner but \<open>.\<close> and \<open>..\<close> and any subpath, one with an \<open>@\<close> included.\<close>

theorem uses_ref_round_trip:
  assumes "owner \<noteq> []" "repo \<noteq> []" "ref \<noteq> []" "slash \<notin> set owner" "slash \<notin> set repo" "CHR 0x40 \<notin> set ref"
    and "owner \<noteq> ''.''" "owner \<noteq> ''..''"
  shows "ResolveUsesRef (owner @ slash # repo @ (if sub = [] then [] else slash # sub) @ CHR 0x40 # ref) =
    Inr (empty_ref\<lparr>ar_owner := owner, ar_repo := repo, ar_ref := ref, ar_subpath := sub\<rparr>)"
proof -
  let ?tail = "if sub = [] then [] else slash # sub"
  let ?path = "owner @ slash # repo @ ?tail"
  have sep: "str_split slash (w @ slash # s) = w # str_split slash s" if "slash \<notin> set w" for w s
    using that by (simp add: str_split_joined str_split_no)
  have parts: "str_split slash ?path = owner # repo # (if sub = [] then [] else str_split slash sub)"
    using sep[OF assms(4)] sep[OF assms(5), of sub] str_split_no[OF assms(5)] by simp
  have dots: "\<not> HasPrefix (owner @ slash # r) ''./''" "\<not> HasPrefix (owner @ slash # r) ''../''" for r
    using assms(1,4,7,8) by (cases owner; cases "tl owner"; cases "tl (tl owner)"; auto)+
  have at: "last_index (?path @ CHR 0x40 # ref) (CHR 0x40) = Some (length ?path)"
    by (rule last_index_app[OF assms(6)])
  have u: "owner @ slash # repo @ ?tail @ CHR 0x40 # ref = ?path @ CHR 0x40 # ref" by simp
  have tk: "take (length ?path) (?path @ CHR 0x40 # ref) = ?path"
    "drop (length ?path + 1) (?path @ CHR 0x40 # ref) = ref" by simp_all
  have "\<not> HasPrefix (?path @ CHR 0x40 # ref) ''docker://''"
    using not_docker_prefix[OF assms(2,4,5), of "?tail @ CHR 0x40 # ref"] by simp
  moreover have "\<not> HasPrefix (?path @ CHR 0x40 # ref) ''./''" "\<not> HasPrefix (?path @ CHR 0x40 # ref) ''../''"
    using dots[of "repo @ ?tail @ CHR 0x40 # ref"] by simp_all
  ultimately show ?thesis
    unfolding u ResolveUsesRef_def at option.case tk Let_def parts using assms(1-3) str_join_split[of slash sub]
    by (simp add: str_split_not_Nil)
qed

theorem uses_ref_round_trip_witness:
  "ResolveUsesRef (''actions'' @ slash # ''cache'' @ (if ''save'' = [] then [] else slash # ''save'') @ CHR 0x40 # ''v4'') =
    Inr (empty_ref\<lparr>ar_owner := ''actions'', ar_repo := ''cache'', ar_ref := ''v4'', ar_subpath := ''save''\<rparr>)"
  by (rule uses_ref_round_trip) simp_all

subsection \<open>Inputs as environment variables\<close>

lemma inputEnvKey_context: "inputEnvKey = inputEnvKeyFor"
  by (simp add: fun_eq_iff inputEnvKey_def inputEnvKeyFor_def)

lemma InputEnv_merge: "InputEnv md withs =
    merge (InputEnv md []) (map (\<lambda>(name, v). (inputEnvKey name, v)) withs)"
proof -
  have "fold (\<lambda>(name, v) env. mput (inputEnvKey name) v env) ws e =
      merge e (map (\<lambda>(name, v). (inputEnvKey name, v)) ws)" for ws e
    unfolding merge_def by (induction ws arbitrary: e) auto
  then show ?thesis by (simp add: InputEnv_def)
qed

lemma InputEnv_given:
  assumes "(name, v) \<in> set withs" "distinct (map (\<lambda>p. inputEnvKey (fst p)) withs)"
  shows "mget (InputEnv md withs) (inputEnvKey name) = Some v"
proof -
  let ?m = "map (\<lambda>(name, v). (inputEnvKey name, v)) withs"
  have wf: "map_wf ?m" using assms(2) by (simp add: map_wf_def comp_def case_prod_beta)
  have "mget ?m (inputEnvKey name) = Some v"
    using wf assms(1) unfolding map_wf_def by (intro map_of_is_SomeI) force+
  then show ?thesis unfolding InputEnv_merge[of md withs] by (simp add: mget_merge[OF wf])
qed

lemma map_wf_InputEnv: "map_wf (InputEnv md withs)"
proof -
  have "map_wf e \<Longrightarrow> map_wf (fold (\<lambda>(name, input) env. if in_default input \<noteq> []
      then mput (inputEnvKey name) (in_default input) env else env) ins e)" for ins :: "ActionInput smap" and e
    by (induction ins arbitrary: e) auto
  then have "map_wf (InputEnv md [])" by (simp add: InputEnv_def)
  then show ?thesis by (subst InputEnv_merge) simp
qed

end
