(* ===== verification/Executor.thy ===== *)
theory Executor
  imports Runner Actions
begin

text \<open>
  Running one job (\<open>internal/engine/executor.go\<close>): its steps one after the other in one environment, each
  a command, a JavaScript or Docker action (\<open>uses_step.go\<close>) or a composite action with steps of its own
  (\<open>composite_step.go\<close>), then the post actions and the job's outputs. The state a step changes is
  \<open>exec_state\<close>: the expression context, whether the Node runtime has been copied, the masks and the
  world outside. Contexts carry their timeouts.
\<close>

subsection \<open>State, parameters, results\<close>

record 'w exec_state =
  x_ctx :: Context
  x_node :: bool
  x_masks :: "string list"
  x_world :: 'w

record JobResult_step =
  rep_id :: string
  rep_name :: string
  rep_conclusion :: string
  rep_exit_code :: int
  rep_stdout :: string
  rep_stderr :: string

record JobResult =
  jr_conclusion :: string
  jr_steps :: "JobResult_step list"
  jr_outputs :: "string smap"

record JobRunOptions =
  ro_needs :: "JobOutcome smap"
  ro_matrix :: combination
  ro_vars :: "string smap"
  ro_workspace_dir :: string
  ro_local_overrides :: "string smap"
  ro_extra_env :: "string smap"
  ro_job_id :: string
  ro_event_name :: string
  ro_event_json_dir :: string

record 'w runStepParams =
  pm_workflow :: Workflow
  pm_job :: Job
  pm_runner :: "'w runner_job"
  pm_workspace_dir :: string
  pm_local_overrides :: "string smap"
  pm_depth :: nat

record postAction =
  pa_args :: "string list"
  pa_env :: "string smap"
  pa_post_if :: string

record pendingPostAction =
  pp_action :: postAction
  pp_step_id :: string
  pp_state_file :: string

record compositeInvocation =
  ci_steps :: "Step list"
  ci_outputs :: "ActionOutput smap"
  ci_base_env :: "string smap"

record usesStepPlan =
  pl_args :: "string list"
  pl_env :: "string smap"
  pl_docker :: "DockerActionSpec option"
  pl_composite :: "compositeInvocation option"
  pl_post :: "postAction option"

definition empty_plan :: usesStepPlan where
  "empty_plan = \<lparr>pl_args = [], pl_env = [], pl_docker = None, pl_composite = None, pl_post = None\<rparr>"

definition empty_job :: Job where
  "empty_job = \<lparr>job_name = [], job_runs_on = [], job_env = [], job_steps = [], job_needs = [], job_strategy = None,
     job_outputs = [], job_timeout_minutes = f64_of_int 0, job_defaults = None, job_raw_container = ZeroNode,
     job_services = [], job_raw_environment = ZeroNode, job_raw_permissions = ZeroNode, job_raw_concurrency = ZeroNode\<rparr>"

definition empty_workflow :: Workflow where
  "empty_workflow = \<lparr>wf_name = [], wf_on = VNil, wf_env = [], wf_defaults = None, wf_jobs = [],
     wf_raw_permissions = ZeroNode, wf_raw_concurrency = ZeroNode\<rparr>"

text \<open>Effects on the world, and expressions evaluated in the current context.\<close>

definition on_world :: "('w, 'a) io \<Rightarrow> ('w exec_state, 'a) io" where
  "on_world m st = (case m (x_world st) of (r, w) \<Rightarrow> (r, st\<lparr>x_world := w\<rparr>))"

definition subst_expr :: "'w host \<Rightarrow> string \<Rightarrow> ('w exec_state, string) io" where
  "subst_expr h s st = io_res EvalFailed (SubstituteExpressions (h_eval h (x_world st)) s (x_ctx st)) st"

definition eval_bool :: "'w host \<Rightarrow> string \<Rightarrow> ('w exec_state, bool) io" where
  "eval_bool h s st = io_res EvalFailed (EvalBool (h_eval h (x_world st)) s (x_ctx st)) st"

definition upd_ctx :: "(Context \<Rightarrow> Context) \<Rightarrow> ('w exec_state, unit) io" where
  "upd_ctx f st = (Inr (), st\<lparr>x_ctx := f (x_ctx st)\<rparr>)"

definition parse_kv_file :: "'w host \<Rightarrow> string \<Rightarrow> ('w exec_state, string smap) io" where
  "parse_kv_file h path st =
     io_res FileFailed (ParseKeyValueFile (case h_read h path (x_world st) of
         NotExist \<Rightarrow> Inl ''no such file'' | ReadFailed e \<Rightarrow> Inl e | Content c \<Rightarrow> Inr c)) st"

definition set_outcome :: "string \<Rightarrow> StepOutcome \<Rightarrow> Context \<Rightarrow> Context" where
  "set_outcome sid o' c = c\<lparr>ctx_steps := mput sid o' (ctx_steps c)\<rparr>"

definition add_env :: "string smap \<Rightarrow> Context \<Rightarrow> Context" where
  "add_env m c = c\<lparr>ctx_env := merge (ctx_env c) m\<rparr>"

subsection \<open>executor.go: helpers\<close>

definition toRunnerContainerSpec :: "ContainerSpec option \<Rightarrow> exec_error + RunnerContainerSpec option" where
  "toRunnerContainerSpec spec = (case spec of None \<Rightarrow> Inr None
   | Some s \<Rightarrow> (case validateCredentials (cs_credentials s) of
       Inl e \<Rightarrow> Inl (Wrapped ''container credentials'' (CredentialsRejected e))
     | Inr (username, password) \<Rightarrow> Inr (Some \<lparr>rc_image = cs_image s, rc_env = cs_env s, rc_ports = cs_ports s,
         rc_volumes = cs_volumes s, rc_options = cs_options s, rc_username = username, rc_password = password\<rparr>)))"

definition exportGitHubContextEnv :: "string smap \<Rightarrow> Context \<Rightarrow> string smap" where
  "exportGitHubContextEnv env actx =
     fold (\<lambda>(k, v) env. case v of VStr s \<Rightarrow> mput (''GITHUB_'' @ ToUpper k) s env | _ \<Rightarrow> env) (ctx_github actx) env"

definition effectiveShell :: "Step \<Rightarrow> Job \<Rightarrow> Workflow \<Rightarrow> string" where
  "effectiveShell step job w =
     (if step_shell step \<noteq> [] then step_shell step
      else case job_defaults job of
        Some d \<Rightarrow> (if rd_shell d \<noteq> [] then rd_shell d
          else (case wf_defaults w of Some d' \<Rightarrow> rd_shell d' | None \<Rightarrow> []))
      | None \<Rightarrow> (case wf_defaults w of Some d' \<Rightarrow> rd_shell d' | None \<Rightarrow> []))"

definition effectiveWorkingDirectory :: "Step \<Rightarrow> Job \<Rightarrow> Workflow \<Rightarrow> string" where
  "effectiveWorkingDirectory step job w =
     (if step_working_directory step \<noteq> [] then step_working_directory step
      else case job_defaults job of
        Some d \<Rightarrow> (if rd_working_directory d \<noteq> [] then rd_working_directory d
          else (case wf_defaults w of Some d' \<Rightarrow> rd_working_directory d' | None \<Rightarrow> []))
      | None \<Rightarrow> (case wf_defaults w of Some d' \<Rightarrow> rd_working_directory d' | None \<Rightarrow> []))"

definition with_timeout :: "float64 \<Rightarrow> deadline \<Rightarrow> deadline" where
  "with_timeout minutes ctx = (if f64_of_int 0 < minutes then ctx @ [minutes] else ctx)"

text \<open>\<open>CreateFileSet\<close>: the five files, created empty in this order.\<close>

definition FileSet_paths :: "FileSet \<Rightarrow> string list" where
  "FileSet_paths fs = [fs_env fs, fs_path fs, fs_output fs, fs_summary fs, fs_state fs]"

definition CreateFileSet :: "'w host \<Rightarrow> string \<Rightarrow> ('w, FileSet) io" where
  "CreateFileSet h dir =
     io_bind (io_map (\<lambda>p. io_wrap (''create '' @ p) (io_op (h_create h p))) (FileSet_paths (FileSet_names dir)))
       (\<lambda>_. io_ret (FileSet_names dir))"

subsection \<open>uses\_step.go\<close>

definition subst_with :: "'w host \<Rightarrow> string smap \<Rightarrow> ('w exec_state, string smap) io" where
  "subst_with h m = io_map (\<lambda>(k, v). io_bind (io_wrap (''substitute with.'' @ k) (subst_expr h v)) (\<lambda>val. io_ret (k, val))) m"

definition docker_needs_linux :: "'w runStepParams \<Rightarrow> ('w exec_state, unit) io" where
  "docker_needs_linux p =
     (if rj_Platform (pm_runner p) \<noteq> ''linux''
      then io_fail (Message (''docker actions require a Linux job (this job is running on '' @ rj_Platform (pm_runner p) @ '')''))
      else io_ret ())"

text \<open>A raw \<open>docker://image\<close> reference.\<close>

definition plan_docker_image :: "'w runStepParams \<Rightarrow> string \<Rightarrow> string smap \<Rightarrow> ('w exec_state, usesStepPlan) io" where
  "plan_docker_image p img withs = io_bind (docker_needs_linux p) (\<lambda>_.
     io_ret (empty_plan\<lparr>pl_docker := Some \<lparr>da_image = img,
       da_entrypoint = (case mget withs ''entrypoint'' of Some v \<Rightarrow> if v \<noteq> [] then str_fields v else [] | None \<Rightarrow> []),
       da_args = (case mget withs ''args'' of Some v \<Rightarrow> str_fields v | None \<Rightarrow> []),
       da_env = [], da_action_source_dir = [], da_action_path_in_container = [], da_files_dir = []\<rparr>\<rparr>))"

definition action_source_dir :: "'w host \<Rightarrow> 'w runStepParams \<Rightarrow> string \<Rightarrow> ActionRef \<Rightarrow> string \<Rightarrow> ('w exec_state, string) io" where
  "action_source_dir h p uses ref cacheRoot =
     (if ar_local ref then io_ret (Join [pm_workspace_dir p, ar_local_path ref])
      else case mget (pm_local_overrides p) (ar_owner ref @ ''/'' @ ar_repo ref @ [CHR 0x40] @ ar_ref ref) of
        Some localPath \<Rightarrow> io_ret localPath
      | None \<Rightarrow> io_bind (io_wrap (''fetch action '' @ uses)
            (on_world (FetchRemote h (ar_owner ref) (ar_repo ref) (ar_ref ref) cacheRoot))) (\<lambda>actionDir.
          io_ret (if ar_subpath ref \<noteq> [] then Join [actionDir, ar_subpath ref] else actionDir)))"

text \<open>The Node runtime is copied into the job once.\<close>

definition ensure_node_ready :: "'w host \<Rightarrow> deadline \<Rightarrow> 'w runStepParams \<Rightarrow> string \<Rightarrow> ('w exec_state, unit) io" where
  "ensure_node_ready h ctx p cacheRoot st = (if x_node st then (Inr (), st) else
     io_bind (io_wrap ''ensure node runtime'' (on_world (EnsureNode h cacheRoot (rj_Platform (pm_runner p))))) (\<lambda>nodeDir.
     io_bind (io_wrap ''copy node runtime into job'' (on_world (rj_CopyToContainer (pm_runner p) ctx nodeDir ContainerNodePath)))
       (\<lambda>_ st1. (Inr (), st1\<lparr>x_node := True\<rparr>))) st)"

definition node_args :: "string \<Rightarrow> string \<Rightarrow> string list" where
  "node_args actionPath script = [ContainerNodePath @ ''/bin/node'', actionPath @ ''/'' @ script]"

definition plan_node :: "'w host \<Rightarrow> deadline \<Rightarrow> 'w runStepParams \<Rightarrow> string \<Rightarrow> Step \<Rightarrow> string \<Rightarrow> string \<Rightarrow> ActionMetadata \<Rightarrow>
    string smap \<Rightarrow> ('w exec_state, usesStepPlan) io" where
  "plan_node h ctx p stepID step cacheRoot hostSourceDir metadata withs =
     io_bind (ensure_node_ready h ctx p cacheRoot) (\<lambda>_.
     io_bind (io_wrap (''copy action '' @ step_uses step)
       (on_world (rj_CopyToContainer (pm_runner p) ctx hostSourceDir (ContainerActionPath stepID)))) (\<lambda>_.
     let env = mput ''GITHUB_ACTION_PATH'' (ContainerActionPath stepID) (InputEnv metadata withs);
         runs = md_runs metadata
     in io_ret (empty_plan\<lparr>pl_args := node_args (ContainerActionPath stepID) (runs_main runs), pl_env := env,
          pl_post := (if runs_post runs = [] then None
            else Some \<lparr>pa_args = node_args (ContainerActionPath stepID) (runs_post runs), pa_env = env,
              pa_post_if = runs_post_if runs\<rparr>)\<rparr>)))"

definition plan_docker :: "'w host \<Rightarrow> deadline \<Rightarrow> 'w runStepParams \<Rightarrow> string \<Rightarrow> Step \<Rightarrow> string \<Rightarrow> ActionMetadata \<Rightarrow>
    string smap \<Rightarrow> ('w exec_state, usesStepPlan) io" where
  "plan_docker h ctx p stepID step hostSourceDir metadata withs =
     io_bind (docker_needs_linux p) (\<lambda>_.
     io_bind (io_wrap (''resolve docker image for '' @ step_uses step)
       (on_world (ResolveDockerImage h ctx hostSourceDir (step_uses step) (md_runs metadata)))) (\<lambda>img.
     let runs = md_runs metadata;
         entrypoint = (case mget withs ''entrypoint'' of Some v \<Rightarrow> v | None \<Rightarrow> runs_entrypoint runs);
         args = (case mget withs ''args'' of Some v \<Rightarrow> str_fields v | None \<Rightarrow> runs_args runs)
     in io_ret (empty_plan\<lparr>pl_env := merge (InputEnv metadata withs) (runs_env runs),
          pl_docker := Some \<lparr>da_image = img, da_entrypoint = (if entrypoint = [] then [] else str_fields entrypoint),
            da_args = args, da_env = [], da_action_source_dir = hostSourceDir,
            da_action_path_in_container = ContainerActionPath stepID, da_files_dir = []\<rparr>\<rparr>)))"

definition nested_step :: "ActionStep \<Rightarrow> Step" where
  "nested_step a = \<lparr>step_id = as_id a, step_name = as_name a, step_run = as_run a, step_uses = as_uses a,
     step_with = as_with a, step_shell = as_shell a, step_env = as_env a, step_if = as_if a,
     step_continue_on_error = as_continue_on_error a, step_working_directory = as_working_directory a,
     step_timeout_minutes = f64_of_int 0\<rparr>"

definition plan_composite :: "deadline \<Rightarrow> 'w runStepParams \<Rightarrow> string \<Rightarrow> Step \<Rightarrow> string \<Rightarrow> ActionMetadata \<Rightarrow>
    string smap \<Rightarrow> ('w exec_state, usesStepPlan) io" where
  "plan_composite ctx p stepID step hostSourceDir metadata withs =
     io_bind (io_wrap (''copy composite action '' @ step_uses step)
       (on_world (rj_CopyToContainer (pm_runner p) ctx hostSourceDir (ContainerActionPath stepID)))) (\<lambda>_.
     io_ret (empty_plan\<lparr>pl_composite := Some \<lparr>ci_steps = map nested_step (runs_steps (md_runs metadata)),
       ci_outputs = md_outputs metadata,
       ci_base_env = mput ''GITHUB_ACTION_PATH'' (ContainerActionPath stepID) (InputEnv metadata withs)\<rparr>\<rparr>))"

definition plan_action :: "'w host \<Rightarrow> deadline \<Rightarrow> 'w runStepParams \<Rightarrow> string \<Rightarrow> Step \<Rightarrow> string \<Rightarrow> string \<Rightarrow> ActionMetadata \<Rightarrow>
    string smap \<Rightarrow> ('w exec_state, usesStepPlan) io" where
  "plan_action h ctx p stepID step cacheRoot hostSourceDir metadata withs =
     (let kind = runs_using (md_runs metadata) in
      if HasPrefix kind ''node'' then plan_node h ctx p stepID step cacheRoot hostSourceDir metadata withs
      else if kind = ''docker'' then plan_docker h ctx p stepID step hostSourceDir metadata withs
      else if kind = ''composite'' then plan_composite ctx p stepID step hostSourceDir metadata withs
      else io_fail (Message (''action '' @ step_uses step @ '' has an unsupported runs.using '' @ kind)))"

definition prepareUsesStep :: "'w host \<Rightarrow> deadline \<Rightarrow> 'w runStepParams \<Rightarrow> string \<Rightarrow> Step \<Rightarrow> ('w exec_state, usesStepPlan) io" where
  "prepareUsesStep h ctx p stepID step =
     io_bind (subst_with h (step_with step)) (\<lambda>withs.
     io_bind (io_res Message (ResolveUsesRef (step_uses step))) (\<lambda>ref.
     if ar_docker ref then plan_docker_image p (ar_docker_image ref) withs
     else
       io_bind (io_res (\<lambda>e. Wrapped ''resolve cache root'' (Message e)) (CacheRoot h)) (\<lambda>cacheRoot.
       io_bind (action_source_dir h p (step_uses step) ref cacheRoot) (\<lambda>hostSourceDir.
       io_bind (io_wrap (''parse action metadata for '' @ step_uses step) (on_world (ParseMetadata h hostSourceDir))) (\<lambda>metadata.
       plan_action h ctx p stepID step cacheRoot hostSourceDir metadata withs)))))"

subsection \<open>executor.go: one step\<close>

text \<open>The guard and the condition of a step: whether it runs.\<close>

definition step_starts :: "'w host \<Rightarrow> Step \<Rightarrow> string \<Rightarrow> ('w exec_state, bool) io" where
  "step_starts h step sid =
     (if step_run step \<noteq> [] \<and> step_uses step \<noteq> []
      then io_fail (Message (''step '' @ sid @ '': cannot set both run: and uses:''))
      else if step_if step \<noteq> [] then io_wrap (''evaluate if: for step '' @ sid) (eval_bool h (step_if step))
      else io_ret True)"

definition skip_step :: "Step \<Rightarrow> string \<Rightarrow> ('w exec_state, JobResult_step \<times> pendingPostAction option) io" where
  "skip_step step sid =
     io_bind (upd_ctx (set_outcome sid \<lparr>so_outcome = ''skipped'', so_outputs = []\<rparr>)) (\<lambda>_.
     io_ret (\<lparr>rep_id = sid, rep_name = step_name step, rep_conclusion = ''skipped'', rep_exit_code = 0,
       rep_stdout = [], rep_stderr = []\<rparr>, None))"

text \<open>A command to run, or the plan of an action.\<close>

definition step_prepare :: "'w host \<Rightarrow> deadline \<Rightarrow> 'w runStepParams \<Rightarrow> Step \<Rightarrow> string \<Rightarrow> ('w exec_state, string \<times> usesStepPlan) io" where
  "step_prepare h ctx p step sid =
     (if step_uses step \<noteq> []
      then io_bind (io_wrap (''prepare uses: step '' @ sid) (prepareUsesStep h ctx p sid step)) (\<lambda>plan. io_ret ([], plan))
      else io_bind (io_wrap (''substitute expressions for step '' @ sid) (subst_expr h (step_run step)))
        (\<lambda>command. io_ret (command, empty_plan)))"

definition step_environment :: "'w runStepParams \<Rightarrow> Step \<Rightarrow> usesStepPlan \<Rightarrow> Context \<Rightarrow> string smap" where
  "step_environment p step plan c =
     merge (exportGitHubContextEnv
       (mput ''GITHUB_WORKSPACE'' (rj_WorkspacePath (pm_runner p)) (merge (merge [] (ctx_env c)) (step_env step))) c) (pl_env plan)"

definition step_directory :: "'w runStepParams \<Rightarrow> Step \<Rightarrow> string" where
  "step_directory p step = (let wd = effectiveWorkingDirectory step (pm_job p) (pm_workflow p) in
     if step_uses step = [] \<and> wd \<noteq> [] then wd else rj_WorkspacePath (pm_runner p))"

definition execute_plan :: "deadline \<Rightarrow> 'w runStepParams \<Rightarrow> Step \<Rightarrow> string \<Rightarrow> usesStepPlan \<Rightarrow> string smap \<Rightarrow> string \<Rightarrow>
    ('w, StepResult) io" where
  "execute_plan ctx p step command plan env filesDir = (case pl_docker plan of
     Some d \<Rightarrow> rj_RunDockerAction (pm_runner p) (with_timeout (step_timeout_minutes step) ctx)
       (d\<lparr>da_env := env, da_files_dir := filesDir\<rparr>)
   | None \<Rightarrow> rj_Exec (pm_runner p) (with_timeout (step_timeout_minutes step) ctx)
       \<lparr>sp_command = command, sp_args = pl_args plan, sp_shell = effectiveShell step (pm_job p) (pm_workflow p),
        sp_env = env, sp_working_directory = step_directory p step, sp_files_dir = filesDir\<rparr>)"

text \<open>Outputs of the file protocol win over those of the deprecated commands.\<close>

definition step_outputs :: "string smap \<Rightarrow> string \<Rightarrow> string smap" where
  "step_outputs fileOutputs stdout =
     fold (\<lambda>(k, v) m. if mget m k = None then mput k v m else m) (ParseLegacyOutputs stdout) fileOutputs"

definition conclusion_of :: "StepResult \<Rightarrow> string" where
  "conclusion_of r = (if sr_exit_code r \<noteq> 0 then ''failure'' else ''success'')"

text \<open>Rendering, then masking with every mask registered so far, this step's included.\<close>

definition report_step :: "Step \<Rightarrow> string \<Rightarrow> StepResult \<Rightarrow> ('w exec_state, JobResult_step) io" where
  "report_step step sid r st =
     (let showDebug = (mget (ctx_env (x_ctx st)) ''ACTIONS_STEP_DEBUG'' = Some ''true'') in
      case ProcessWorkflowCommands (sr_stdout r) showDebug of (stdout, stdoutMasks) \<Rightarrow>
      case ProcessWorkflowCommands (sr_stderr r) showDebug of (stderr, stderrMasks) \<Rightarrow>
        (let masks = x_masks st @ stdoutMasks @ stderrMasks in
         (Inr \<lparr>rep_id = sid, rep_name = step_name step, rep_conclusion = conclusion_of r,
            rep_exit_code = sr_exit_code r, rep_stdout = RedactMasks stdout masks, rep_stderr = RedactMasks stderr masks\<rparr>,
          st\<lparr>x_masks := masks\<rparr>)))"

definition record_result :: "'w host \<Rightarrow> Step \<Rightarrow> string \<Rightarrow> usesStepPlan \<Rightarrow> FileSet \<Rightarrow> StepResult \<Rightarrow>
    ('w exec_state, JobResult_step \<times> pendingPostAction option) io" where
  "record_result h step sid plan fileSet r =
     io_bind (io_wrap (''parse outputs for step '' @ sid) (parse_kv_file h (fs_output fileSet))) (\<lambda>outputs.
     io_bind (io_wrap (''parse env updates for step '' @ sid) (parse_kv_file h (fs_env fileSet))) (\<lambda>envUpdates.
     io_bind (upd_ctx (add_env envUpdates)) (\<lambda>_.
     io_bind (upd_ctx (set_outcome sid \<lparr>so_outcome = conclusion_of r, so_outputs = step_outputs outputs (sr_stdout r)\<rparr>)) (\<lambda>_.
     io_bind (report_step step sid r) (\<lambda>report.
     io_ret (report, map_option (\<lambda>pa. \<lparr>pp_action = pa, pp_step_id = sid, pp_state_file = fs_state fileSet\<rparr>) (pl_post plan)))))))"

definition run_planned_step :: "'w host \<Rightarrow> deadline \<Rightarrow> 'w runStepParams \<Rightarrow> Step \<Rightarrow> string \<Rightarrow> string \<Rightarrow> usesStepPlan \<Rightarrow>
    ('w exec_state, JobResult_step \<times> pendingPostAction option) io" where
  "run_planned_step h ctx p step sid command plan =
     io_bind (io_wrap (''create temp dir for step '' @ sid)
       (on_world (io_op (h_mkdir_temp h (rj_FilesRoot (pm_runner p)) ''step-'')))) (\<lambda>filesDir.
     io_bind (io_wrap (''create workflow command files for step '' @ sid) (on_world (CreateFileSet h filesDir))) (\<lambda>fileSet.
     io_bind (\<lambda>st. (Inr (step_environment p step plan (x_ctx st)), st)) (\<lambda>env.
     io_bind (io_wrap (''run step '' @ sid) (on_world (execute_plan ctx p step command plan env filesDir))) (\<lambda>r.
     record_result h step sid plan fileSet r))))"

subsection \<open>composite\_step.go\<close>

definition maxCompositeDepth :: nat where "maxCompositeDepth = 10"

definition child_context :: "Context \<Rightarrow> compositeInvocation \<Rightarrow> Context" where
  "child_context parent cinv = \<lparr>ctx_github = ctx_github parent,
     ctx_env = merge (merge [] (ctx_env parent)) (ci_base_env cinv),
     ctx_runner = ctx_runner parent, ctx_steps = [], ctx_needs = ctx_needs parent, ctx_matrix = ctx_matrix parent,
     ctx_vars = ctx_vars parent, ctx_secrets = []\<rparr>"

definition child_params :: "'w runStepParams \<Rightarrow> 'w runStepParams" where
  "child_params p = p\<lparr>pm_workflow := empty_workflow, pm_job := empty_job, pm_depth := Suc (pm_depth p)\<rparr>"

definition composite_outputs :: "'w host \<Rightarrow> compositeInvocation \<Rightarrow> ('w exec_state, string smap) io" where
  "composite_outputs h cinv = io_map (\<lambda>(name, out).
     io_bind (io_wrap (''evaluate output '' @ name) (subst_expr h (out_value out))) (\<lambda>val. io_ret (name, val))) (ci_outputs cinv)"

text \<open>The nested steps run on the child context; afterwards the caller's context is back in place.\<close>

definition in_child :: "Context \<Rightarrow> ('w exec_state, 'a) io \<Rightarrow> ('w exec_state, 'a) io" where
  "in_child child m st = (case m (st\<lparr>x_ctx := child\<rparr>) of (r, st1) \<Rightarrow> (r, st1\<lparr>x_ctx := x_ctx st\<rparr>))"

definition step_name_or :: "nat \<Rightarrow> Step \<Rightarrow> string" where
  "step_name_or i step = (if step_id step = [] then ''step-'' @ itoa (int i) else step_id step)"

definition stops_job :: "Step \<Rightarrow> JobResult_step \<Rightarrow> bool" where
  "stops_job step report \<longleftrightarrow> rep_conclusion report = ''failure'' \<and> \<not> step_continue_on_error step"

function runStep :: "'w host \<Rightarrow> deadline \<Rightarrow> 'w runStepParams \<Rightarrow> Step \<Rightarrow> string \<Rightarrow>
    ('w exec_state, JobResult_step \<times> pendingPostAction option) io"
  and runCompositeSteps :: "'w host \<Rightarrow> deadline \<Rightarrow> 'w runStepParams \<Rightarrow> compositeInvocation \<Rightarrow>
    ('w exec_state, string \<times> string smap \<times> string \<times> string) io"
  and run_nested :: "'w host \<Rightarrow> deadline \<Rightarrow> 'w runStepParams \<Rightarrow> nat \<Rightarrow> Step list \<Rightarrow>
    ('w exec_state, string \<times> string \<times> string) io" where
  "runStep h ctx p step sid =
     io_bind (step_starts h step sid) (\<lambda>go.
     if \<not> go then skip_step step sid
     else io_bind (step_prepare h ctx p step sid) (\<lambda>(command, plan). case pl_composite plan of
       Some cinv \<Rightarrow>
         io_bind (io_wrap (''composite step '' @ sid) (runCompositeSteps h ctx p cinv)) (\<lambda>(conclusion, outputs, stdout, stderr).
         io_bind (upd_ctx (set_outcome sid \<lparr>so_outcome = conclusion, so_outputs = outputs\<rparr>)) (\<lambda>_.
         io_ret (\<lparr>rep_id = sid, rep_name = step_name step, rep_conclusion = conclusion, rep_exit_code = 0,
           rep_stdout = stdout, rep_stderr = stderr\<rparr>, None)))
     | None \<Rightarrow> run_planned_step h ctx p step sid command plan))"
| "runCompositeSteps h ctx p cinv =
     (if maxCompositeDepth < pm_depth p + 1
      then io_fail (Message ''exceeded max composite action nesting depth'')
      else (\<lambda>st. in_child (child_context (x_ctx st) cinv)
        (io_bind (run_nested h ctx (child_params p) 0 (ci_steps cinv)) (\<lambda>(conclusion, stdout, stderr).
         io_bind (composite_outputs h cinv) (\<lambda>outputs. io_ret (conclusion, outputs, stdout, stderr)))) st))"
| "run_nested h ctx p i [] = io_ret (''success'', [], [])"
| "run_nested h ctx p i (step # steps) =
     io_bind (io_wrap (''nested step '' @ step_name_or i step) (runStep h ctx p step (step_name_or i step))) (\<lambda>(report, _).
     if stops_job step report then io_ret (''failure'', rep_stdout report, rep_stderr report)
     else io_bind (run_nested h ctx p (Suc i) steps) (\<lambda>(conclusion, stdout, stderr).
       io_ret (conclusion, rep_stdout report @ stdout, rep_stderr report @ stderr)))"
  by pat_completeness auto
termination runStep
  by (relation "measures [
      \<lambda>x. case x of Inl (h, ctx, p, step, sid) \<Rightarrow> 11 - pm_depth p | Inr (Inl (h, ctx, p, cinv)) \<Rightarrow> 11 - pm_depth p
          | Inr (Inr (h, ctx, p, i, steps)) \<Rightarrow> 11 - pm_depth p,
      \<lambda>x. case x of Inl _ \<Rightarrow> 1 | Inr (Inl _) \<Rightarrow> 0 | Inr (Inr (h, ctx, p, i, steps)) \<Rightarrow> 2 + length steps]")
    (auto simp: child_params_def maxCompositeDepth_def)

declare runStep.simps [simp del] runCompositeSteps.simps [simp del] run_nested.simps [simp del]

subsection \<open>executor.go: a job\<close>

text \<open>The main loop: stops at the first failure that is not continued.\<close>

fun run_main_steps :: "'w host \<Rightarrow> deadline \<Rightarrow> 'w runStepParams \<Rightarrow> nat \<Rightarrow> Step list \<Rightarrow>
    ('w exec_state, JobResult_step list \<times> pendingPostAction list \<times> string) io" where
  "run_main_steps h ctx p i [] = io_ret ([], [], ''success'')"
| "run_main_steps h ctx p i (step # steps) =
     io_bind (runStep h ctx p step (step_name_or i step)) (\<lambda>(report, post).
     let posts = (case post of None \<Rightarrow> [] | Some pa \<Rightarrow> [pa]) in
     if stops_job step report then io_ret ([report], posts, ''failure'')
     else io_bind (run_main_steps h ctx p (Suc i) steps) (\<lambda>(reports, posts', conclusion).
       io_ret (report # reports, posts @ posts', conclusion)))"

definition post_environment :: "'w runStepParams \<Rightarrow> pendingPostAction \<Rightarrow> string smap \<Rightarrow> Context \<Rightarrow> string smap" where
  "post_environment p pa stateVals c =
     exportGitHubContextEnv (mput ''GITHUB_WORKSPACE'' (rj_WorkspacePath (pm_runner p))
       (merge (merge (merge [] (ctx_env c)) (pa_env (pp_action pa)))
         (map (\<lambda>(k, v). (''STATE_'' @ k, v)) stateVals))) c"

text \<open>What a post action leaves behind: its environment updates and its report, whose output is the
  process's as it is.\<close>

definition post_report :: "pendingPostAction \<Rightarrow> StepResult \<Rightarrow> JobResult_step" where
  "post_report pa r = \<lparr>rep_id = pp_step_id pa @ ''-post'', rep_name = ''Post '' @ pp_step_id pa,
     rep_conclusion = conclusion_of r, rep_exit_code = sr_exit_code r, rep_stdout = sr_stdout r, rep_stderr = sr_stderr r\<rparr>"

definition run_post :: "'w host \<Rightarrow> deadline \<Rightarrow> 'w runStepParams \<Rightarrow> pendingPostAction \<Rightarrow>
    ('w exec_state, JobResult_step list) io" where
  "run_post h ctx p pa =
     io_bind (if pa_post_if (pp_action pa) = [] then io_ret True
       else io_wrap (''evaluate post-if for step '' @ pp_step_id pa) (eval_bool h (pa_post_if (pp_action pa)))) (\<lambda>runPost.
     if \<not> runPost then io_ret []
     else io_bind (io_wrap (''parse state for step '' @ pp_step_id pa @ '' post'') (parse_kv_file h (pp_state_file pa))) (\<lambda>stateVals.
     io_bind (\<lambda>st. (Inr (post_environment p pa stateVals (x_ctx st)), st)) (\<lambda>env.
     io_bind (io_wrap (''create temp dir for step '' @ pp_step_id pa @ '' post'')
       (on_world (io_op (h_mkdir_temp h (rj_FilesRoot (pm_runner p)) ''post-'')))) (\<lambda>postFilesDir.
     io_bind (io_wrap (''create workflow command files for step '' @ pp_step_id pa @ '' post'') (on_world (CreateFileSet h postFilesDir))) (\<lambda>postFileSet.
     io_bind (io_wrap (''run post for step '' @ pp_step_id pa) (on_world (rj_Exec (pm_runner p) ctx
       \<lparr>sp_command = [], sp_args = pa_args (pp_action pa), sp_shell = [], sp_env = env,
        sp_working_directory = rj_WorkspacePath (pm_runner p), sp_files_dir = postFilesDir\<rparr>))) (\<lambda>r.
     io_bind (io_wrap (''parse env updates for step '' @ pp_step_id pa @ '' post'') (parse_kv_file h (fs_env postFileSet))) (\<lambda>envUpdates.
     io_bind (upd_ctx (add_env envUpdates)) (\<lambda>_. io_ret [post_report pa r]))))))))"

definition job_output_values :: "'w host \<Rightarrow> Job \<Rightarrow> ('w exec_state, string smap) io" where
  "job_output_values h job = io_map (\<lambda>(name, expr).
     io_bind (io_wrap (''evaluate job output '' @ name) (subst_expr h expr)) (\<lambda>val. io_ret (name, val))) (job_outputs job)"

text \<open>Everything after the steps' environment is set up.\<close>

definition run_job_steps :: "'w host \<Rightarrow> deadline \<Rightarrow> 'w runStepParams \<Rightarrow> Job \<Rightarrow> ('w exec_state, JobResult) io" where
  "run_job_steps h ctx p job =
     io_bind (run_main_steps h ctx p 0 (job_steps job)) (\<lambda>(reports, posts, conclusion).
     io_bind (io_map (run_post h ctx p) (rev posts)) (\<lambda>post_reports.
     io_bind (job_output_values h job) (\<lambda>outputs.
     io_ret \<lparr>jr_conclusion = conclusion, jr_steps = reports @ concat post_reports, jr_outputs = outputs\<rparr>)))"

definition set_github :: "string \<Rightarrow> goval \<Rightarrow> Context \<Rightarrow> Context" where
  "set_github k v c = c\<lparr>ctx_github := mput k v (ctx_github c)\<rparr>"

definition stage_event :: "'w host \<Rightarrow> deadline \<Rightarrow> 'w runStepParams \<Rightarrow> string \<Rightarrow> ('w exec_state, unit) io" where
  "stage_event h ctx p eventJSONDir = (if eventJSONDir = [] then io_ret ()
     else io_bind (io_wrap ''read event.json'' (on_world (read_file h (Join [eventJSONDir, ''event.json''])))) (\<lambda>data.
       io_bind (io_res (\<lambda>e. Wrapped ''parse event.json'' (Message e)) (h_json_object h data)) (\<lambda>event.
       io_bind (upd_ctx (set_github ''event'' (VMap event))) (\<lambda>_.
       io_bind (io_wrap ''stage event.json'' (on_world (rj_CopyToContainer (pm_runner p) ctx eventJSONDir ''/mirror-event''))) (\<lambda>_.
       upd_ctx (set_github ''event_path'' (VStr ''/mirror-event/event.json'')))))))"

text \<open>The context before the environment is started.\<close>

definition job_context :: "Workflow \<Rightarrow> Job \<Rightarrow> JobRunOptions \<Rightarrow> EnvironmentSpec option \<Rightarrow> ContainerSpec option \<Rightarrow> Context" where
  "job_context w job opts environmentSpec containerSpec =
     (let c0 = (NewContext w job)\<lparr>ctx_needs := ro_needs opts, ctx_matrix := ro_matrix opts, ctx_vars := ro_vars opts\<rparr>;
          c1 = add_env (ro_extra_env opts) c0;
          c2 = (case mget (ro_extra_env opts) ''GITHUB_TOKEN'' of
                  Some token \<Rightarrow> c1\<lparr>ctx_secrets := mput ''GITHUB_TOKEN'' token (ctx_secrets c1)\<rparr> | None \<Rightarrow> c1);
          c3 = (case environmentSpec of Some e \<Rightarrow> set_github ''environment'' (VStr (es_name e)) c2 | None \<Rightarrow> c2)
      in case containerSpec of Some c \<Rightarrow> add_env (cs_env c) c3 | None \<Rightarrow> c3)"

definition runner_services :: "ContainerSpec smap \<Rightarrow> exec_error + RunnerContainerSpec smap" where
  "runner_services services = map_res (\<lambda>(name, spec). case toRunnerContainerSpec (Some spec) of
       Inl e \<Rightarrow> Inl (Wrapped (''service '' @ name) e)
     | Inr None \<Rightarrow> Inl (Message ''unreachable'')
     | Inr (Some c) \<Rightarrow> Inr (name, c)) services"

definition run_in_environment :: "'w host \<Rightarrow> deadline \<Rightarrow> 'w runStepParams \<Rightarrow> JobRunOptions \<Rightarrow> Job \<Rightarrow>
    ('w exec_state, JobResult) io" where
  "run_in_environment h ctx p opts job =
     io_bind (if ro_event_name opts = [] then io_ret () else upd_ctx (set_github ''event_name'' (VStr (ro_event_name opts)))) (\<lambda>_.
     io_bind (stage_event h ctx p (ro_event_json_dir opts)) (\<lambda>_.
     io_bind (upd_ctx (set_github ''workspace'' (VStr (rj_WorkspacePath (pm_runner p))))) (\<lambda>_.
     run_job_steps h ctx p job)))"

text \<open>\<open>defer runnerJob.Stop(ctx)\<close>: whatever the steps answer, the environment is stopped.\<close>

definition with_stop :: "deadline \<Rightarrow> 'w runner_job \<Rightarrow> Context \<Rightarrow> ('w exec_state, 'a) io \<Rightarrow> ('w, 'a) io" where
  "with_stop ctx rj c m w = (case m \<lparr>x_ctx = c, x_node = False, x_masks = [], x_world = w\<rparr> of
     (r, st) \<Rightarrow> (r, snd (rj_Stop rj ctx (x_world st))))"

definition job_params :: "Workflow \<Rightarrow> Job \<Rightarrow> JobRunOptions \<Rightarrow> 'w runner_job \<Rightarrow> 'w runStepParams" where
  "job_params w job opts rj = \<lparr>pm_workflow = w, pm_job = job, pm_runner = rj, pm_workspace_dir = ro_workspace_dir opts,
     pm_local_overrides = ro_local_overrides opts, pm_depth = 0\<rparr>"

definition RunJob :: "'w host \<Rightarrow> deadline \<Rightarrow> Workflow \<Rightarrow> Job \<Rightarrow> 'w backend \<Rightarrow> JobRunOptions \<Rightarrow> ('w, JobResult) io" where
  "RunJob h ctx w job backend opts =
     (if ro_workspace_dir opts = [] then io_fail (Message ''JobRunOptions.WorkspaceDir must not be empty'')
      else io_bind (io_res (\<lambda>e. Wrapped ''job environment'' (DecodeRejected e)) (job_Environment job)) (\<lambda>environmentSpec.
      io_bind (io_res (\<lambda>e. Wrapped ''job container'' (DecodeRejected e)) (job_Container job)) (\<lambda>containerSpec.
      io_bind (io_res (\<lambda>e. e) (toRunnerContainerSpec containerSpec)) (\<lambda>runnerContainerSpec.
      io_bind (io_res (\<lambda>e. e) (runner_services (job_services job))) (\<lambda>services.
      io_bind (io_wrap ''start job'' (backend ctx (if ro_job_id opts = [] then ''job'' else ro_job_id opts)
          (ro_workspace_dir opts) runnerContainerSpec services)) (\<lambda>rj.
      with_stop ctx rj (job_context w job opts environmentSpec containerSpec)
        (run_in_environment h ctx (job_params w job opts rj) opts job)))))))"

subsection \<open>What a step can change\<close>

text \<open>The parts of a context no step changes; masks are only added; a copied Node runtime stays.\<close>

definition ctx_frame :: "Context \<Rightarrow> Context \<Rightarrow> bool" where
  "ctx_frame c c' \<longleftrightarrow> ctx_github c' = ctx_github c \<and> ctx_runner c' = ctx_runner c \<and> ctx_needs c' = ctx_needs c \<and>
     ctx_matrix c' = ctx_matrix c \<and> ctx_vars c' = ctx_vars c \<and> ctx_secrets c' = ctx_secrets c"

definition step_frame :: "'w exec_state \<Rightarrow> 'w exec_state \<Rightarrow> bool" where
  "step_frame st st' \<longleftrightarrow> ctx_frame (x_ctx st) (x_ctx st') \<and> prefix (x_masks st) (x_masks st') \<and>
     (x_node st \<longrightarrow> x_node st')"

text \<open>What an arbitrary relation between the states before and after asks of the executor's primitive effects:
  that it survives a change of the world, new masks and a copied Node runtime. Then it survives everything
  that is done before a step runs.\<close>

locale step_relation = io_relation R for R :: "'w exec_state \<Rightarrow> 'w exec_state \<Rightarrow> bool" +
  assumes R_world: "R st (st\<lparr>x_world := w\<rparr>)"
    and R_masks: "R st (st\<lparr>x_masks := x_masks st @ ms\<rparr>)"
    and R_node: "R st (st\<lparr>x_node := True\<rparr>)"
begin

lemma keeps_on_world: "keeps R (on_world m)"
  by (simp add: keeps_def on_world_def R_world split: prod.split)

lemma keeps_eval: "keeps R (subst_expr h s)" "keeps R (eval_bool h s)" "keeps R (parse_kv_file h path)"
  by (simp_all add: keeps_def subst_expr_def eval_bool_def parse_kv_file_def io_res_def R_refl split: sum.split)

lemma keeps_report: "keeps R (report_step step sid r)"
  by (simp add: keeps_def report_step_def Let_def R_masks split: prod.split)

lemma keeps_peek: "keeps R (\<lambda>st. (Inr (f st), st))"
  by (simp add: keeps_def R_refl)

lemma keeps_node: "keeps R (\<lambda>st. (Inr (), st\<lparr>x_node := True\<rparr>))"
  by (simp add: keeps_def R_node)

lemmas keeps_basic = keeps_on_world keeps_eval keeps_report keeps_peek keeps_node keeps_intros

lemma keeps_subst_with: "keeps R (subst_with h m)"
  unfolding subst_with_def by (intro keeps_map) (auto split: prod.split intro!: keeps_basic)

lemma keeps_node_ready: "keeps R (ensure_node_ready h ctx p r)"
proof -
  have k: "keeps R (io_bind (io_wrap a (on_world m)) (\<lambda>n. io_bind (io_wrap b (on_world (f n)))
      (\<lambda>_ st1. (Inr (), st1\<lparr>x_node := True\<rparr>))))" for a b m f
    by (intro keeps_basic)
  show ?thesis unfolding keeps_def
  proof
    fix st
    show "R st (snd (ensure_node_ready h ctx p r st))"
    proof (cases "x_node st")
      case True
      then show ?thesis by (simp add: ensure_node_ready_def R_refl)
    next
      case False
      then show ?thesis unfolding ensure_node_ready_def if_not_P[OF False]
        by (intro k[unfolded keeps_def, rule_format])
    qed
  qed
qed

lemma keeps_needs_linux: "keeps R (docker_needs_linux p)"
  unfolding docker_needs_linux_def by (simp add: keeps_basic)

lemma keeps_plans:
  "keeps R (plan_docker_image p img withs)"
  "keeps R (action_source_dir h p uses ref r)" "keeps R (plan_node h ctx p sid step r d md withs)"
  "keeps R (plan_docker h ctx p sid step d md withs)" "keeps R (plan_composite ctx p sid step d md withs)"
proof -
  show "keeps R (plan_docker_image p img withs)"
    unfolding plan_docker_image_def by (intro keeps_basic keeps_needs_linux)
  show "keeps R (action_source_dir h p uses ref r)"
    unfolding action_source_dir_def by (auto split: option.split intro!: keeps_basic)
  show "keeps R (plan_node h ctx p sid step r d md withs)"
    unfolding plan_node_def Let_def by (intro keeps_basic keeps_node_ready)
  show "keeps R (plan_docker h ctx p sid step d md withs)"
    unfolding plan_docker_def Let_def by (intro keeps_basic keeps_needs_linux)
  show "keeps R (plan_composite ctx p sid step d md withs)"
    unfolding plan_composite_def by (intro keeps_basic)
qed

lemma keeps_prepare: "keeps R (prepareUsesStep h ctx p sid step)"
  unfolding prepareUsesStep_def plan_action_def Let_def
  by (intro keeps_bind keeps_subst_with keeps_basic keeps_plans keeps_if)

lemma keeps_starts: "keeps R (step_starts h step sid)"
  unfolding step_starts_def by (intro keeps_basic keeps_if)

lemma keeps_step_prepare: "keeps R (step_prepare h ctx p step sid)"
  unfolding step_prepare_def by (intro keeps_basic keeps_if keeps_prepare)

lemma keeps_outputs: "keeps R (composite_outputs h cinv)" "keeps R (job_output_values h job)"
  unfolding composite_outputs_def job_output_values_def
  by (intro keeps_map; auto split: prod.split intro!: keeps_basic)+

end

interpretation frame: step_relation step_frame
  by unfold_locales (auto simp: step_frame_def ctx_frame_def intro: prefix_order.trans)

lemma keeps_upd: "keeps step_frame (upd_ctx (set_outcome sid o'))" "keeps step_frame (upd_ctx (add_env m))"
  by (simp_all add: keeps_def upd_ctx_def set_outcome_def add_env_def step_frame_def ctx_frame_def)

lemma keeps_step_parts:
  "keeps step_frame (skip_step step sid)" "keeps step_frame (run_planned_step h ctx p step sid cm plan)"
proof -
  show "keeps step_frame (skip_step step sid)" unfolding skip_step_def by (intro frame.keeps_basic keeps_upd)
  show "keeps step_frame (run_planned_step h ctx p step sid cm plan)"
    unfolding run_planned_step_def record_result_def by (intro frame.keeps_basic keeps_upd)
qed

lemmas step_keeps = frame.keeps_basic frame.keeps_starts frame.keeps_step_prepare frame.keeps_outputs
  keeps_upd keeps_step_parts

lemma keeps_in_child: "keeps step_frame m \<Longrightarrow> keeps step_frame (\<lambda>st. in_child (f st) m st)"
  by (auto simp: keeps_def in_child_def step_frame_def ctx_frame_def split: prod.split)
    (metis (no_types, lifting) exec_state.select_convs(2,3) exec_state.surjective exec_state.update_convs(1) snd_conv)+

lemma keeps_runStep:
  "keeps step_frame (runStep h ctx p step sid)"
  "keeps step_frame (runCompositeSteps h ctx p cinv)"
  "keeps step_frame (run_nested h ctx p i steps)"
proof (induction h ctx p step sid and h ctx p cinv and h ctx p i steps
    rule: runStep_runCompositeSteps_run_nested.induct)
  case IH: (1 h ctx p step sid)
  show ?case unfolding runStep.simps
    by (auto split: prod.split option.split intro!: step_keeps IH)
next
  case IH: (2 h ctx p cinv)
  show ?case unfolding runCompositeSteps.simps
    by (auto split: prod.split intro!: step_keeps keeps_in_child IH)
next
  case (3 h ctx p i)
  show ?case unfolding run_nested.simps by (intro step_keeps)
next
  case IH: (4 h ctx p i step steps)
  show ?case unfolding run_nested.simps
    by (auto split: prod.split intro!: step_keeps IH)
qed

text \<open>C13: What one step can change, composite actions at any depth included and whatever the step answers: the
  \<open>github\<close>, \<open>runner\<close>, \<open>needs\<close>, \<open>matrix\<close>, \<open>vars\<close> and \<open>secrets\<close> contexts stay as they are, no mask is
  ever forgotten, and the Node runtime is not copied a second time.\<close>

theorem runStep_frame:
  "let st' = snd (runStep h ctx p step sid st) in
   ctx_github (x_ctx st') = ctx_github (x_ctx st) \<and> ctx_runner (x_ctx st') = ctx_runner (x_ctx st) \<and>
   ctx_needs (x_ctx st') = ctx_needs (x_ctx st) \<and> ctx_matrix (x_ctx st') = ctx_matrix (x_ctx st) \<and>
   ctx_vars (x_ctx st') = ctx_vars (x_ctx st) \<and> ctx_secrets (x_ctx st') = ctx_secrets (x_ctx st) \<and>
   prefix (x_masks st) (x_masks st') \<and> (x_node st \<le> x_node st')"
  using keeps_runStep(1)[of h ctx p step sid, unfolded keeps_def, rule_format, of st]
  by (simp add: Let_def step_frame_def ctx_frame_def)

subsection \<open>Masked output\<close>

lemma record_result_masked:
  assumes "record_result h step sid plan fileSet r st = (Inr (report, post), st')"
    and "v \<in> set (x_masks st')" "v \<noteq> []" "CHR ''*'' \<notin> set v"
  shows "\<not> sublist v (rep_stdout report) \<and> \<not> sublist v (rep_stderr report)"
proof -
  from assms(1) obtain st1 where r: "report_step step sid r st1 = (Inr report, st')"
    unfolding record_result_def by (auto simp: io_bind_Inr io_wrap_Inr io_ret_def)
  then show ?thesis using redact_gone[OF _ assms(3,4)] assms(2)
    by (auto simp: report_step_def Let_def split: prod.splits)
qed

text \<open>C5: No secret in a step's output: after a \<open>run:\<close> step, neither its reported standard output nor its
  standard error contains any value registered with \<open>::add-mask::\<close> by this step or an earlier one,
  provided the value is not empty and has no \<open>*\<close> itself.\<close>

theorem run_step_output_masked:
  assumes "step_uses step = []" "runStep h ctx p step sid st = (Inr (report, post), st')"
    and "v \<in> set (x_masks st')" "v \<noteq> []" "CHR ''*'' \<notin> set v"
  shows "\<not> sublist v (rep_stdout report) \<and> \<not> sublist v (rep_stderr report)"
proof -
  from assms(2) obtain go st1 where go: "step_starts h step sid st = (Inr go, st1)"
    and rest: "(if \<not> go then skip_step step sid
     else io_bind (step_prepare h ctx p step sid) (\<lambda>(command, plan). case pl_composite plan of
       Some cinv \<Rightarrow>
         io_bind (io_wrap (''composite step '' @ sid) (runCompositeSteps h ctx p cinv)) (\<lambda>(conclusion, outputs, stdout, stderr).
         io_bind (upd_ctx (set_outcome sid \<lparr>so_outcome = conclusion, so_outputs = outputs\<rparr>)) (\<lambda>_.
         io_ret (\<lparr>rep_id = sid, rep_name = step_name step, rep_conclusion = conclusion, rep_exit_code = 0,
           rep_stdout = stdout, rep_stderr = stderr\<rparr>, None)))
     | None \<Rightarrow> run_planned_step h ctx p step sid command plan)) st1 = (Inr (report, post), st')"
    unfolding runStep.simps io_bind_Inr by blast
  show ?thesis
  proof (cases go)
    case False
    then have "rep_stdout report = []" "rep_stderr report = []"
      using rest by (auto simp: skip_step_def io_bind_def upd_ctx_def io_ret_def)
    with assms(4) show ?thesis by simp
  next
    case True
    have "step_prepare h ctx p step sid = io_bind (io_wrap (''substitute expressions for step '' @ sid) (subst_expr h (step_run step)))
        (\<lambda>command. io_ret (command, empty_plan))"
      using assms(1) by (simp add: step_prepare_def)
    with True rest obtain command st2 where "run_planned_step h ctx p step sid command empty_plan st2 = (Inr (report, post), st')"
      by (auto simp: io_bind_Inr io_ret_def empty_plan_def)
    then obtain fileSet r st3 where "record_result h step sid empty_plan fileSet r st3 = (Inr (report, post), st')"
      unfolding run_planned_step_def io_bind_Inr by blast
    from record_result_masked[OF this assms(3-5)] show ?thesis .
  qed
qed

text \<open>A machine and a job environment to try the definitions on: files read empty, and every process prints
  a mask and then uses it.\<close>

definition sample_host :: "int host" where
  "sample_host = starting_host\<lparr>h_read := (\<lambda>_ _. Content [])\<rparr>"

definition sample_runner :: "int runner_job" where
  "sample_runner = \<lparr>rj_FilesRoot = ''/f'', rj_WorkspacePath = ''/w'', rj_Platform = ''linux'',
     rj_CopyToContainer = (\<lambda>_ _ _. io_ret ()),
     rj_Exec = (\<lambda>_ _. io_ret \<lparr>sr_exit_code = 0, sr_stdout = ''::add-mask::tok'' @ [newline] @ ''login tok'', sr_stderr = []\<rparr>),
     rj_RunDockerAction = (\<lambda>_ _. io_ret dry_result), rj_Stop = (\<lambda>_. io_ret ())\<rparr>"

definition sample_step :: "string \<Rightarrow> string \<Rightarrow> string \<Rightarrow> Step" where
  "sample_step cond cmd uses = \<lparr>step_id = ''s'', step_name = ''a step'', step_run = cmd, step_uses = uses, step_with = [],
     step_shell = [], step_env = [], step_if = cond, step_continue_on_error = False, step_working_directory = [],
     step_timeout_minutes = f64_of_int 0\<rparr>"

definition sample_params :: "int runStepParams" where
  "sample_params = \<lparr>pm_workflow = empty_workflow, pm_job = empty_job, pm_runner = sample_runner, pm_workspace_dir = ''/w'',
     pm_local_overrides = [], pm_depth = 0\<rparr>"

definition sample_state :: "int exec_state" where
  "sample_state = \<lparr>x_ctx = sample_context, x_node = False, x_masks = [], x_world = 0\<rparr>"

theorem run_step_output_masked_witness:
  "\<exists>report st'. runStep sample_host [] sample_params (sample_step [] ''login'' []) ''s'' sample_state = (Inr (report, None), st') \<and>
    rep_stdout report \<noteq> [] \<and> \<not> sublist ''tok'' (rep_stdout report)"
proof -
  let ?r = "runStep sample_host [] sample_params (sample_step [] ''login'' []) ''s'' sample_state"
  obtain x st' where r: "?r = (x, st')" by (cases ?r)
  have x: "fst ?r = Inr (\<lparr>rep_id = ''s'', rep_name = ''a step'', rep_conclusion = ''success'', rep_exit_code = 0,
      rep_stdout = ''login ***'', rep_stderr = []\<rparr>, None)" by code_simp
  have m: "x_masks (snd ?r) = [''tok'']" by code_simp
  have u: "step_uses (sample_step [] ''login'' []) = []" by (simp add: sample_step_def)
  have tok: "''tok'' \<in> set (x_masks (snd ?r))" "''tok'' \<noteq> []" "CHR ''*'' \<notin> set ''tok''" by (simp_all add: m)
  have e: "?r = (Inr (\<lparr>rep_id = ''s'', rep_name = ''a step'', rep_conclusion = ''success'', rep_exit_code = 0,
      rep_stdout = ''login ***'', rep_stderr = []\<rparr>, None), snd ?r)" by (subst x [symmetric]) simp
  from run_step_output_masked[OF u e tok] e show ?thesis
    by (metis (no_types, lifting) JobResult_step.select_convs(5) list.distinct(1))
qed

end
