(* ===== verification/Concurrency.thy ===== *)
theory Concurrency
  imports Prelude
begin

text \<open>
  \<open>internal/engine/concurrency_scheduler.go\<close>: the scheduler behind \<open>concurrency:\<close> groups, as a
  transition system over any number of combinations. Each call locks the scheduler's mutex, so
  it is one step; a channel of capacity one is full or empty. A combination's context is known
  by the combination's number.
\<close>

text \<open>A missing key of \<open>gen\<close> reads as zero, as it does in Go.\<close>

record scheduler =
  slots :: "string \<Rightarrow> bool"
  gen :: "string \<Rightarrow> nat"
  cancel :: "string \<Rightarrow> nat option"

definition newConcurrencyScheduler :: scheduler where
  "newConcurrencyScheduler = \<lparr>slots = (\<lambda>_. False), gen = (\<lambda>_. 0), cancel = (\<lambda>_. None)\<rparr>"

text \<open>The function \<open>acquire\<close> returns, to be called exactly once.\<close>

datatype release_fn = ReleaseNothing | ReleaseSlot string | ReleaseGen string nat

text \<open>\<open>cancelInProgress\<close> false: \<open>None\<close> while the send on the group's channel blocks.\<close>

definition acquire_queue :: "string \<Rightarrow> scheduler \<Rightarrow> (release_fn \<times> scheduler) option" where
  "acquire_queue g s = (if slots s g then None
     else Some (ReleaseSlot g, s\<lparr>slots := (slots s)(g := True)\<rparr>))"

text \<open>\<open>cancelInProgress\<close> true: the context to cancel, the release function, the new scheduler.\<close>

definition acquire_preempt :: "string \<Rightarrow> nat \<Rightarrow> scheduler \<Rightarrow> nat option \<times> release_fn \<times> scheduler" where
  "acquire_preempt g me s =
     (let myGen = gen s g + 1 in
      (cancel s g, ReleaseGen g myGen,
       s\<lparr>gen := (gen s)(g := myGen), cancel := (cancel s)(g := Some me)\<rparr>))"

text \<open>The whole of \<open>acquire\<close>: what to release, the contexts that are done by now and the new scheduler, or \<open>None\<close>
  while it blocks. \<open>expires\<close> says that \<open>select\<close> takes the branch \<open><-ctx.Done()\<close>.\<close>

definition acquire :: "bool \<Rightarrow> bool \<Rightarrow> string \<Rightarrow> nat \<Rightarrow> scheduler \<Rightarrow> (release_fn \<times> nat set \<times> scheduler) option" where
  "acquire cancelInProgress expires g me s =
     (if g = [] then Some (ReleaseNothing, {}, s)
      else if \<not> cancelInProgress then
        (if expires then Some (ReleaseNothing, {me}, s)
         else case acquire_queue g s of None \<Rightarrow> None | Some (r, s1) \<Rightarrow> Some (r, {}, s1))
      else case acquire_preempt g me s of (prev, r, s1) \<Rightarrow> Some (r, set_option prev, s1))"

definition release :: "release_fn \<Rightarrow> scheduler \<Rightarrow> scheduler" where
  "release r s = (case r of
     ReleaseNothing \<Rightarrow> s
   | ReleaseSlot g \<Rightarrow> s\<lparr>slots := (slots s)(g := False)\<rparr>
   | ReleaseGen g myGen \<Rightarrow>
       (if gen s g = myGen
        then s\<lparr>cancel := (cancel s)(g := None), gen := (gen s)(g := 0)\<rparr> else s))"

subsection \<open>The combinations and the scheduler together\<close>

record groups_state =
  sched :: scheduler
  held :: "nat \<Rightarrow> release_fn option" \<comment> \<open>between \<open>acquire\<close> and its release\<close>
  cancelled :: "nat set" \<comment> \<open>contexts that are done\<close>

definition groups_init :: "groups_state \<Rightarrow> bool" where
  "groups_init s \<longleftrightarrow> s = \<lparr>sched = newConcurrencyScheduler, held = (\<lambda>_. None), cancelled = {}\<rparr>"

text \<open>
  \<open>grp i\<close> is the group of combination \<open>i\<close> and \<open>cip\<close> the job's \<open>cancel-in-progress\<close>. Whether a call of
  \<open>acquire\<close> blocks, what it hands out and whose context is over by then is for \<open>acquire\<close> to say; which branch
  its \<open>select\<close> takes when both are ready is open. A caller's context may also be done at any other time
  (a timeout or a cancelled run).
\<close>

inductive groups_step :: "(nat \<Rightarrow> string) \<Rightarrow> bool \<Rightarrow> groups_state \<Rightarrow> groups_state \<Rightarrow> bool"
  for grp :: "nat \<Rightarrow> string" and cip :: bool where
  acquires: "held s i = None \<Longrightarrow> acquire cip expires (grp i) i (sched s) = Some (r, over, sch) \<Longrightarrow>
    groups_step grp cip s (s\<lparr>sched := sch, held := (held s)(i := Some r), cancelled := cancelled s \<union> over\<rparr>)"
| release_held: "held s i = Some r \<Longrightarrow>
    groups_step grp cip s (s\<lparr>sched := release r (sched s), held := (held s)(i := None),
      cancelled := cancelled s \<union> (case r of ReleaseGen _ _ \<Rightarrow> {i} | _ \<Rightarrow> {})\<rparr>)"
| context_done: "groups_step grp cip s (s\<lparr>cancelled := insert i (cancelled s)\<rparr>)"

inductive_cases groups_stepE: "groups_step grp cip s t"

lemma acquire_True: "g \<noteq> [] \<Longrightarrow> acquire True ex g i s =
    Some (ReleaseGen g (Suc (gen s g)), set_option (cancel s g),
      s\<lparr>gen := (gen s)(g := Suc (gen s g)), cancel := (cancel s)(g := Some i)\<rparr>)"
  by (simp add: acquire_def acquire_preempt_def Let_def)

lemma acquire_False: "acquire False ex g i s = (if g = [] then Some (ReleaseNothing, {}, s)
    else if ex then Some (ReleaseNothing, {i}, s)
    else if slots s g then None else Some (ReleaseSlot g, {}, s\<lparr>slots := (slots s)(g := True)\<rparr>))"
  by (simp add: acquire_def acquire_queue_def)

subsection \<open>Queueing is exclusive\<close>

text \<open>Whoever is between \<open>acquire\<close> and its release is in no group, or its context is over, or the full channel of
  its own group is its. A full channel belongs to exactly one combination.\<close>

definition admitted :: "(nat \<Rightarrow> string) \<Rightarrow> nat set \<Rightarrow> nat \<Rightarrow> release_fn \<Rightarrow> bool" where
  "admitted grp c i r \<longleftrightarrow> r = ReleaseNothing \<and> (grp i = [] \<or> i \<in> c) \<or> r = ReleaseSlot (grp i) \<and> grp i \<noteq> []"

definition queue_ok :: "(nat \<Rightarrow> string) \<Rightarrow> (string \<Rightarrow> bool) \<Rightarrow> (nat \<Rightarrow> release_fn option) \<Rightarrow> nat set \<Rightarrow> bool" where
  "queue_ok grp sl h c \<longleftrightarrow> (\<forall>i r. h i = Some r \<longrightarrow> admitted grp c i r) \<and>
     (\<forall>g i j. h i = Some (ReleaseSlot g) \<longrightarrow> h j = Some (ReleaseSlot g) \<longrightarrow> i = j) \<and>
     (\<forall>g. sl g \<longleftrightarrow> (\<exists>i. h i = Some (ReleaseSlot g)))"

lemma queue_ok_done: "queue_ok grp sl h c \<Longrightarrow> queue_ok grp sl h (c \<union> c')"
  unfolding queue_ok_def admitted_def by blast

lemma queue_ok_nothing:
  "queue_ok grp sl h c \<Longrightarrow> h i = None \<Longrightarrow> grp i = [] \<or> i \<in> c \<Longrightarrow> queue_ok grp sl (h(i := Some ReleaseNothing)) c"
  unfolding queue_ok_def admitted_def by (auto simp: fun_upd_apply) (metis option.distinct(1))+

lemma queue_ok_slot:
  assumes ok: "queue_ok grp sl h c" and "h i = None" "grp i \<noteq> []" "\<not> sl (grp i)"
  shows "queue_ok grp (sl(grp i := True)) (h(i := Some (ReleaseSlot (grp i)))) c"
proof -
  have "h j \<noteq> Some (ReleaseSlot (grp i))" for j using ok assms(4) unfolding queue_ok_def by blast
  with assms show ?thesis unfolding queue_ok_def admitted_def by (auto simp: fun_upd_apply) (metis option.distinct(1))
qed

lemma queue_ok_release_nothing:
  "queue_ok grp sl h c \<Longrightarrow> h i = Some ReleaseNothing \<Longrightarrow> queue_ok grp sl (h(i := None)) c"
  unfolding queue_ok_def by (auto simp: fun_upd_apply) (metis option.inject release_fn.distinct(1))

lemma queue_ok_release_slot:
  assumes ok: "queue_ok grp sl h c" and i: "h i = Some (ReleaseSlot g)"
  shows "queue_ok grp (sl(g := False)) (h(i := None)) c"
proof -
  have "j = i" if "h j = Some (ReleaseSlot g)" for j using ok i that unfolding queue_ok_def by blast
  with ok i show ?thesis unfolding queue_ok_def
    by (auto simp: fun_upd_apply) (metis option.inject release_fn.inject(1))
qed

definition slots_inv :: "(nat \<Rightarrow> string) \<Rightarrow> groups_state \<Rightarrow> bool" where
  "slots_inv grp s \<longleftrightarrow> queue_ok grp (slots (sched s)) (held s) (cancelled s)"

lemma slots_inv_acquire:
  assumes "slots_inv grp s" "held s i = None" "acquire False ex (grp i) i (sched s) = Some (r, over, sch)"
  shows "slots_inv grp (s\<lparr>sched := sch, held := (held s)(i := Some r), cancelled := cancelled s \<union> over\<rparr>)"
proof -
  have ok: "queue_ok grp (slots (sched s)) (held s) (cancelled s \<union> over)"
    using assms(1) unfolding slots_inv_def by (rule queue_ok_done)
  show ?thesis using queue_ok_nothing[OF ok assms(2)] queue_ok_slot[OF ok assms(2)] assms(3)
    by (auto simp: slots_inv_def acquire_False split: if_splits)
qed

lemma slots_inv_release:
  assumes "slots_inv grp s" "held s i = Some r"
  shows "slots_inv grp (s\<lparr>sched := release r (sched s), held := (held s)(i := None), cancelled := cancelled s \<union> over\<rparr>)"
proof -
  have ok: "queue_ok grp (slots (sched s)) (held s) (cancelled s \<union> over)"
    using assms(1) unfolding slots_inv_def by (rule queue_ok_done)
  have "admitted grp (cancelled s \<union> over) i r" using ok assms(2) unfolding queue_ok_def by blast
  then show ?thesis using queue_ok_release_nothing[OF ok, of i] queue_ok_release_slot[OF ok, of i] assms(2)
    by (auto simp: slots_inv_def admitted_def release_def)
qed

lemma slots_inv_step: "slots_inv grp s \<Longrightarrow> groups_step grp False s t \<Longrightarrow> slots_inv grp t"
proof (erule groups_stepE)
  fix i assume "slots_inv grp s" "t = s\<lparr>cancelled := insert i (cancelled s)\<rparr>"
  then show ?thesis using queue_ok_done[of grp _ _ "cancelled s" "{i}"] by (simp add: slots_inv_def)
qed (use slots_inv_acquire slots_inv_release in blast)+

interpretation queue: invariant_system groups_init "groups_step grp False" "slots_inv grp" for grp
proof unfold_locales
  fix s show "groups_init s \<Longrightarrow> slots_inv grp s"
    by (simp add: groups_init_def slots_inv_def queue_ok_def newConcurrencyScheduler_def)
qed (rule slots_inv_step)

lemma slots_inv_exclusive:
  assumes inv: "slots_inv grp s" and g: "grp i = grp j" "grp i \<noteq> []" and "held s i \<noteq> None" "held s j \<noteq> None"
    and live: "i \<notin> cancelled s" "j \<notin> cancelled s"
  shows "i = j"
proof -
  have own: "held s k = Some (ReleaseSlot (grp k))" if k: "grp k \<noteq> []" "held s k \<noteq> None" "k \<notin> cancelled s" for k
  proof -
    from k(2) obtain r where r: "held s k = Some r" by blast
    with inv have "admitted grp (cancelled s) k r" unfolding slots_inv_def queue_ok_def by blast
    with k r show ?thesis by (auto simp: admitted_def)
  qed
  have "held s i = Some (ReleaseSlot (grp i))" "held s j = Some (ReleaseSlot (grp i))" using own[of i] own[of j] assms by simp_all
  with inv show ?thesis unfolding slots_inv_def queue_ok_def by blast
qed

lemma slots_inv_admits:
  assumes inv: "slots_inv grp s" and free: "\<forall>j. grp j = grp i \<longrightarrow> held s j = None"
  shows "acquire False False (grp i) i (sched s) \<noteq> None"
proof -
  have "\<not> slots (sched s) (grp i)"
  proof
    assume "slots (sched s) (grp i)"
    with inv obtain j where j: "held s j = Some (ReleaseSlot (grp i))" unfolding slots_inv_def queue_ok_def by blast
    with inv have "admitted grp (cancelled s) j (ReleaseSlot (grp i))" unfolding slots_inv_def queue_ok_def by blast
    with free j show False by (simp add: admitted_def)
  qed
  then show ?thesis by (simp add: acquire_False)
qed

text \<open>C28: The queue of a group, without \<open>cancel-in-progress\<close>, in every reachable state and for every interleaving:
  two combinations of the same group that both run, between \<open>acquire\<close> and its release, and whose contexts
  are not over, are the same; and none waits for nothing: when no combination of its group is in, a call
  of \<open>acquire\<close> does not block.\<close>

theorem group_slot_exclusive:
  assumes "reachable groups_init (groups_step grp False) s"
  shows "(\<forall>i j. grp i = grp j \<and> grp i \<noteq> [] \<and> held s i \<noteq> None \<and> held s j \<noteq> None \<and>
      i \<notin> cancelled s \<and> j \<notin> cancelled s \<longrightarrow> i = j) \<and>
    (\<forall>i. (\<forall>j. grp j = grp i \<longrightarrow> held s j = None) \<longrightarrow> acquire False False (grp i) i (sched s) \<noteq> None)"
  using slots_inv_exclusive[OF queue.reachable_inv[OF assms]] slots_inv_admits[OF queue.reachable_inv[OF assms]]
  by blast

definition groups_start :: groups_state where
  "groups_start = \<lparr>sched = newConcurrencyScheduler, held = (\<lambda>_. None), cancelled = {}\<rparr>"

lemma groups_start: "reachable groups_init (groups_step grp cip) groups_start"
  by (rule reach_init) (simp add: groups_init_def groups_start_def)

definition two_groups :: "nat \<Rightarrow> string" where
  "two_groups i = (if even i then ''deploy'' else ''test'')"

lemma acquire_enters:
  assumes "reachable groups_init (groups_step grp False) s" "held s i = None"
    "acquire False ex (grp i) i (sched s) = Some (r, over, sch)"
  obtains t where "reachable groups_init (groups_step grp False) t" "sched t = sch" "held t = (held s)(i := Some r)"
    "cancelled t = cancelled s \<union> over"
  using reach_step[OF assms(1) acquires[where grp = grp, OF assms(2,3)]] by simp

theorem group_slot_exclusive_witness:
  "\<exists>s. reachable groups_init (groups_step two_groups False) s \<and> held s 0 \<noteq> None \<and> held s 1 \<noteq> None \<and> held s 4 \<noteq> None \<and>
     0 \<notin> cancelled s \<and> (\<forall>j. even j \<and> held s j \<noteq> None \<and> j \<notin> cancelled s \<longrightarrow> 0 = j)"
proof -
  have g: "two_groups 0 = ''deploy''" "two_groups 4 = ''deploy''" "two_groups 1 = ''test''" "two_groups (Suc 0) = ''test''"
    by (simp_all add: two_groups_def)
  define d where "d = newConcurrencyScheduler\<lparr>slots := (\<lambda>_. False)(''deploy'' := True)\<rparr>"
  define dt where "dt = d\<lparr>slots := (slots d)(''test'' := True)\<rparr>"
  have a0: "acquire False False (two_groups 0) 0 newConcurrencyScheduler = Some (ReleaseSlot ''deploy'', {}, d)"
    by (simp add: acquire_False g d_def newConcurrencyScheduler_def)
  have a1: "acquire False False (two_groups 1) 1 d = Some (ReleaseSlot ''test'', {}, dt)"
    by (simp add: acquire_False g dt_def) (simp add: d_def)
  have a4: "acquire False True (two_groups 4) 4 dt = Some (ReleaseNothing, {4}, dt)" by (simp add: acquire_False g)
  have st: "sched groups_start = newConcurrencyScheduler" "held groups_start = (\<lambda>_. None)" "cancelled groups_start = {}"
    by (simp_all add: groups_start_def)
  obtain s1 where s1: "reachable groups_init (groups_step two_groups False) s1" "sched s1 = d"
    "held s1 = (\<lambda>_. None)(0 := Some (ReleaseSlot ''deploy''))" "cancelled s1 = {}"
    by (rule acquire_enters[where grp = two_groups, OF groups_start _ a0[folded st(1)]]) (simp_all add: st)
  obtain s2 where s2: "reachable groups_init (groups_step two_groups False) s2" "sched s2 = dt"
    "held s2 = (held s1)(1 := Some (ReleaseSlot ''test''))" "cancelled s2 = {}"
    by (rule acquire_enters[where grp = two_groups, OF s1(1) _ a1[folded s1(2)]]) (simp_all add: s1)
  obtain s3 where s3: "reachable groups_init (groups_step two_groups False) s3"
    "held s3 = (held s2)(4 := Some ReleaseNothing)" "cancelled s3 = {4}"
    by (rule acquire_enters[where grp = two_groups, OF s2(1) _ a4[folded s2(2)]]) (simp_all add: s1 s2)
  have h: "held s3 0 \<noteq> None" "held s3 1 \<noteq> None" "held s3 4 \<noteq> None" "0 \<notin> cancelled s3" using s1(3) s2(3) s3(2,3) by simp_all
  have "even j \<and> held s3 j \<noteq> None \<and> j \<notin> cancelled s3 \<longrightarrow> 0 = j" for j
    using group_slot_exclusive[OF s3(1), THEN conjunct1, rule_format, of 0 j] h(1,4) by (simp add: two_groups_def)
  with s3(1) h show ?thesis by blast
qed

subsection \<open>Preemption is not\<close>

text \<open>
  Releasing deletes the group's generation, so the numbers start again at one. A combination that
  was preempted, and releases only after its successor did, then deletes the entry of the next
  holder: its number is the same.
\<close>

definition live :: "groups_state \<Rightarrow> nat \<Rightarrow> bool" where
  "live s i \<longleftrightarrow> held s i \<noteq> None \<and> i \<notin> cancelled s"

lemma acquire_run:
  assumes "reachable groups_init (groups_step (\<lambda>_. g) True) s" "g \<noteq> []" "held s i = None"
    "gen (sched s) g = k" "cancel (sched s) g = c"
  shows "\<exists>t. reachable groups_init (groups_step (\<lambda>_. g) True) t \<and> gen (sched t) g = Suc k \<and>
    cancel (sched t) g = Some i \<and> held t = (held s)(i := Some (ReleaseGen g (Suc k))) \<and>
    cancelled t = cancelled s \<union> set_option c"
  using reach_step[OF assms(1) acquires[OF assms(3) acquire_True[OF assms(2)]]] assms(4,5) by fastforce

lemma release_run:
  assumes "reachable groups_init (groups_step (\<lambda>_. g) True) s" "held s i = Some (ReleaseGen g k)"
    "gen (sched s) g = k"
  shows "\<exists>t. reachable groups_init (groups_step (\<lambda>_. g) True) t \<and> gen (sched t) g = 0 \<and>
    cancel (sched t) g = None \<and> held t = (held s)(i := None) \<and> cancelled t = insert i (cancelled s)"
  using reach_step[OF assms(1) release_held[OF assms(2)]] assms(3)
  by (fastforce simp: release_def)

text \<open>C29: with \<open>cancel-in-progress\<close>, two combinations of one group can run at the same time, neither
  cancelled: the first is preempted, the second finishes, the third starts with the first's
  generation number, the first releases late and removes the third's entry, and the fourth
  then finds nothing to cancel.\<close>

theorem preempted_release_admits_two:
  assumes "g \<noteq> []"
  shows "\<exists>s. reachable groups_init (groups_step (\<lambda>_. g) True) s \<and> live s 2 \<and> live s 3"
proof -
  let ?R = "reachable groups_init (groups_step (\<lambda>_. g) True)"
  from acquire_run[OF groups_start assms, of 0 0 None] obtain s1 where s1: "?R s1" "gen (sched s1) g = 1"
    "cancel (sched s1) g = Some 0" "held s1 = (\<lambda>_. None)(0 := Some (ReleaseGen g 1))" "cancelled s1 = {}"
    by (auto simp: newConcurrencyScheduler_def groups_start_def)
  from acquire_run[OF s1(1) assms _ s1(2,3), of 1] s1(4,5) obtain s2 where s2: "?R s2" "gen (sched s2) g = 2"
    "held s2 = (\<lambda>_. None)(0 := Some (ReleaseGen g 1), 1 := Some (ReleaseGen g 2))" "cancelled s2 = {0}"
    by (auto simp: numeral_2_eq_2)
  from release_run[OF s2(1) _ s2(2), of 1] s2(3,4) obtain s3 where s3: "?R s3" "gen (sched s3) g = 0"
    "cancel (sched s3) g = None" "held s3 = (\<lambda>_. None)(0 := Some (ReleaseGen g 1))" "cancelled s3 = {0, 1}"
    by (auto simp: fun_upd_twist)
  from acquire_run[OF s3(1) assms _ s3(2,3), of 2] s3(4,5) obtain s4 where s4: "?R s4" "gen (sched s4) g = 1"
    "held s4 = (\<lambda>_. None)(0 := Some (ReleaseGen g 1), 2 := Some (ReleaseGen g 1))" "cancelled s4 = {0, 1}"
    by auto
  from release_run[OF s4(1) _ s4(2), of 0] s4(3,4) obtain s5 where s5: "?R s5" "gen (sched s5) g = 0"
    "cancel (sched s5) g = None" "held s5 = (\<lambda>_. None)(2 := Some (ReleaseGen g 1))" "cancelled s5 = {0, 1}"
    by (auto simp: fun_upd_twist)
  from acquire_run[OF s5(1) assms _ s5(2,3), of 3] s5(4,5) obtain s6 where s6: "?R s6"
    "held s6 = (\<lambda>_. None)(2 := Some (ReleaseGen g 1), 3 := Some (ReleaseGen g 1))" "cancelled s6 = {0, 1}"
    by auto
  then have "live s6 2" "live s6 3" by (simp_all add: live_def)
  with s6(1) show ?thesis by blast
qed

theorem preempted_release_admits_two_witness:
  "\<exists>s. reachable groups_init (groups_step (\<lambda>_. ''deploy'') True) s \<and> live s 2 \<and> live s 3"
  by (rule preempted_release_admits_two) simp

end
