(* ===== verification/Combinations.thy ===== *)
theory Combinations
  imports Executor Concurrency
begin

text \<open>
  The goroutines with which \<open>RunWorkflow\<close> (\<open>internal/engine/workflow_run.go\<close>) runs the combinations of one
  job: they take the semaphore's slots in index order, look at the stop flag, wait for their concurrency
  group, run the job and record the result under the mutex. \<open>advance i\<close> is the next atomic action of
  goroutine \<open>i\<close>, or nothing while it is blocked; a schedule chooses who goes next.
\<close>

subsection \<open>State and actions\<close>

datatype place =
  AtStart                    \<comment> \<open>before \<open>sem <- struct{}{}\<close>\<close>
| HasSlot                    \<comment> \<open>before reading \<open>stopStartingNew\<close>\<close>
| Going                      \<comment> \<open>before \<open>scheduler.acquire\<close>\<close>
| Running release_fn         \<comment> \<open>between \<open>acquire\<close> and its release\<close>
| Finished

record 'w phase =
  ph_at :: "nat \<Rightarrow> place"
  ph_sem :: nat                        \<comment> \<open>entries in the channel \<open>sem\<close>\<close>
  ph_started :: "nat \<Rightarrow> bool"          \<comment> \<open>\<open>starts[i]\<close> is closed\<close>
  ph_stop :: bool
  ph_skipped :: "nat \<Rightarrow> bool"
  ph_failed :: "nat \<Rightarrow> bool"
  ph_steps :: "nat \<Rightarrow> JobResult_step list"
  ph_outputs :: "string smap"
  ph_err :: "exec_error option"
  ph_sched :: scheduler
  ph_done :: "nat set"                 \<comment> \<open>combinations whose context is done\<close>
  ph_world :: 'w

text \<open>What the goroutines share and never change: how many they are, the semaphore's capacity, the group of
  a combination, and what running one does, given whether its context is done. \<open>cb_expires i\<close> says that
  \<open>acquire\<close> of combination \<open>i\<close> sees its context done before (or when) the group's slot is free.\<close>

record 'w combos =
  cb_n :: nat
  cb_cap :: nat
  cb_fail_fast :: bool
  cb_cip :: bool
  cb_group :: "nat \<Rightarrow> 'w \<Rightarrow> exec_error + string"
  cb_exec :: "nat \<Rightarrow> bool \<Rightarrow> ('w, JobResult) io"
  cb_expires :: "nat \<Rightarrow> bool"

definition phase_init :: "'w \<Rightarrow> 'w phase" where
  "phase_init w = \<lparr>ph_at = (\<lambda>_. AtStart), ph_sem = 0, ph_started = (\<lambda>_. False), ph_stop = False,
     ph_skipped = (\<lambda>_. False), ph_failed = (\<lambda>_. False), ph_steps = (\<lambda>_. []), ph_outputs = [], ph_err = None,
     ph_sched = newConcurrencyScheduler, ph_done = {}, ph_world = w\<rparr>"

definition move :: "nat \<Rightarrow> place \<Rightarrow> 'w phase \<Rightarrow> 'w phase" where
  "move i p s = s\<lparr>ph_at := (ph_at s)(i := p)\<rparr>"

text \<open>\<open>defer func() { <-sem }()\<close> and \<open>defer wg.Done()\<close>.\<close>

definition leave :: "nat \<Rightarrow> 'w phase \<Rightarrow> 'w phase" where
  "leave i s = (move i Finished s)\<lparr>ph_sem := ph_sem s - 1\<rparr>"

definition note_err :: "exec_error \<Rightarrow> 'w phase \<Rightarrow> 'w phase" where
  "note_err err s = s\<lparr>ph_err := (case ph_err s of None \<Rightarrow> Some err | Some err0 \<Rightarrow> Some err0)\<rparr>"

definition take_slot :: "'w combos \<Rightarrow> nat \<Rightarrow> 'w phase \<Rightarrow> 'w phase option" where
  "take_slot e i s =
     (if (i = 0 \<or> ph_started s (i - 1)) \<and> ph_sem s < cb_cap e
      then Some ((move i HasSlot s)\<lparr>ph_sem := Suc (ph_sem s), ph_started := (ph_started s)(i := True)\<rparr>)
      else None)"

definition check_stop :: "nat \<Rightarrow> 'w phase \<Rightarrow> 'w phase" where
  "check_stop i s = (if ph_stop s then leave i (s\<lparr>ph_skipped := (ph_skipped s)(i := True)\<rparr>) else move i Going s)"

definition enter_group :: "'w combos \<Rightarrow> nat \<Rightarrow> 'w phase \<Rightarrow> 'w phase option" where
  "enter_group e i s = (case cb_group e i (ph_world s) of
     Inl err \<Rightarrow> Some (leave i (note_err err s))
   | Inr g \<Rightarrow> (case acquire (cb_cip e) (cb_expires e i) g i (ph_sched s) of
       None \<Rightarrow> None
     | Some (r, over, sch) \<Rightarrow> Some ((move i (Running r) s)\<lparr>ph_sched := sch, ph_done := ph_done s \<union> over\<rparr>)))"

definition record_combo :: "'w combos \<Rightarrow> nat \<Rightarrow> exec_error + JobResult \<Rightarrow> 'w phase \<Rightarrow> 'w phase" where
  "record_combo e i res s = (case res of
     Inl err \<Rightarrow> note_err err s
   | Inr jr \<Rightarrow> (let failed = (jr_conclusion jr \<noteq> ''success'') in
       s\<lparr>ph_steps := (ph_steps s)(i := jr_steps jr), ph_outputs := jr_outputs jr,
         ph_failed := (ph_failed s)(i := failed), ph_stop := (ph_stop s \<or> failed \<and> cb_fail_fast e)\<rparr>))"

definition finish :: "'w combos \<Rightarrow> nat \<Rightarrow> release_fn \<Rightarrow> 'w phase \<Rightarrow> 'w phase" where
  "finish e i r s = (case cb_exec e i (i \<in> ph_done s) (ph_world s) of (res, w) \<Rightarrow>
     leave i ((record_combo e i res (s\<lparr>ph_world := w\<rparr>))\<lparr>ph_sched := release r (ph_sched s),
       ph_done := ph_done s \<union> (case r of ReleaseGen _ _ \<Rightarrow> {i} | _ \<Rightarrow> {})\<rparr>))"

definition advance :: "'w combos \<Rightarrow> nat \<Rightarrow> 'w phase \<Rightarrow> 'w phase option" where
  "advance e i s = (case ph_at s i of
     AtStart \<Rightarrow> take_slot e i s
   | HasSlot \<Rightarrow> Some (check_stop i s)
   | Going \<Rightarrow> enter_group e i s
   | Running r \<Rightarrow> Some (finish e i r s)
   | Finished \<Rightarrow> None)"

subsection \<open>Schedules\<close>

definition enabled :: "'w combos \<Rightarrow> 'w phase \<Rightarrow> nat list" where
  "enabled e s = filter (\<lambda>i. advance e i s \<noteq> None) [0..<cb_n e]"

text \<open>A run under the schedule \<open>pick\<close>: with \<open>k\<close> actions left, goroutine number \<open>pick k\<close> (modulo their number) of
  those that can act goes next.\<close>

fun drive :: "'w combos \<Rightarrow> (nat \<Rightarrow> nat) \<Rightarrow> nat \<Rightarrow> 'w phase \<Rightarrow> 'w phase" where
  "drive e pick 0 s = s"
| "drive e pick (Suc k) s =
     (let is = enabled e s in
      if is = [] then s
      else case advance e (is ! (pick k mod length is)) s of Some t \<Rightarrow> drive e pick k t | None \<Rightarrow> s)"

text \<open>Each of the \<open>n\<close> goroutines acts at most four times.\<close>

definition run_combos :: "'w combos \<Rightarrow> (nat \<Rightarrow> nat) \<Rightarrow> 'w \<Rightarrow> 'w phase" where
  "run_combos e pick w = drive e pick (4 * cb_n e) (phase_init w)"

definition combos_init :: "'w phase \<Rightarrow> bool" where
  "combos_init s \<longleftrightarrow> (\<exists>w. s = phase_init w)"

inductive combos_step :: "'w combos \<Rightarrow> 'w phase \<Rightarrow> 'w phase \<Rightarrow> bool" for e :: "'w combos" where
  goroutine: "i < cb_n e \<Longrightarrow> advance e i s = Some t \<Longrightarrow> combos_step e s t"

inductive_cases combos_stepE: "combos_step e s t"

subsection \<open>What one action does\<close>

lemma enter_group_cases:
  "enter_group e i s = (case cb_group e i (ph_world s) of
     Inl err \<Rightarrow> Some (leave i (note_err err s))
   | Inr g \<Rightarrow>
      (if g = [] then Some (move i (Running ReleaseNothing) s)
       else if cb_cip e then (case acquire_preempt g i (ph_sched s) of (prev, r, sch) \<Rightarrow>
           Some ((move i (Running r) s)\<lparr>ph_sched := sch, ph_done := ph_done s \<union> set_option prev\<rparr>))
       else if cb_expires e i then Some ((move i (Running ReleaseNothing) s)\<lparr>ph_done := insert i (ph_done s)\<rparr>)
       else (case acquire_queue g (ph_sched s) of
           None \<Rightarrow> None
         | Some (r, sch) \<Rightarrow> Some ((move i (Running r) s)\<lparr>ph_sched := sch\<rparr>))))"
  by (simp add: enter_group_def acquire_def move_def split: sum.split option.split prod.split)

subsection \<open>The machine runs the scheduler of \<open>Concurrency\<close>\<close>

text \<open>What the machine's state says of the groups: who is between \<open>acquire\<close> and its release.\<close>

definition groups_of :: "'w phase \<Rightarrow> groups_state" where
  "groups_of s = \<lparr>sched = ph_sched s, held = (\<lambda>i. case ph_at s i of Running r \<Rightarrow> Some r | _ \<Rightarrow> None),
     cancelled = ph_done s\<rparr>"

lemma groups_of_move: "groups_of (move i (Running r) s) = (groups_of s)\<lparr>held := (held (groups_of s))(i := Some r)\<rparr>"
  "p \<in> {AtStart, HasSlot, Going, Finished} \<Longrightarrow>
    groups_of (move i p s) = (groups_of s)\<lparr>held := (held (groups_of s))(i := None)\<rparr>"
  by (auto simp: groups_of_def move_def fun_eq_iff)

lemma groups_of_same:
  "\<forall>r. ph_at s i \<noteq> Running r \<Longrightarrow> \<forall>r. p \<noteq> Running r \<Longrightarrow> ph_sched t = ph_sched s \<Longrightarrow> ph_done t = ph_done s \<Longrightarrow>
    ph_at t = (ph_at s)(i := p) \<Longrightarrow> groups_of t = groups_of s"
  by (auto simp: groups_of_def fun_eq_iff split: place.split)

lemma advance_groups:
  assumes grp: "cb_group e i (ph_world s) = Inr (grp i)" and t: "advance e i s = Some t"
  shows "groups_of t = groups_of s \<or> groups_step grp (cb_cip e) (groups_of s) (groups_of t)"
proof (cases "ph_at s i")
  case AtStart
  with t have "groups_of t = groups_of s" by (intro groups_of_same[of s i HasSlot])
      (auto simp: advance_def take_slot_def move_def split: if_splits)
  then show ?thesis ..
next
  case HasSlot
  with t have "groups_of t = groups_of s"
    by (intro groups_of_same[of s i "if ph_stop s then Finished else Going"])
      (auto simp: advance_def check_stop_def leave_def move_def split: if_splits)
  then show ?thesis ..
next
  case Going
  with t grp obtain r over sch where a: "acquire (cb_cip e) (cb_expires e i) (grp i) i (ph_sched s) = Some (r, over, sch)"
    and t': "t = (move i (Running r) s)\<lparr>ph_sched := sch, ph_done := ph_done s \<union> over\<rparr>"
    by (auto simp: advance_def enter_group_def split: option.splits prod.splits)
  have "groups_of t = (groups_of s)\<lparr>sched := sch, held := (held (groups_of s))(i := Some r),
      cancelled := cancelled (groups_of s) \<union> over\<rparr>"
    by (simp add: groups_of_def t' move_def fun_eq_iff)
  moreover have "held (groups_of s) i = None" "sched (groups_of s) = ph_sched s"
    using Going by (simp_all add: groups_of_def)
  ultimately show ?thesis using acquires[of "groups_of s" i "cb_cip e" _ grp] a by simp
next
  case (Running r)
  with t have t': "t = finish e i r s" by (simp add: advance_def)
  have "groups_of t = (groups_of s)\<lparr>sched := release r (sched (groups_of s)), held := (held (groups_of s))(i := None),
      cancelled := cancelled (groups_of s) \<union> (case r of ReleaseGen _ _ \<Rightarrow> {i} | _ \<Rightarrow> {})\<rparr>"
    unfolding t' by (auto simp: groups_of_def finish_def leave_def move_def record_combo_def note_err_def Let_def
        fun_eq_iff split: prod.split sum.split)
  moreover have "held (groups_of s) i = Some r" using Running by (simp add: groups_of_def)
  ultimately show ?thesis using release_held[of "groups_of s" i r grp "cb_cip e"] by simp
qed (use t in \<open>simp add: advance_def\<close>)

text \<open>Every reachable state of the machine is, for the scheduler, one of \<open>groups_step\<close>.\<close>

lemma groups_of_reachable:
  assumes "reachable combos_init (combos_step e) s" and grp: "\<And>i v. i < cb_n e \<Longrightarrow> cb_group e i v = Inr (grp i)"
  shows "reachable groups_init (groups_step grp (cb_cip e)) (groups_of s)"
  using assms(1)
proof (induction rule: reachable.induct)
  case (reach_init s)
  then show ?case by (intro reachable.reach_init) (auto simp: combos_init_def groups_init_def groups_of_def phase_init_def)
next
  case (reach_step s t)
  from reach_step(2) obtain i where i: "i < cb_n e" "advance e i s = Some t" by cases auto
  from advance_groups[of e i s grp t, OF grp[OF i(1)] i(2)] reach_step(3) show ?case by (metis reachable.reach_step)
qed

lemma combos_group_exclusive:
  assumes run: "reachable combos_init (combos_step e) s" and grp: "\<And>i v. i < cb_n e \<Longrightarrow> cb_group e i v = Inr (grp i)"
    and "\<not> cb_cip e"
    and "grp i = grp j" "grp i \<noteq> []" "ph_at s i = Running r" "ph_at s j = Running r'" "i \<notin> ph_done s" "j \<notin> ph_done s"
  shows "i = j"
proof -
  have "reachable groups_init (groups_step grp False) (groups_of s)"
    using groups_of_reachable[OF run, of grp] grp assms(3) by simp
  from slots_inv_exclusive[OF queue.reachable_inv[OF this], of i j] assms show ?thesis by (simp add: groups_of_def)
qed

subsection \<open>Places and ranks\<close>

definition in_slot :: "place \<Rightarrow> bool" where
  "in_slot p \<longleftrightarrow> p \<noteq> AtStart \<and> p \<noteq> Finished"

fun rank :: "place \<Rightarrow> nat" where
  "rank AtStart = 4"
| "rank HasSlot = 3"
| "rank Going = 2"
| "rank (Running r) = 1"
| "rank Finished = 0"

lemmas phase_defs = advance_def take_slot_def check_stop_def enter_group_cases finish_def leave_def move_def
  note_err_def record_combo_def acquire_preempt_def acquire_queue_def

lemma advance_moves:
  assumes "advance e i s = Some t"
  shows "ph_at t = (ph_at s)(i := ph_at t i)" "rank (ph_at t i) < rank (ph_at s i)"
  using assms by (auto simp: phase_defs Let_def split: place.splits if_splits sum.splits option.splits prod.splits)

lemma advance_sem:
  assumes "advance e i s = Some t" "in_slot (ph_at s i) \<Longrightarrow> 0 < ph_sem s"
  shows "ph_sem t + (if in_slot (ph_at s i) then 1 else 0) = ph_sem s + (if in_slot (ph_at t i) then 1 else 0)"
    "ph_sem t \<le> max (ph_sem s) (cb_cap e)"
  using assms by (auto simp: phase_defs in_slot_def Let_def
      split: place.splits if_splits sum.splits option.splits prod.splits)

lemma advance_started:
  assumes "advance e i s = Some t"
  shows "ph_started t = (ph_started s)(i := ph_started s i \<or> ph_at s i = AtStart)"
    "ph_at s i = AtStart \<Longrightarrow> i = 0 \<or> ph_started s (i - 1)" "ph_at t i \<noteq> AtStart"
  using assms by (auto simp: phase_defs fun_eq_iff Let_def
      split: place.splits if_splits sum.splits option.splits prod.splits)

lemma advance_slots:
  assumes "advance e i s = Some t" "slots (ph_sched t) g" "\<not> slots (ph_sched s) g"
  shows "ph_at t i = Running (ReleaseSlot g)"
  using assms by (auto simp: phase_defs release_def Let_def
      split: place.splits if_splits sum.splits option.splits prod.splits release_fn.splits)

lemma advance_slots_held:
  assumes "advance e i s = Some t" "ph_at s i = Running (ReleaseSlot g)"
  shows "\<not> slots (ph_sched t) g"
  using assms by (auto simp: phase_defs release_def Let_def split: sum.splits prod.splits)

subsection \<open>The invariant, termination, progress\<close>

definition slots_in_use :: "nat \<Rightarrow> 'w phase \<Rightarrow> nat" where
  "slots_in_use n s = (\<Sum>k<n. if in_slot (ph_at s k) then 1 else 0)"

definition work_left :: "nat \<Rightarrow> 'w phase \<Rightarrow> nat" where
  "work_left n s = (\<Sum>k<n. rank (ph_at s k))"

lemma slots_in_use_card: "slots_in_use n s = card {k. k < n \<and> in_slot (ph_at s k)}"
  unfolding slots_in_use_def by (subst sum.If_cases) (simp_all add: Collect_conj_eq lessThan_def)

lemma sum_move:
  fixes F :: "place \<Rightarrow> nat"
  assumes "i < n" "ph_at t = (ph_at s)(i := ph_at t i)"
  shows "(\<Sum>k<n. F (ph_at t k)) + F (ph_at s i) = (\<Sum>k<n. F (ph_at s k)) + F (ph_at t i)"
proof -
  have split: "(\<Sum>k<n. F (f k)) = F (f i) + (\<Sum>k\<in>{..<n} - {i}. F (f k))" for f :: "nat \<Rightarrow> place"
    using assms(1) by (intro sum.remove) auto
  have "ph_at t k = ph_at s k" if "k \<noteq> i" for k
    using that by (metis assms(2) fun_upd_apply)
  then have "(\<Sum>k\<in>{..<n} - {i}. F (ph_at t k)) = (\<Sum>k\<in>{..<n} - {i}. F (ph_at s k))" by (intro sum.cong) auto
  then show ?thesis using split[of "ph_at t"] split[of "ph_at s"] by simp
qed

definition combos_inv :: "'w combos \<Rightarrow> 'w phase \<Rightarrow> bool" where
  "combos_inv e s \<longleftrightarrow>
     (\<forall>i<cb_n e. ph_started s i \<longleftrightarrow> ph_at s i \<noteq> AtStart) \<and>
     (\<forall>i j. i < j \<longrightarrow> j < cb_n e \<longrightarrow> ph_at s i = AtStart \<longrightarrow> ph_at s j = AtStart) \<and>
     ph_sem s = slots_in_use (cb_n e) s \<and> ph_sem s \<le> cb_cap e \<and>
     (\<forall>g. slots (ph_sched s) g \<longrightarrow> (\<exists>j<cb_n e. ph_at s j = Running (ReleaseSlot g)))"

lemma in_slot_sem:
  assumes "combos_inv e s" "i < cb_n e" "in_slot (ph_at s i)"
  shows "0 < ph_sem s"
proof -
  have "i \<in> {k. k < cb_n e \<and> in_slot (ph_at s k)}" using assms(2,3) by simp
  then have "0 < card {k. k < cb_n e \<and> in_slot (ph_at s k)}" by (auto simp: card_gt_0_iff)
  then show ?thesis using assms(1) by (simp add: combos_inv_def slots_in_use_card)
qed

lemma combos_inv_step:
  assumes inv: "combos_inv e s" and "combos_step e s t"
  shows "combos_inv e t"
proof -
  from assms(2) obtain i where i: "i < cb_n e" "advance e i s = Some t" by cases auto
  note at = advance_moves(1)[OF i(2)]
  have other: "ph_at t k = ph_at s k" if "k \<noteq> i" for k using at that by (metis fun_upd_apply)
  note sem = advance_sem[OF i(2) in_slot_sem[OF inv i(1)]] and st = advance_started[OF i(2)]
  have 1: "\<forall>k<cb_n e. ph_started t k \<longleftrightarrow> ph_at t k \<noteq> AtStart"
    using inv st(1,3) other i(1) by (auto simp: combos_inv_def)
  have 2: "ph_at t b = AtStart" if "a < b" "b < cb_n e" "ph_at t a = AtStart" for a b
  proof -
    have sa: "a \<noteq> i" "ph_at s a = AtStart" using that(3) st(3) other by metis+
    then have sb: "ph_at s b = AtStart" using inv that unfolding combos_inv_def by blast
    have "b \<noteq> i"
    proof
      assume "b = i"
      with sb st(2) that have "ph_started s (b - 1)" by simp
      moreover have "a \<le> b - 1" "b - 1 < cb_n e" using that by auto
      ultimately show False using inv sa(2) unfolding combos_inv_def by (metis le_neq_implies_less)
    qed
    with sb other show ?thesis by metis
  qed
  have "slots_in_use (cb_n e) t + (if in_slot (ph_at s i) then 1 else 0) =
      slots_in_use (cb_n e) s + (if in_slot (ph_at t i) then 1 else 0)"
    unfolding slots_in_use_def by (rule sum_move[OF i(1) at])
  with sem(1) inv have 3: "ph_sem t = slots_in_use (cb_n e) t" by (simp add: combos_inv_def)
  have 4: "ph_sem t \<le> cb_cap e" using sem(2) inv by (simp add: combos_inv_def)
  have 5: "\<exists>j<cb_n e. ph_at t j = Running (ReleaseSlot g)" if "slots (ph_sched t) g" for g
  proof (cases "slots (ph_sched s) g")
    case True
    then obtain j where j: "j < cb_n e" "ph_at s j = Running (ReleaseSlot g)"
      using inv unfolding combos_inv_def by blast
    with that advance_slots_held[OF i(2)] have "j \<noteq> i" by metis
    with j other show ?thesis by metis
  qed (use advance_slots[OF i(2) that] i(1) in blast)
  from 1 2 3 4 5 show ?thesis unfolding combos_inv_def by blast
qed

lemma combos_inv_init: "combos_init s \<Longrightarrow> combos_inv e s"
  by (auto simp: combos_init_def phase_init_def combos_inv_def slots_in_use_def in_slot_def newConcurrencyScheduler_def)

interpretation combos: terminating_system combos_init "combos_step e" "combos_inv e" "work_left (cb_n e)"
  for e :: "'w combos"
proof unfold_locales
  fix s t :: "'w phase"
  assume "combos_step e s t"
  then obtain i where i: "i < cb_n e" "advance e i s = Some t" by cases auto
  from sum_move[OF i(1) advance_moves(1)[OF i(2)], of rank] advance_moves(2)[OF i(2)]
  show "work_left (cb_n e) t < work_left (cb_n e) s" by (simp add: work_left_def)
qed (rule combos_inv_init combos_inv_step; assumption)+

text \<open>No goroutine waits for ever: while one is not finished, one can act.\<close>

lemma combos_progress:
  assumes inv: "combos_inv e s" and cap: "0 < cb_cap e" and i: "i < cb_n e" "ph_at s i \<noteq> Finished"
  shows "enabled e s \<noteq> []"
proof
  assume "enabled e s = []"
  then have stuck: "advance e k s = None" if "k < cb_n e" for k
    using that by (auto simp: enabled_def filter_empty_conv)
  have idle: "ph_at s k = AtStart \<or> ph_at s k = Finished" if k: "k < cb_n e" for k
  proof (cases "ph_at s k")
    case Going
    with stuck[OF k] obtain g where "slots (ph_sched s) g"
      by (auto simp: advance_def enter_group_cases acquire_queue_def split: sum.splits if_splits prod.splits)
    then obtain j where "j < cb_n e" "ph_at s j = Running (ReleaseSlot g)"
      using inv unfolding combos_inv_def by blast
    with stuck[of j] show ?thesis by (simp add: advance_def)
  qed (use stuck[OF k] in \<open>auto simp: advance_def\<close>)
  have sem: "ph_sem s = 0"
  proof -
    have "\<not> in_slot (ph_at s k)" if "k < cb_n e" for k using idle[OF that] by (auto simp: in_slot_def)
    then have "slots_in_use (cb_n e) s = 0" by (simp add: slots_in_use_def)
    with inv show ?thesis by (simp add: combos_inv_def)
  qed
  define m where "m = (LEAST k. k < cb_n e \<and> ph_at s k = AtStart)"
  have "i < cb_n e \<and> ph_at s i = AtStart" using i idle[OF i(1)] by simp
  then have "m < cb_n e \<and> ph_at s m = AtStart" unfolding m_def by (rule LeastI)
  then have m: "m < cb_n e" "ph_at s m = AtStart" by simp_all
  have "m = 0 \<or> ph_started s (m - 1)"
  proof (cases m)
    case (Suc k)
    then have "k < (LEAST k. k < cb_n e \<and> ph_at s k = AtStart)" by (simp add: m_def)
    then have "\<not> (k < cb_n e \<and> ph_at s k = AtStart)" by (rule not_less_Least)
    then have "ph_at s k \<noteq> AtStart" "k < cb_n e" using Suc m(1) by auto
    with inv have "ph_started s k" by (simp add: combos_inv_def)
    with Suc show ?thesis by simp
  qed simp
  with stuck[OF m(1)] m(2) sem cap show False by (simp add: advance_def take_slot_def)
qed

lemma enabled_nth:
  assumes "enabled e s \<noteq> []"
  shows "\<exists>t. advance e (enabled e s ! (k mod length (enabled e s))) s = Some t \<and> combos_step e s t"
proof -
  have "enabled e s ! (k mod length (enabled e s)) \<in> set (enabled e s)" using assms by simp
  then show ?thesis unfolding enabled_def by (auto intro: goroutine)
qed

lemma drive_steps: "(combos_step e)\<^sup>*\<^sup>* s (drive e pick k s)"
proof (induction k arbitrary: s)
  case (Suc k)
  show ?case
  proof (cases "enabled e s = []")
    case False
    from enabled_nth[OF False] obtain t where
      "advance e (enabled e s ! (pick k mod length (enabled e s))) s = Some t" "combos_step e s t" by blast
    with False Suc.IH[of t] show ?thesis by (auto simp: Let_def intro: converse_rtranclp_into_rtranclp)
  qed simp
qed simp

lemma drive_reachable: "reachable combos_init (combos_step e) (drive e pick k (phase_init w))"
proof -
  have "reachable combos_init (combos_step e) s \<Longrightarrow> (combos_step e)\<^sup>*\<^sup>* s t \<Longrightarrow> reachable combos_init (combos_step e) t" for s t
    by (rotate_tac 1, induction rule: rtranclp_induct) (auto intro: reach_step)
  with drive_steps show ?thesis by (metis combos_init_def reach_init)
qed

lemma drive_finishes:
  assumes "combos_inv e s" "0 < cb_cap e" "work_left (cb_n e) s \<le> k" "i < cb_n e"
  shows "ph_at (drive e pick k s) i = Finished"
  using assms(1,3)
proof (induction k arbitrary: s)
  case 0
  then have "rank (ph_at s i) = 0" using assms(4) by (simp add: work_left_def)
  then show ?case by (cases "ph_at s i") auto
next
  case (Suc k)
  show ?case
  proof (cases "enabled e s = []")
    case True
    then show ?thesis using combos_progress[OF Suc.prems(1) assms(2,4)] by auto
  next
    case False
    from enabled_nth[OF False] obtain t where
      t: "advance e (enabled e s ! (pick k mod length (enabled e s))) s = Some t" "combos_step e s t" by blast
    have "combos_inv e t" "work_left (cb_n e) t \<le> k"
      using combos_inv_step[OF Suc.prems(1) t(2)] combos.cost_step[OF Suc.prems(1) t(2)] Suc.prems(2) by auto
    from Suc.IH[OF this] False t(1) show ?thesis by (simp add: Let_def)
  qed
qed

lemma phase_init_work: "work_left n (phase_init w) = 4 * n"
  by (simp add: work_left_def phase_init_def)

lemma run_combos_finishes: "0 < cb_cap e \<Longrightarrow> i < cb_n e \<Longrightarrow> ph_at (run_combos e pick w) i = Finished"
  unfolding run_combos_def
  by (rule drive_finishes[OF combos_inv_init]) (auto simp: combos_init_def phase_init_work)

lemma combos_bounded:
  "reachable combos_init (combos_step e) s \<Longrightarrow> card {i. i < cb_n e \<and> in_slot (ph_at s i)} \<le> cb_cap e"
  by (drule combos.reachable_inv) (simp add: combos_inv_def slots_in_use_card)

text \<open>C7: At most \<open>max-parallel\<close> combinations are between taking and returning a semaphore slot, in every reachable
  state and for every interleaving, and they start in index order: none has started while an earlier one
  has not.\<close>

theorem combinations_bounded_in_order:
  assumes "reachable combos_init (combos_step e) s"
  shows "card {i. i < cb_n e \<and> in_slot (ph_at s i)} \<le> cb_cap e \<and>
    (\<forall>i j. i < j \<longrightarrow> j < cb_n e \<longrightarrow> ph_at s i = AtStart \<longrightarrow> ph_at s j = AtStart)"
  using combos.reachable_inv[OF assms] combos_bounded[OF assms] by (simp add: combos_inv_def)

subsection \<open>One at a time\<close>

text \<open>What one combination does when no other runs.\<close>

definition run_alone :: "'w combos \<Rightarrow> nat \<Rightarrow> 'w phase \<Rightarrow> 'w phase" where
  "run_alone e i s =
     (if ph_stop s then s\<lparr>ph_skipped := (ph_skipped s)(i := True)\<rparr>
      else case cb_group e i (ph_world s) of
        Inl err \<Rightarrow> note_err err s
      | Inr g \<Rightarrow> (case cb_exec e i (g \<noteq> [] \<and> \<not> cb_cip e \<and> cb_expires e i) (ph_world s) of
          (res, w) \<Rightarrow> record_combo e i res (s\<lparr>ph_world := w\<rparr>)))"

definition in_sequence :: "'w combos \<Rightarrow> nat \<Rightarrow> 'w \<Rightarrow> 'w phase" where
  "in_sequence e k w = fold (run_alone e) [0..<k] (phase_init w)"

text \<open>What the goroutines leave behind for \<open>RunWorkflow\<close>.\<close>

definition results :: "'w phase \<Rightarrow> bool \<times> (nat \<Rightarrow> bool) \<times> (nat \<Rightarrow> bool) \<times> (nat \<Rightarrow> JobResult_step list) \<times> string smap \<times>
    exec_error option \<times> 'w" where
  "results s = (ph_stop s, ph_skipped s, ph_failed s, ph_steps s, ph_outputs s, ph_err s, ph_world s)"

lemma results_run_alone: "results s = results s' \<Longrightarrow> results (run_alone e i s) = results (run_alone e i s')"
  by (auto simp: results_def run_alone_def note_err_def record_combo_def Let_def split: sum.splits prod.splits)

lemma in_sequence_Suc: "in_sequence e (Suc k) w = run_alone e k (in_sequence e k w)"
  by (simp add: in_sequence_def)

definition idle_sched :: "scheduler \<Rightarrow> bool" where
  "idle_sched sch \<longleftrightarrow> (\<forall>g. \<not> slots sch g \<and> cancel sch g = None)"

text \<open>Combination \<open>k\<close> is the one at work; it meets the scheduler as it was at first.\<close>

definition seq_at :: "'w combos \<Rightarrow> 'w \<Rightarrow> nat \<Rightarrow> 'w phase \<Rightarrow> bool" where
  "seq_at e w k s \<longleftrightarrow> k \<le> cb_n e \<and> (\<forall>j<k. ph_at s j = Finished) \<and> (\<forall>j>k. ph_at s j = AtStart) \<and> ph_at s k \<noteq> Finished \<and>
     results s = results (in_sequence e k w) \<and>
     (case ph_at s k of
        Running r \<Rightarrow> \<not> ph_stop s \<and> idle_sched (release r (ph_sched s)) \<and> ph_done s \<subseteq> {..k} \<and>
          (\<exists>g. cb_group e k (ph_world s) = Inr g \<and>
             (k \<in> ph_done s \<longleftrightarrow> g \<noteq> [] \<and> \<not> cb_cip e \<and> cb_expires e k))
      | Going \<Rightarrow> \<not> ph_stop s \<and> idle_sched (ph_sched s) \<and> ph_done s \<subseteq> {..<k}
      | _ \<Rightarrow> idle_sched (ph_sched s) \<and> ph_done s \<subseteq> {..<k})"

lemma seq_only:
  assumes "seq_at e w k s" "combos_inv e s" "cb_cap e = 1" "i < cb_n e" "advance e i s = Some t"
  shows "i = k"
proof (rule ccontr)
  assume "i \<noteq> k"
  moreover have "\<not> i < k" using assms(1,5) by (auto simp: seq_at_def advance_def)
  ultimately have ik: "k < i" by simp
  then have at: "ph_at s i = AtStart" using assms(1) by (simp add: seq_at_def)
  from advance_started(2)[OF assms(5) at] ik have st: "ph_started s (i - 1)" by simp
  then have "ph_at s (i - 1) \<noteq> AtStart" using assms(2,4) by (simp add: combos_inv_def)
  then have "\<not> k < i - 1" using assms(1) by (auto simp: seq_at_def)
  with ik have "i - 1 = k" by simp
  with \<open>ph_at s (i - 1) \<noteq> AtStart\<close> assms(1) have "in_slot (ph_at s k)" by (simp add: in_slot_def seq_at_def)
  then have "0 < ph_sem s" using in_slot_sem[OF assms(2), of k] ik assms(4) by simp
  with assms(3,5) at show False by (simp add: advance_def take_slot_def split: if_splits)
qed

lemma seq_leave:
  assumes "seq_at e w k s" "k < cb_n e" "results t = results (run_alone e k s)" "ph_at t = (ph_at s)(k := Finished)"
    "idle_sched (ph_sched t)" "ph_done t \<subseteq> {..<Suc k}"
  shows "seq_at e w (Suc k) t"
proof -
  have "results t = results (in_sequence e (Suc k) w)"
    unfolding assms(3) in_sequence_Suc by (rule results_run_alone) (use assms(1) in \<open>simp add: seq_at_def\<close>)
  moreover have "\<forall>j<Suc k. ph_at t j = Finished" "\<forall>j>Suc k. ph_at t j = AtStart" "ph_at t (Suc k) = AtStart"
    using assms(1,4) by (auto simp: seq_at_def less_Suc_eq)
  ultimately show ?thesis using assms(2,5,6) by (simp add: seq_at_def)
qed

lemma seq_stay:
  assumes "seq_at e w k s" "results t = results s" "ph_at t = (ph_at s)(k := p)" "p \<noteq> Finished"
    "case p of Running r \<Rightarrow> \<not> ph_stop t \<and> idle_sched (release r (ph_sched t)) \<and> ph_done t \<subseteq> {..k} \<and>
        (\<exists>g. cb_group e k (ph_world t) = Inr g \<and> (k \<in> ph_done t \<longleftrightarrow> g \<noteq> [] \<and> \<not> cb_cip e \<and> cb_expires e k))
      | Going \<Rightarrow> \<not> ph_stop t \<and> idle_sched (ph_sched t) \<and> ph_done t \<subseteq> {..<k}
      | _ \<Rightarrow> idle_sched (ph_sched t) \<and> ph_done t \<subseteq> {..<k}"
  shows "seq_at e w k t"
  using assms by (auto simp: seq_at_def)

lemma idle_release_queue:
  assumes "idle_sched sch" "acquire_queue g sch = Some (r, sch')"
  shows "idle_sched (release r sch')"
  using assms by (auto simp: idle_sched_def acquire_queue_def release_def split: if_splits)

lemma idle_release_preempt:
  assumes "idle_sched sch" "acquire_preempt g i sch = (prev, r, sch')"
  shows "idle_sched (release r sch')" "prev = None"
  using assms by (auto simp: idle_sched_def acquire_preempt_def release_def Let_def)

lemma seq_group:
  assumes s: "seq_at e w k s" "k < cb_n e" "ph_at s k = Going" and t: "enter_group e k s = Some t"
  shows "seq_at e w k t \<or> seq_at e w (Suc k) t"
proof -
  have idle: "idle_sched (ph_sched s)" "ph_done s \<subseteq> {..<k}" "\<not> ph_stop s" using s by (auto simp: seq_at_def)
  then have lt: "ph_done s \<subseteq> {..k}" "k \<notin> ph_done s" by auto
  show ?thesis
  proof (cases "cb_group e k (ph_world s)")
    case (Inl err)
    then have t': "t = leave k (note_err err s)" using t by (simp add: enter_group_cases)
    have "seq_at e w (Suc k) t"
      by (rule seq_leave[OF s(1,2)])
        (use idle Inl in \<open>auto simp: t' leave_def move_def note_err_def results_def run_alone_def\<close>)
    then show ?thesis ..
  next
    case (Inr g)
    have "seq_at e w k t"
    proof (cases "g = [] \<or> \<not> cb_cip e \<and> cb_expires e k")
      case True
      then have "t = (move k (Running ReleaseNothing) s)\<lparr>ph_done := (if g = [] then ph_done s else insert k (ph_done s))\<rparr>"
        using t Inr by (auto simp: enter_group_cases move_def)
      then show ?thesis
        by (intro seq_stay[OF s(1)]) (use idle lt True Inr in \<open>auto simp: move_def results_def release_def\<close>)
    next
      case False
      show ?thesis
      proof (cases "cb_cip e")
        case True
        obtain prev r sch where a: "acquire_preempt g k (ph_sched s) = (prev, r, sch)" by (metis prod_cases3)
        have "t = (move k (Running r) s)\<lparr>ph_sched := sch, ph_done := ph_done s \<union> set_option prev\<rparr>"
          using t Inr False True a by (simp add: enter_group_cases)
        then have "t = (move k (Running r) s)\<lparr>ph_sched := sch, ph_done := ph_done s\<rparr>"
          using idle_release_preempt(2)[OF idle(1) a] by simp
        then show ?thesis
          by (intro seq_stay[OF s(1)])
            (use idle lt True Inr idle_release_preempt(1)[OF idle(1) a] in \<open>auto simp: move_def results_def\<close>)
      next
        case nc: False
        from t Inr False nc obtain r sch where a: "acquire_queue g (ph_sched s) = Some (r, sch)"
          and t': "t = (move k (Running r) s)\<lparr>ph_sched := sch\<rparr>"
          by (auto simp: enter_group_cases split: option.splits)
        show ?thesis unfolding t'
          by (intro seq_stay[OF s(1)])
            (use idle lt nc False Inr idle_release_queue[OF idle(1) a] in \<open>auto simp: move_def results_def\<close>)
      qed
    qed
    then show ?thesis ..
  qed
qed

lemma seq_finish:
  assumes s: "seq_at e w k s" "k < cb_n e" "ph_at s k = Running r"
  shows "seq_at e w (Suc k) (finish e k r s)"
proof -
  obtain g where g: "cb_group e k (ph_world s) = Inr g"
      "k \<in> ph_done s \<longleftrightarrow> g \<noteq> [] \<and> \<not> cb_cip e \<and> cb_expires e k"
    and r: "\<not> ph_stop s" "idle_sched (release r (ph_sched s))" "ph_done s \<subseteq> {..k}"
    using s by (auto simp: seq_at_def)
  obtain res w' where x: "cb_exec e k (k \<in> ph_done s) (ph_world s) = (res, w')" by (cases "cb_exec e k (k \<in> ph_done s) (ph_world s)")
  have x': "cb_exec e k (g \<noteq> [] \<and> \<not> cb_cip e \<and> cb_expires e k) (ph_world s) = (res, w')"
    using x unfolding g(2) .
  have alone: "run_alone e k s = record_combo e k res (s\<lparr>ph_world := w'\<rparr>)"
    unfolding run_alone_def g(1) using r(1) x' by simp
  have "results (finish e k r s) = results (run_alone e k s)"
    unfolding alone finish_def x
    by (simp add: results_def leave_def move_def record_combo_def note_err_def Let_def split: sum.splits)
  moreover have "ph_at (finish e k r s) = (ph_at s)(k := Finished)"
    "ph_sched (finish e k r s) = release r (ph_sched s)" "ph_done (finish e k r s) \<subseteq> {..<Suc k}"
    using x r(3) by (auto simp: finish_def leave_def move_def record_combo_def note_err_def Let_def
        split: sum.splits release_fn.splits)
  ultimately show ?thesis using seq_leave[OF s(1,2)] r(2) by simp
qed

lemma seq_step:
  assumes s: "seq_at e w k s" and inv: "combos_inv e s" and cap: "cb_cap e = 1" and step: "combos_step e s t"
  shows "seq_at e w k t \<or> seq_at e w (Suc k) t"
proof -
  from step obtain i where i: "i < cb_n e" "advance e i s = Some t" by cases auto
  then have "i = k" using seq_only[OF s inv cap] by blast
  with i have k: "k < cb_n e" and t: "advance e k s = Some t" by simp_all
  show ?thesis
  proof (cases "ph_at s k")
    case AtStart
    then have "t = (move k HasSlot s)\<lparr>ph_sem := Suc (ph_sem s), ph_started := (ph_started s)(k := True)\<rparr>"
      using t by (simp add: advance_def take_slot_def split: if_splits)
    then have "seq_at e w k t"
      by (intro seq_stay[OF s]) (use s AtStart in \<open>auto simp: seq_at_def move_def results_def\<close>)
    then show ?thesis ..
  next
    case HasSlot
    then have t': "t = check_stop k s" and idle: "idle_sched (ph_sched s)" "ph_done s \<subseteq> {..<k}"
      using t s by (auto simp: advance_def seq_at_def)
    show ?thesis
    proof (cases "ph_stop s")
      case True
      have "seq_at e w (Suc k) t"
        by (rule seq_leave[OF s k]) (use True idle in \<open>auto simp: t' check_stop_def leave_def move_def results_def run_alone_def\<close>)
      then show ?thesis ..
    next
      case False
      have "seq_at e w k t"
        by (rule seq_stay[OF s, of _ Going]) (use False idle in \<open>auto simp: t' check_stop_def move_def results_def\<close>)
      then show ?thesis ..
    qed
  next
    case Going
    with t seq_group[OF s k Going] show ?thesis by (simp add: advance_def)
  next
    case (Running r)
    with t seq_finish[OF s k Running] show ?thesis by (simp add: advance_def)
  qed (use t in \<open>simp add: advance_def\<close>)
qed

lemma seq_reachable:
  assumes "cb_cap e = 1" "(combos_step e)\<^sup>*\<^sup>* (phase_init w) s"
  shows "combos_inv e s \<and> (\<exists>k. seq_at e w k s)"
  using assms(2)
proof (induction rule: rtranclp_induct)
  case base
  have "seq_at e w 0 (phase_init w)"
    by (simp add: seq_at_def phase_init_def in_sequence_def idle_sched_def newConcurrencyScheduler_def)
  then show ?case using combos_inv_init[of "phase_init w" e] unfolding combos_init_def by blast
next
  case (step s t)
  then show ?case using seq_step[OF _ _ assms(1) step(2)] combos_inv_step by blast
qed

text \<open>C3: With \<open>max-parallel: 1\<close> concurrency is invisible: under every schedule the combinations run exactly as if
  one after the other in index order, each skipped once an earlier one has failed with fail-fast. Reports,
  failures, outputs, the first error and the world are the same, concurrency groups included.\<close>

theorem max_parallel_one_is_sequential:
  assumes "cb_cap e = 1"
  shows "results (run_combos e pick w) = results (in_sequence e (cb_n e) w)"
proof -
  have "(combos_step e)\<^sup>*\<^sup>* (phase_init w) (run_combos e pick w)" unfolding run_combos_def by (rule drive_steps)
  from seq_reachable[OF assms this] obtain k where k: "seq_at e w k (run_combos e pick w)" by blast
  have "\<not> k < cb_n e"
  proof
    assume "k < cb_n e"
    then have "ph_at (run_combos e pick w) k = Finished" using run_combos_finishes[of e k pick w] assms by simp
    with k show False by (simp add: seq_at_def)
  qed
  with k show ?thesis by (simp add: seq_at_def)
qed

definition quiet_job :: "string \<Rightarrow> JobResult" where
  "quiet_job c = \<lparr>jr_conclusion = c, jr_steps = [\<lparr>rep_id = ''s'', rep_name = ''s'', rep_conclusion = c, rep_exit_code = 0,
     rep_stdout = [], rep_stderr = []\<rparr>], jr_outputs = []\<rparr>"

text \<open>Three combinations of a queued group, the first of which fails.\<close>

definition sample_combos :: "nat \<Rightarrow> int combos" where
  "sample_combos m = \<lparr>cb_n = 3, cb_cap = m, cb_fail_fast = True, cb_cip = False, cb_group = (\<lambda>_ _. Inr ''deploy''),
     cb_exec = (\<lambda>i _ w. (Inr (quiet_job (if i = 0 then ''failure'' else ''success'')), w + 1)), cb_expires = (\<lambda>_. False)\<rparr>"

theorem combinations_bounded_in_order_witness:
  "card {i. i < 3 \<and> in_slot (ph_at (drive (sample_combos 2) (\<lambda>k. k) 3 (phase_init 0)) i)} \<le> 2 \<and>
   ph_at (drive (sample_combos 2) (\<lambda>k. k) 3 (phase_init 0)) 1 \<noteq> AtStart"
proof -
  have "ph_at (drive (sample_combos 2) (\<lambda>k. k) 3 (phase_init 0)) 1 \<noteq> AtStart" by code_simp
  with combinations_bounded_in_order[OF drive_reachable[of "sample_combos 2" "\<lambda>k. k" 3 0]]
  show ?thesis by (simp add: sample_combos_def)
qed

theorem max_parallel_one_is_sequential_witness:
  "ph_skipped (run_combos (sample_combos 1) (\<lambda>k. 7 * k) 0) 1 \<and> ph_world (run_combos (sample_combos 1) (\<lambda>k. 7 * k) 0) = 1"
proof -
  have "results (run_combos (sample_combos 1) (\<lambda>k. 7 * k) 0) = results (in_sequence (sample_combos 1) 3 0)"
    using max_parallel_one_is_sequential[of "sample_combos 1" "\<lambda>k. 7 * k" 0] by (simp add: sample_combos_def)
  moreover have "ph_skipped (in_sequence (sample_combos 1) 3 0) 1" "ph_world (in_sequence (sample_combos 1) 3 0) = 1"
    by code_simp+
  ultimately show ?thesis by (simp add: results_def)
qed

subsection \<open>The result of a job\<close>

definition job_result :: "string \<Rightarrow> combination list \<Rightarrow> 'w phase \<Rightarrow> exec_error + JobResult" where
  "job_result name combos s = (case ph_err s of
     Some err \<Rightarrow> Inl err
   | None \<Rightarrow> Inr \<lparr>
       jr_conclusion = (if list_ex (\<lambda>i. \<not> ph_skipped s i \<and> ph_failed s i) [0..<length combos] then ''failure'' else ''success''),
       jr_steps = concat (map (\<lambda>i. if ph_skipped s i
           then [\<lparr>rep_id = [], rep_name = name @ MatrixSuffix (combos ! i), rep_conclusion = ''skipped'', rep_exit_code = 0,
                  rep_stdout = [], rep_stderr = []\<rparr>]
           else ph_steps s i) [0..<length combos]),
       jr_outputs = ph_outputs s\<rparr>)"

text \<open>What combination \<open>i\<close> answers when only it runs, from the world \<open>w\<close>.\<close>

definition alone :: "'w combos \<Rightarrow> 'w \<Rightarrow> nat \<Rightarrow> exec_error + JobResult" where
  "alone e w i = (case cb_group e i w of Inl err \<Rightarrow> Inl err | Inr _ \<Rightarrow> fst (cb_exec e i False w))"

text \<open>Combinations that share no state: \<open>view i v\<close> is what combination \<open>i\<close> can see of a world \<open>v\<close>, and no other
  combination changes it.\<close>

definition separate :: "'w combos \<Rightarrow> (nat \<Rightarrow> 'w \<Rightarrow> 'v) \<Rightarrow> bool" where
  "separate e view \<longleftrightarrow>
     (\<forall>i<cb_n e. \<forall>v v'. view i v = view i v' \<longrightarrow>
        cb_group e i v = cb_group e i v' \<and> fst (cb_exec e i False v) = fst (cb_exec e i False v')) \<and>
     (\<forall>i<cb_n e. \<forall>j<cb_n e. i \<noteq> j \<longrightarrow> (\<forall>v. view j (snd (cb_exec e i False v)) = view j v))"

text \<open>A job whose combinations are never cancelled.\<close>

definition uncancelled :: "'w combos \<Rightarrow> bool" where
  "uncancelled e \<longleftrightarrow> \<not> cb_fail_fast e \<and> \<not> cb_cip e \<and> (\<forall>i<cb_n e. \<not> cb_expires e i)"

definition separate_inv :: "'w combos \<Rightarrow> (nat \<Rightarrow> 'w \<Rightarrow> 'v) \<Rightarrow> 'w \<Rightarrow> 'w phase \<Rightarrow> bool" where
  "separate_inv e view w s \<longleftrightarrow> \<not> ph_stop s \<and> (\<forall>i. \<not> ph_skipped s i) \<and> ph_done s = {} \<and>
     (\<forall>i g k. ph_at s i \<noteq> Running (ReleaseGen g k)) \<and>
     (\<forall>i<cb_n e. ph_at s i \<noteq> Finished \<longrightarrow> view i (ph_world s) = view i w) \<and>
     (\<forall>i<cb_n e. \<forall>r. ph_at s i = Running r \<longrightarrow> alone e w i = fst (cb_exec e i False w)) \<and>
     (\<forall>i<cb_n e. ph_at s i = Finished \<longrightarrow> (case alone e w i of
        Inl _ \<Rightarrow> ph_err s \<noteq> None
      | Inr jr \<Rightarrow> ph_steps s i = jr_steps jr \<and> ph_failed s i = (jr_conclusion jr \<noteq> ''success''))) \<and>
     (ph_err s \<noteq> None \<longrightarrow> (\<exists>i<cb_n e. isl (alone e w i)))"

lemma separate_stay:
  assumes inv: "separate_inv e view w s" and at: "ph_at t = (ph_at s)(i := p)" "ph_at s i \<noteq> Finished" "p \<noteq> Finished"
    and run: "\<forall>r. p = Running r \<longrightarrow> alone e w i = fst (cb_exec e i False w) \<and> (\<forall>g k. r \<noteq> ReleaseGen g k)"
    and same: "ph_stop t = ph_stop s" "ph_skipped t = ph_skipped s" "ph_done t = ph_done s" "ph_world t = ph_world s"
    "ph_err t = ph_err s" "ph_steps t = ph_steps s" "ph_failed t = ph_failed s"
  shows "separate_inv e view w t"
  using inv at(2,3) run unfolding separate_inv_def at(1) same by (auto simp: fun_upd_apply)

lemma separate_leave:
  assumes inv: "separate_inv e view w s" and i: "i < cb_n e" and at: "ph_at t = (ph_at s)(i := Finished)"
    and view: "\<forall>j<cb_n e. j \<noteq> i \<longrightarrow> view j (ph_world t) = view j (ph_world s)"
    and same: "ph_stop t = ph_stop s" "ph_skipped t = ph_skipped s" "ph_done t = ph_done s"
    and other: "\<forall>j. j \<noteq> i \<longrightarrow> ph_steps t j = ph_steps s j \<and> ph_failed t j = ph_failed s j"
    and res: "case alone e w i of Inl _ \<Rightarrow> ph_err t \<noteq> None
      | Inr jr \<Rightarrow> ph_err t = ph_err s \<and> ph_steps t i = jr_steps jr \<and> ph_failed t i = (jr_conclusion jr \<noteq> ''success'')"
  shows "separate_inv e view w t"
proof -
  have err: "ph_err s \<noteq> None \<Longrightarrow> ph_err t \<noteq> None" using res by (auto split: sum.splits)
  have "case alone e w j of Inl _ \<Rightarrow> ph_err t \<noteq> None
      | Inr jr \<Rightarrow> ph_steps t j = jr_steps jr \<and> ph_failed t j = (jr_conclusion jr \<noteq> ''success'')"
    if "j < cb_n e" "ph_at t j = Finished" for j
  proof (cases "j = i")
    case True
    with res show ?thesis by (auto split: sum.splits)
  next
    case False
    with that at inv have "case alone e w j of Inl _ \<Rightarrow> ph_err s \<noteq> None
      | Inr jr \<Rightarrow> ph_steps s j = jr_steps jr \<and> ph_failed s j = (jr_conclusion jr \<noteq> ''success'')"
      unfolding separate_inv_def by simp
    with err other False show ?thesis by (simp split: sum.splits)
  qed
  moreover have "\<exists>k<cb_n e. isl (alone e w k)" if "ph_err t \<noteq> None"
  proof (cases "alone e w i")
    case Inl
    with i show ?thesis by (auto simp: isl_def)
  next
    case Inr
    with that res inv show ?thesis unfolding separate_inv_def by simp
  qed
  moreover have "view j (ph_world t) = view j w" if "j < cb_n e" "ph_at t j \<noteq> Finished" for j
    using that at inv view unfolding separate_inv_def by (metis fun_upd_apply)
  moreover have "\<forall>j g k. ph_at t j \<noteq> Running (ReleaseGen g k)"
    "\<forall>j<cb_n e. \<forall>r. ph_at t j = Running r \<longrightarrow> alone e w j = fst (cb_exec e j False w)"
    using inv unfolding separate_inv_def at by (simp_all add: fun_upd_apply)
  ultimately show ?thesis using inv unfolding separate_inv_def same by blast
qed

lemma separate_group:
  assumes sep: "separate e view" "uncancelled e" and inv: "separate_inv e view w s" and i: "i < cb_n e" "ph_at s i = Going"
    and t: "enter_group e i s = Some t"
  shows "separate_inv e view w t"
proof -
  have "view i (ph_world s) = view i w" using inv i unfolding separate_inv_def by simp
  then have g: "cb_group e i (ph_world s) = cb_group e i w" using sep(1) i(1) unfolding separate_def by blast
  show ?thesis
  proof (cases "cb_group e i w")
    case (Inl err)
    then have t': "t = leave i (note_err err s)" using t g by (simp add: enter_group_cases)
    show ?thesis unfolding t'
      by (rule separate_leave[OF inv i(1)]) (simp_all add: leave_def move_def note_err_def alone_def Inl split: option.split)
  next
    case (Inr grp)
    have "enter_group e i s = (if grp = [] then Some (move i (Running ReleaseNothing) s)
        else if slots (ph_sched s) grp then None
        else Some ((move i (Running (ReleaseSlot grp)) s)\<lparr>ph_sched := (ph_sched s)\<lparr>slots := (slots (ph_sched s))(grp := True)\<rparr>\<rparr>))"
      using sep(2) i(1) by (simp add: enter_group_cases g Inr uncancelled_def acquire_queue_def)
    then obtain r where "t = move i (Running r) s \<or> (\<exists>sch. t = (move i (Running r) s)\<lparr>ph_sched := sch\<rparr>)" "\<forall>g k. r \<noteq> ReleaseGen g k"
      using t by (metis option.distinct(1) option.inject release_fn.distinct(3,5))
    then show ?thesis
      by (intro separate_stay[OF inv, of t i "Running r"]) (use i Inr in \<open>auto simp: move_def alone_def\<close>)
  qed
qed

lemma separate_finish:
  assumes sep: "separate e view" "uncancelled e" and inv: "separate_inv e view w s" and i: "i < cb_n e" "ph_at s i = Running r"
  shows "separate_inv e view w (finish e i r s)"
proof -
  have d: "ph_done s = {}" "\<forall>g k. r \<noteq> ReleaseGen g k" using inv i unfolding separate_inv_def by auto
  obtain v where x: "cb_exec e i False (ph_world s) = (fst (cb_exec e i False (ph_world s)), v)" by (metis prod.collapse)
  have "view i (ph_world s) = view i w" using inv i unfolding separate_inv_def by simp
  then have "fst (cb_exec e i False (ph_world s)) = fst (cb_exec e i False w)" using sep(1) i(1) unfolding separate_def by blast
  also have "\<dots> = alone e w i" using inv i unfolding separate_inv_def by metis
  finally have x': "cb_exec e i False (ph_world s) = (alone e w i, v)" using x by simp
  have view: "\<forall>j<cb_n e. j \<noteq> i \<longrightarrow> view j v = view j (ph_world s)"
    using sep(1) i(1) x' unfolding separate_def by (metis snd_conv)
  have no_gen: "(case r of ReleaseGen _ _ \<Rightarrow> {i} | _ \<Rightarrow> {}) = {}" using d(2) by (simp split: release_fn.split)
  have t: "finish e i r s = leave i ((record_combo e i (alone e w i) (s\<lparr>ph_world := v\<rparr>))\<lparr>ph_sched := release r (ph_sched s),
      ph_done := {}\<rparr>)"
    unfolding finish_def using x' no_gen by (simp add: d(1))
  have ff: "\<not> cb_fail_fast e" using sep(2) by (simp add: uncancelled_def)
  show ?thesis unfolding t
    by (rule separate_leave[OF inv i(1)])
      (use view ff in \<open>auto simp: leave_def move_def record_combo_def note_err_def Let_def d(1) split: sum.split option.split\<close>)
qed

lemma separate_step:
  assumes sep: "separate e view" "uncancelled e" and inv: "separate_inv e view w s" and step: "combos_step e s t"
  shows "separate_inv e view w t"
proof -
  from step obtain i where i: "i < cb_n e" "advance e i s = Some t" by cases auto
  show ?thesis
  proof (cases "ph_at s i")
    case AtStart
    then have "t = (move i HasSlot s)\<lparr>ph_sem := Suc (ph_sem s), ph_started := (ph_started s)(i := True)\<rparr>"
      using i(2) by (simp add: advance_def take_slot_def split: if_splits)
    then show ?thesis by (intro separate_stay[OF inv, of t i HasSlot]) (simp_all add: AtStart move_def)
  next
    case HasSlot
    then have "t = move i Going s"
      using i(2) inv by (simp add: advance_def check_stop_def separate_inv_def)
    then show ?thesis by (intro separate_stay[OF inv, of t i Going]) (simp_all add: HasSlot move_def)
  next
    case Going
    with i separate_group[OF sep inv] show ?thesis by (simp add: advance_def)
  next
    case (Running r)
    with i(2) have "t = finish e i r s" by (simp add: advance_def)
    with separate_finish[OF sep inv i(1) Running] show ?thesis by simp
  qed (use i(2) in \<open>simp add: advance_def\<close>)
qed

lemma separate_reachable:
  assumes "separate e view" "uncancelled e" "(combos_step e)\<^sup>*\<^sup>* (phase_init w) s"
  shows "separate_inv e view w s"
  using assms(3)
proof (induction rule: rtranclp_induct)
  case base
  then show ?case by (simp add: separate_inv_def phase_init_def)
qed (rule separate_step[OF assms(1,2)])

text \<open>What a job reports, from what its combinations answer, but for its outputs and which error it is.\<close>

definition report_of :: "(exec_error + JobResult) list \<Rightarrow> unit + string \<times> JobResult_step list" where
  "report_of rs = (if list_ex isl rs then Inl ()
     else Inr (if list_ex (\<lambda>r. jr_conclusion (projr r) \<noteq> ''success'') rs then ''failure'' else ''success'',
       concat (map (\<lambda>r. jr_steps (projr r)) rs)))"

lemma separate_result:
  assumes sep: "separate e view" "uncancelled e" and cap: "0 < cb_cap e" and n: "cb_n e = length combos"
  shows "map_sum (\<lambda>_. ()) (\<lambda>jr. (jr_conclusion jr, jr_steps jr)) (job_result name combos (run_combos e pick w)) =
    report_of (map (alone e w) [0..<length combos])"
proof -
  let ?s = "run_combos e pick w"
  have "(combos_step e)\<^sup>*\<^sup>* (phase_init w) ?s" unfolding run_combos_def by (rule drive_steps)
  from separate_reachable[OF sep this] have inv: "separate_inv e view w ?s" .
  have fin: "case alone e w i of Inl _ \<Rightarrow> ph_err ?s \<noteq> None
      | Inr jr \<Rightarrow> ph_steps ?s i = jr_steps jr \<and> ph_failed ?s i = (jr_conclusion jr \<noteq> ''success'')" if "i < length combos" for i
    using inv that run_combos_finishes[OF cap, of i pick w] n unfolding separate_inv_def by simp
  have err: "ph_err ?s \<noteq> None \<longleftrightarrow> list_ex isl (map (alone e w) [0..<length combos])"
    using inv fin n unfolding separate_inv_def by (fastforce simp: list_ex_iff isl_def)
  show ?thesis
  proof (cases "ph_err ?s")
    case None
    then have ok: "\<not> list_ex isl (map (alone e w) [0..<length combos])" using err by simp
    have st: "ph_steps ?s i = jr_steps (projr (alone e w i))" "\<not> ph_skipped ?s i"
      "ph_failed ?s i = (jr_conclusion (projr (alone e w i)) \<noteq> ''success'')" if "i < length combos" for i
    proof -
      have "\<not> isl (alone e w i)" using ok that by (simp add: list_ex_iff)
      then obtain jr where "alone e w i = Inr jr" by (cases "alone e w i") auto
      with fin[OF that] show "ph_steps ?s i = jr_steps (projr (alone e w i))"
        "ph_failed ?s i = (jr_conclusion (projr (alone e w i)) \<noteq> ''success'')" by simp_all
      show "\<not> ph_skipped ?s i" using inv unfolding separate_inv_def by blast
    qed
    then have "map (\<lambda>i. if ph_skipped ?s i then ss i else ph_steps ?s i) [0..<length combos] =
        map (\<lambda>i. jr_steps (projr (alone e w i))) [0..<length combos]" for ss by (intro map_cong) auto
    moreover have "list_ex (\<lambda>i. \<not> ph_skipped ?s i \<and> ph_failed ?s i) [0..<length combos] \<longleftrightarrow>
        list_ex (\<lambda>r. jr_conclusion (projr r) \<noteq> ''success'') (map (alone e w) [0..<length combos])"
      using st by (auto simp: list_ex_iff)
    ultimately show ?thesis
      unfolding job_result_def None report_of_def using ok
      by (simp only: option.case map_sum.simps JobResult.select_convs if_False map_map comp_def)
  next
    case (Some x)
    then show ?thesis using err by (simp add: job_result_def report_of_def)
  qed
qed

end
