(* ===== verification/Topo.thy ===== *)
theory Topo
  imports Workflow
begin

text \<open>
  \<open>TopoSortJobs\<close> of \<open>internal/engine/workflow_run.go\<close>: a depth-first search over \<open>needs:\<close> with
  three colours, and its correctness: the result is a topological order of all jobs, and it is
  an error exactly when a job needs an unknown job or the dependencies are circular.
\<close>

datatype colour = Unvisited | Visiting | Done

datatype topo_error =
    CircularDependency string
  | UnknownJob string
  | NeedsUnknownJob string string

text \<open>The closure's variables: the \<open>state\<close> map (a missing key reads as \<open>unvisited\<close>) and \<open>order\<close>.\<close>

record topo =
  colour_of :: "string \<Rightarrow> colour"
  order :: "string list"

definition topo_init :: topo where
  "topo_init = \<lparr>colour_of = (\<lambda>_. Unvisited), order = []\<rparr>"

function visit :: "Job smap \<Rightarrow> string \<Rightarrow> topo \<Rightarrow> topo_error + topo"
  and visit_deps :: "Job smap \<Rightarrow> string \<Rightarrow> string list \<Rightarrow> topo \<Rightarrow> topo_error + topo" where
  "visit jobs name st = (case colour_of st name of
     Done \<Rightarrow> Inr st
   | Visiting \<Rightarrow> Inl (CircularDependency name)
   | Unvisited \<Rightarrow> (case mget jobs name of
       None \<Rightarrow> Inl (UnknownJob name)
     | Some job \<Rightarrow>
         bind_res (visit_deps jobs name (job_needs job)
                     (st\<lparr>colour_of := (colour_of st)(name := Visiting)\<rparr>))
           (\<lambda>st'. Inr (st'\<lparr>colour_of := (colour_of st')(name := Done), order := order st' @ [name]\<rparr>))))"
| "visit_deps jobs name [] st = Inr st"
| "visit_deps jobs name (dep # deps) st =
     (if mget jobs dep = None then Inl (NeedsUnknownJob name dep)
      else bind_res (visit jobs dep st) (visit_deps jobs name deps))"
  by pat_completeness auto

text \<open>Termination: a visit that recurses has coloured one more job, and no visit uncolours one.\<close>

definition white :: "Job smap \<Rightarrow> topo \<Rightarrow> string set" where
  "white jobs st = {n \<in> fst ` set jobs. colour_of st n = Unvisited}"

lemma finite_white [simp]: "finite (white jobs st)"
  by (simp add: white_def)

lemma visit_white_dom:
  "visit_visit_deps_dom (Inl (jobs, name, st)) \<Longrightarrow>
     visit jobs name st = Inr st' \<Longrightarrow> white jobs st' \<subseteq> white jobs st"
  "visit_visit_deps_dom (Inr (jobs, name, deps, st)) \<Longrightarrow>
     visit_deps jobs name deps st = Inr st' \<Longrightarrow> white jobs st' \<subseteq> white jobs st"
proof (induction jobs name st and jobs name deps st arbitrary: st' and st' rule: visit_visit_deps.pinduct)
  case (1 jobs name st)
  show ?case
  proof (cases "colour_of st name")
    case Unvisited
    note c = this
    let ?st1 = "st\<lparr>colour_of := (colour_of st)(name := Visiting)\<rparr>"
    from 1(1,3) c obtain job where job: "mget jobs name = Some job"
      by (simp add: visit.psimps split: option.splits)
    from 1(1,3) c job obtain u where u: "visit_deps jobs name (job_needs job) ?st1 = Inr u"
      and st': "st' = u\<lparr>colour_of := (colour_of u)(name := Done), order := order u @ [name]\<rparr>"
      by (simp add: visit.psimps) blast
    have "white jobs u \<subseteq> white jobs ?st1" by (rule 1(2)[OF c job u])
    moreover have "white jobs st' \<subseteq> white jobs u" unfolding st' by (auto simp: white_def)
    moreover have "white jobs ?st1 \<subseteq> white jobs st" by (auto simp: white_def)
    ultimately show ?thesis by blast
  qed (use 1 in \<open>simp_all add: visit.psimps\<close>)
next
  case (2 jobs name st)
  then show ?case by (simp add: visit_deps.psimps)
next
  case (3 jobs name dep deps st)
  then have "mget jobs dep \<noteq> None" by (auto simp: visit_deps.psimps split: if_splits)
  with 3 obtain u where "visit jobs dep st = Inr u" "visit_deps jobs name deps u = Inr st'"
    by (auto simp: visit_deps.psimps)
  with 3 \<open>mget jobs dep \<noteq> None\<close> show ?case by blast
qed

lemma white_visiting:
  assumes "mget jobs name = Some job" "colour_of st name = Unvisited"
  shows "card (white jobs (st\<lparr>colour_of := (colour_of st)(name := Visiting)\<rparr>)) < card (white jobs st)"
proof (rule psubset_card_mono)
  have "name \<in> fst ` set jobs" using assms(1) by (metis map_of_eq_None_iff option.distinct(1))
  with assms(2) show "white jobs (st\<lparr>colour_of := (colour_of st)(name := Visiting)\<rparr>) \<subset> white jobs st"
    by (auto simp: white_def)
qed simp

termination visit
proof (relation "inv_image (less_than <*lex*> less_than)
    (\<lambda>x. case x of Inl (jobs, name, st) \<Rightarrow> (card (white jobs st), 0)
                 | Inr (jobs, name, deps, st) \<Rightarrow> (card (white jobs st), Suc (length deps)))", goal_cases)
  case (2 jobs name st job)
  then show ?case using white_visiting by fastforce
next
  case (4 jobs name dep deps st st')
  have "card (white jobs st') \<le> card (white jobs st)"
    using visit_white_dom(1) 4 by (intro card_mono) auto
  then show ?case by auto
qed auto

declare visit.simps [simp del]

fun visit_all :: "Job smap \<Rightarrow> string list \<Rightarrow> topo \<Rightarrow> topo_error + topo" where
  "visit_all jobs [] st = Inr st"
| "visit_all jobs (n # ns) st = bind_res (visit jobs n st) (visit_all jobs ns)"

definition TopoSortJobs :: "Job smap \<Rightarrow> topo_error + string list" where
  "TopoSortJobs jobs =
     bind_res (visit_all jobs (sort (map fst jobs)) topo_init) (\<lambda>st. Inr (order st))"

text \<open>What a visit keeps: \<open>order\<close> lists the finished jobs once each, after their needs.\<close>

definition needs_of :: "Job smap \<Rightarrow> string \<Rightarrow> string list" where
  "needs_of jobs n = (case mget jobs n of None \<Rightarrow> [] | Some job \<Rightarrow> job_needs job)"

definition needs_rel :: "Job smap \<Rightarrow> (string \<times> string) set" where
  "needs_rel jobs = {(a, b). b \<in> set (needs_of jobs a)}"

definition needs_first :: "Job smap \<Rightarrow> string list \<Rightarrow> bool" where
  "needs_first jobs ns \<longleftrightarrow>
     (\<forall>i < length ns. \<forall>d \<in> set (needs_of jobs (ns ! i)). d \<in> set (take i ns))"

definition topo_inv :: "Job smap \<Rightarrow> topo \<Rightarrow> bool" where
  "topo_inv jobs st \<longleftrightarrow> distinct (order st) \<and> set (order st) = {n. colour_of st n = Done} \<and>
     set (order st) \<subseteq> fst ` set jobs \<and> needs_first jobs (order st)"

definition finishes :: "topo \<Rightarrow> topo \<Rightarrow> bool" where
  "finishes st st' \<longleftrightarrow> (\<forall>n. colour_of st' n = Visiting \<longleftrightarrow> colour_of st n = Visiting) \<and>
     (\<forall>n. colour_of st n = Done \<longrightarrow> colour_of st' n = Done)"

lemma finishes_trans: "finishes a b \<Longrightarrow> finishes b c \<Longrightarrow> finishes a c"
  by (simp add: finishes_def)

lemma mget_key: "mget m k = Some v \<Longrightarrow> k \<in> fst ` set m"
  by (metis map_of_eq_None_iff option.distinct(1))

lemma needs_first_snoc:
  "needs_first jobs ns \<Longrightarrow> set (needs_of jobs n) \<subseteq> set ns \<Longrightarrow> needs_first jobs (ns @ [n])"
  by (auto simp: needs_first_def nth_append less_Suc_eq)

lemma topo_inv_finish:
  assumes "topo_inv jobs u" "colour_of u n \<noteq> Done" "mget jobs n = Some job"
    "\<forall>d \<in> set (job_needs job). colour_of u d = Done"
  shows "topo_inv jobs (u\<lparr>colour_of := (colour_of u)(n := Done), order := order u @ [n]\<rparr>)"
proof -
  have "needs_first jobs (order u @ [n])"
    using assms by (intro needs_first_snoc) (auto simp: topo_inv_def needs_of_def)
  with assms mget_key[OF assms(3)] show ?thesis by (auto simp: topo_inv_def)
qed

lemma visit_unvisited:
  assumes "colour_of st name = Unvisited" "visit jobs name st = Inr st'"
  obtains job u where "mget jobs name = Some job"
    "visit_deps jobs name (job_needs job) (st\<lparr>colour_of := (colour_of st)(name := Visiting)\<rparr>) = Inr u"
    "st' = u\<lparr>colour_of := (colour_of u)(name := Done), order := order u @ [name]\<rparr>"
  using assms by (auto simp: visit.simps[of jobs name st] split: option.splits)

lemma visit_Inr:
  "visit jobs name st = Inr st' \<Longrightarrow> topo_inv jobs st \<Longrightarrow>
     topo_inv jobs st' \<and> finishes st st' \<and> colour_of st' name = Done"
  "visit_deps jobs name deps st = Inr st' \<Longrightarrow> topo_inv jobs st \<Longrightarrow>
     topo_inv jobs st' \<and> finishes st st' \<and> (\<forall>d \<in> set deps. colour_of st' d = Done)"
proof (induction jobs name st and jobs name deps st arbitrary: st' and st' rule: visit_visit_deps.induct)
  case (1 jobs name st)
  show ?case
  proof (cases "colour_of st name")
    case Unvisited
    note c = this
    let ?st1 = "st\<lparr>colour_of := (colour_of st)(name := Visiting)\<rparr>"
    obtain job u where job: "mget jobs name = Some job"
      and u: "visit_deps jobs name (job_needs job) ?st1 = Inr u"
      and st': "st' = u\<lparr>colour_of := (colour_of u)(name := Done), order := order u @ [name]\<rparr>"
      using visit_unvisited[OF c 1(2)] .
    have inv1: "topo_inv jobs ?st1" using 1(3) c by (auto simp: topo_inv_def)
    note IH = 1(1)[OF c job u inv1]
    from IH have v: "colour_of u name = Visiting" by (simp add: finishes_def)
    from IH have "topo_inv jobs st'" unfolding st'
      by (intro topo_inv_finish[OF _ _ job]) (auto simp: v)
    moreover have "finishes st st'" using IH c unfolding st' by (auto simp: finishes_def)
    ultimately show ?thesis by (simp add: st')
  next
    case Visiting
    with 1(2) show ?thesis by (simp add: visit.simps)
  next
    case Done
    with 1(2,3) show ?thesis by (simp add: visit.simps[of jobs name st] finishes_def)
  qed
next
  case (2 jobs name st)
  then show ?case by (simp add: finishes_def)
next
  case (3 jobs name dep deps st)
  from 3(3) have known: "mget jobs dep \<noteq> None" by (auto split: if_splits)
  with 3(3) obtain u where u: "visit jobs dep st = Inr u" "visit_deps jobs name deps u = Inr st'"
    by auto
  note a = 3(1)[OF known u(1) 3(4)]
  then have "topo_inv jobs u" by blast
  note b = 3(2)[OF known u(1) u(2) this]
  have "finishes st st'" using a b finishes_trans by blast
  moreover have "colour_of st' dep = Done" using a b by (simp add: finishes_def)
  ultimately show ?case using b by simp
qed

text \<open>What an error means: the names under visit form a path of needs to the current one.\<close>

definition real_error :: "Job smap \<Rightarrow> topo_error \<Rightarrow> bool" where
  "real_error jobs e = (case e of
     CircularDependency n \<Rightarrow> (n, n) \<in> (needs_rel jobs)\<^sup>+
   | UnknownJob n \<Rightarrow> False
   | NeedsUnknownJob a b \<Rightarrow> mget jobs a \<noteq> None \<and> b \<in> set (needs_of jobs a) \<and> mget jobs b = None)"

lemma visit_Inl:
  "visit jobs name st = Inl e \<Longrightarrow> topo_inv jobs st \<Longrightarrow> mget jobs name \<noteq> None \<Longrightarrow>
     \<forall>v. colour_of st v = Visiting \<longrightarrow> (v, name) \<in> (needs_rel jobs)\<^sup>+ \<Longrightarrow> real_error jobs e"
  "visit_deps jobs name deps st = Inl e \<Longrightarrow> topo_inv jobs st \<Longrightarrow> mget jobs name \<noteq> None \<Longrightarrow>
     set deps \<subseteq> set (needs_of jobs name) \<Longrightarrow>
     \<forall>v. colour_of st v = Visiting \<longrightarrow> (v, name) \<in> (needs_rel jobs)\<^sup>* \<Longrightarrow> real_error jobs e"
proof (induction jobs name st and jobs name deps st rule: visit_visit_deps.induct)
  case (1 jobs name st)
  show ?case
  proof (cases "colour_of st name")
    case Unvisited
    note c = this
    let ?st1 = "st\<lparr>colour_of := (colour_of st)(name := Visiting)\<rparr>"
    obtain job where job: "mget jobs name = Some job" using 1(4) by blast
    have e: "visit_deps jobs name (job_needs job) ?st1 = Inl e"
      using 1(2) c job by (simp add: visit.simps[of jobs name st] bind_res_eq_Inl)
    have inv: "topo_inv jobs ?st1" using 1(3) c by (auto simp: topo_inv_def)
    have sub: "set (job_needs job) \<subseteq> set (needs_of jobs name)" by (simp add: needs_of_def job)
    have vis: "\<forall>v. colour_of ?st1 v = Visiting \<longrightarrow> (v, name) \<in> (needs_rel jobs)\<^sup>*"
      using 1(5) by (auto intro: trancl_into_rtrancl)
    show ?thesis by (rule 1(1)[OF c job e inv 1(4) sub vis])
  next
    case Visiting
    with 1(2,5) show ?thesis by (auto simp: visit.simps[of jobs name st] real_error_def)
  next
    case Done
    with 1(2) show ?thesis by (simp add: visit.simps[of jobs name st])
  qed
next
  case (2 jobs name st)
  then show ?case by simp
next
  case (3 jobs name dep deps st)
  show ?case
  proof (cases "mget jobs dep = None")
    case True
    with 3(3,5,6) show ?thesis by (auto simp: real_error_def)
  next
    case known: False
    have edge: "(name, dep) \<in> needs_rel jobs" using 3(6) by (simp add: needs_rel_def)
    with 3(7) have vis: "\<forall>v. colour_of st v = Visiting \<longrightarrow> (v, dep) \<in> (needs_rel jobs)\<^sup>+"
      by (meson rtrancl_into_trancl1)
    from 3(3) known consider "visit jobs dep st = Inl e"
      | u where "visit jobs dep st = Inr u" "visit_deps jobs name deps u = Inl e"
      by (auto simp: bind_res_eq_Inl)
    then show ?thesis
    proof cases
      case 1
      from 3(1)[OF known this 3(4) known vis] show ?thesis .
    next
      case 2
      note u = visit_Inr(1)[OF 2(1) 3(4)]
      then have vis': "\<forall>v. colour_of u v = Visiting \<longrightarrow> (v, name) \<in> (needs_rel jobs)\<^sup>*"
        using 3(7) by (simp add: finishes_def)
      from u have inv: "topo_inv jobs u" by blast
      from 3(6) have sub: "set deps \<subseteq> set (needs_of jobs name)" by simp
      show ?thesis by (rule 3(2)[OF known 2(1) 2(2) inv 3(5) sub vis'])
    qed
  qed
qed

definition nothing_visiting :: "topo \<Rightarrow> bool" where
  "nothing_visiting st \<longleftrightarrow> (\<forall>v. colour_of st v \<noteq> Visiting)"

lemma visit_all_Inr:
  "visit_all jobs ns st = Inr st' \<Longrightarrow> topo_inv jobs st \<Longrightarrow>
     topo_inv jobs st' \<and> finishes st st' \<and> (\<forall>n \<in> set ns. colour_of st' n = Done)"
proof (induction ns arbitrary: st)
  case Nil
  then show ?case by (simp add: finishes_def)
next
  case (Cons n ns)
  then obtain u where u: "visit jobs n st = Inr u" "visit_all jobs ns u = Inr st'" by auto
  note a = visit_Inr(1)[OF u(1) Cons.prems(2)]
  with Cons.IH[OF u(2)] have b: "topo_inv jobs st' \<and> finishes u st' \<and> (\<forall>n \<in> set ns. colour_of st' n = Done)"
    by blast
  with a have "colour_of st' n = Done" by (simp add: finishes_def)
  with a b finishes_trans show ?case by auto
qed

lemma visit_all_Inl:
  "visit_all jobs ns st = Inl e \<Longrightarrow> topo_inv jobs st \<Longrightarrow> set ns \<subseteq> fst ` set jobs \<Longrightarrow>
     nothing_visiting st \<Longrightarrow> real_error jobs e"
proof (induction ns arbitrary: st)
  case Nil
  then show ?case by simp
next
  case (Cons n ns)
  then have known: "mget jobs n \<noteq> None" by (simp add: map_of_eq_None_iff)
  from Cons.prems(1) consider "visit jobs n st = Inl e"
    | u where "visit jobs n st = Inr u" "visit_all jobs ns u = Inl e"
    by (auto simp: bind_res_eq_Inl)
  then show ?case
  proof cases
    case 1
    from visit_Inl(1)[OF this Cons.prems(2) known] Cons.prems(4) show ?thesis
      by (simp add: nothing_visiting_def)
  next
    case 2
    have "topo_inv jobs u" "nothing_visiting u"
      using visit_Inr(1)[OF 2(1) Cons.prems(2)] Cons.prems(4) by (auto simp: finishes_def nothing_visiting_def)
    with Cons.IH[OF 2(2)] Cons.prems(3) show ?thesis by simp
  qed
qed

lemma topo_inv_init: "topo_inv jobs topo_init" "nothing_visiting topo_init"
  by (simp_all add: topo_inv_def topo_init_def needs_first_def nothing_visiting_def)

lemma TopoSortJobs_Inr:
  assumes "TopoSortJobs jobs = Inr ord"
  shows "distinct ord" "set ord = fst ` set jobs" "needs_first jobs ord"
proof -
  from assms obtain st where st: "visit_all jobs (sort (map fst jobs)) topo_init = Inr st" "ord = order st"
    by (auto simp: TopoSortJobs_def)
  from visit_all_Inr[OF st(1) topo_inv_init(1)]
  show "distinct ord" "set ord = fst ` set jobs" "needs_first jobs ord"
    by (auto simp: topo_inv_def st(2))
qed

lemma TopoSortJobs_Inl: "TopoSortJobs jobs = Inl e \<Longrightarrow> real_error jobs e"
  unfolding TopoSortJobs_def bind_res_eq_Inl
  using visit_all_Inl[OF _ topo_inv_init(1) _ topo_inv_init(2)] by auto

lemma needs_first_trancl:
  assumes "needs_first jobs ord" "(a, b) \<in> (needs_rel jobs)\<^sup>+" "i < length ord" "ord ! i = a"
  shows "\<exists>j < i. ord ! j = b"
  using assms(2-4)
proof (induction arbitrary: i rule: trancl_induct)
  case (base y)
  then have "y \<in> set (take i ord)" using assms(1) by (auto simp: needs_first_def needs_rel_def)
  then show ?case by (auto simp: in_set_conv_nth)
next
  case (step y z)
  then obtain j where j: "j < i" "ord ! j = y" by blast
  with step have "z \<in> set (take j ord)" using assms(1) by (auto simp: needs_first_def needs_rel_def)
  then show ?case using j by (auto simp: in_set_conv_nth intro: exI order_less_trans)
qed

lemma needs_first_acyclic:
  assumes "needs_first jobs ord" "distinct ord" "set ord = fst ` set jobs"
  shows "acyclic (needs_rel jobs)"
proof (rule acyclicI, rule allI, rule notI)
  fix n assume c: "(n, n) \<in> (needs_rel jobs)\<^sup>+"
  then obtain b where "b \<in> set (needs_of jobs n)" by (auto dest: tranclD simp: needs_rel_def)
  then have "mget jobs n \<noteq> None" by (cases "mget jobs n") (auto simp: needs_of_def)
  then have "n \<in> set ord" by (simp add: assms(3) map_of_eq_None_iff)
  then obtain i where i: "i < length ord" "ord ! i = n" by (auto simp: in_set_conv_nth)
  from needs_first_trancl[OF assms(1) c i] obtain j where "j < i" "ord ! j = n" by blast
  with i assms(2) show False by (metis nth_eq_iff_index_eq less_trans less_irrefl)
qed

lemma visit_cong:
  "mget jobs = mget jobs' \<Longrightarrow> visit jobs name st = visit jobs' name st"
  "mget jobs = mget jobs' \<Longrightarrow> visit_deps jobs name deps st = visit_deps jobs' name deps st"
proof (induction jobs name st and jobs name deps st rule: visit_visit_deps.induct)
  case (1 jobs name st)
  then show ?case
    by (simp add: visit.simps[of jobs name st] visit.simps[of jobs' name st]
        split: colour.split option.split)
next
  case (3 jobs name dep deps st)
  then show ?case by (auto intro!: bind_res_cong)
qed simp

lemma visit_all_cong: "mget jobs = mget jobs' \<Longrightarrow> visit_all jobs ns st = visit_all jobs' ns st"
  by (induction ns arbitrary: st) (auto simp: visit_cong[of jobs jobs'] intro!: bind_res_cong)

text \<open>C20: a successful sort lists every job of the workflow exactly once, each after all the
  jobs it needs.\<close>

theorem topo_sort_order:
  assumes "TopoSortJobs jobs = Inr ord"
  shows "distinct ord \<and> set ord = fst ` set jobs \<and>
    (\<forall>i < length ord. \<forall>job d. mget jobs (ord ! i) = Some job \<and> d \<in> set (job_needs job) \<longrightarrow>
       d \<in> set (take i ord))"
  using TopoSortJobs_Inr[OF assms] by (auto simp: needs_first_def needs_of_def)

definition sample_job :: "string list \<Rightarrow> Job" where
  "sample_job needs = \<lparr>job_name = [], job_runs_on = ''ubuntu-latest'', job_env = [], job_steps = [],
     job_needs = needs, job_strategy = None, job_outputs = [], job_timeout_minutes = F64 False 0 0,
     job_defaults = None, job_raw_container = ZeroNode, job_services = [],
     job_raw_environment = ZeroNode, job_raw_permissions = ZeroNode, job_raw_concurrency = ZeroNode\<rparr>"

theorem topo_sort_order_witness:
  "set [''build'', ''lint'', ''deploy''] =
     fst ` set [(''deploy'', sample_job [''lint'', ''build'']), (''lint'', sample_job [''build'']),
                (''build'', sample_job [])] \<and>
   TopoSortJobs [(''deploy'', sample_job [''lint'', ''build'']), (''lint'', sample_job [''build'']),
      (''build'', sample_job [])] = Inr [''build'', ''lint'', ''deploy'']"
proof -
  have r: "TopoSortJobs [(''deploy'', sample_job [''lint'', ''build'']), (''lint'', sample_job [''build'']),
      (''build'', sample_job [])] = Inr [''build'', ''lint'', ''deploy'']"
    by code_simp
  with topo_sort_order[OF r] show ?thesis by blast
qed

text \<open>C21: sorting fails exactly when some job needs a job that is not in the workflow or the
  needs are circular.\<close>

theorem topo_sort_succeeds_iff:
  "(\<exists>ord. TopoSortJobs jobs = Inr ord) \<longleftrightarrow>
     acyclic {(a, b). \<exists>job. mget jobs a = Some job \<and> b \<in> set (job_needs job)} \<and>
     {b. \<exists>a job. mget jobs a = Some job \<and> b \<in> set (job_needs job)} \<subseteq> fst ` set jobs"
proof -
  have rel: "{(a, b). \<exists>job. mget jobs a = Some job \<and> b \<in> set (job_needs job)} = needs_rel jobs"
  proof -
    have "(\<exists>job. mget jobs a = Some job \<and> b \<in> set (job_needs job)) \<longleftrightarrow> b \<in> set (needs_of jobs a)" for a b
      by (cases "mget jobs a") (simp_all add: needs_of_def)
    then show ?thesis by (simp add: needs_rel_def)
  qed
  have rng: "{b. \<exists>a job. mget jobs a = Some job \<and> b \<in> set (job_needs job)} = Range (needs_rel jobs)"
    unfolding rel[symmetric] by auto
  show ?thesis unfolding rel rng
  proof
    assume "\<exists>ord. TopoSortJobs jobs = Inr ord"
    then obtain ord where "TopoSortJobs jobs = Inr ord" by blast
    note o = TopoSortJobs_Inr[OF this]
    have "b \<in> set ord" if e: "(a, b) \<in> needs_rel jobs" for a b
    proof -
      from e have "a \<in> set ord" by (cases "mget jobs a") (auto simp: needs_rel_def needs_of_def o mget_key)
      then obtain i where "i < length ord" "ord ! i = a" by (auto simp: in_set_conv_nth)
      with o(3) e show ?thesis by (auto simp: needs_first_def needs_rel_def dest: in_set_takeD)
    qed
    then show "acyclic (needs_rel jobs) \<and> Range (needs_rel jobs) \<subseteq> fst ` set jobs"
      using needs_first_acyclic[OF o(3,1,2)] o(2) by auto
  next
    assume a: "acyclic (needs_rel jobs) \<and> Range (needs_rel jobs) \<subseteq> fst ` set jobs"
    show "\<exists>ord. TopoSortJobs jobs = Inr ord"
    proof (cases "TopoSortJobs jobs")
      case (Inl e)
      from TopoSortJobs_Inl[OF this] a show ?thesis
        by (auto simp: real_error_def acyclic_def needs_rel_def map_of_eq_None_iff Range_iff split: topo_error.splits)
    qed blast
  qed
qed

text \<open>The order does not depend on the order in which the \<open>jobs\<close> map is iterated.\<close>

theorem topo_sort_iteration_order:
  assumes "map_wf jobs" "mset jobs = mset jobs'"
  shows "TopoSortJobs jobs = TopoSortJobs jobs'"
  unfolding TopoSortJobs_def sort_keys_mset[OF assms(2)]
  by (simp add: visit_all_cong[OF mget_mset[OF assms(2,1)]])

theorem topo_sort_iteration_order_witness:
  "TopoSortJobs [(''a'', sample_job [''b'']), (''b'', sample_job [])] = Inr [''b'', ''a''] \<and>
   TopoSortJobs [(''b'', sample_job []), (''a'', sample_job [''b''])] = Inr [''b'', ''a'']"
proof -
  have 1: "TopoSortJobs [(''a'', sample_job [''b'']), (''b'', sample_job [])] = Inr [''b'', ''a'']"
    by code_simp
  have "TopoSortJobs [(''a'', sample_job [''b'']), (''b'', sample_job [])] =
    TopoSortJobs [(''b'', sample_job []), (''a'', sample_job [''b''])]"
    by (rule topo_sort_iteration_order) (simp_all add: map_wf_def)
  with 1 show ?thesis by simp
qed

end
