(* ===== verification/Workflow_Run.thy ===== *)
theory Workflow_Run
  imports Combinations Topo
begin

text \<open>
  \<open>RunWorkflow\<close> (\<open>internal/engine/workflow_run.go\<close>): the jobs in dependency order, each skipped unless
  everything it needs succeeded, its matrix expanded and its combinations run by the goroutines of
  \<open>Combinations\<close>. What the scheduler of the Go runtime decides is a parameter, the \<open>schedule\<close>.
\<close>

datatype run_error =
  EmptyWorkspaceDir
| OrderRejected topo_error
| MatrixRejected string matrix_error
| ConcurrencyRejected string decode_error
| JobRunFailed exec_error

record WorkflowResult =
  wr_jobs :: "JobResult smap"
  wr_order :: "string list"

text \<open>Per job: which goroutine goes next, and whose wait for a group is cut short by its timeout.\<close>

record schedule =
  sc_pick :: "string \<Rightarrow> nat \<Rightarrow> nat"
  sc_expires :: "string \<Rightarrow> nat \<Rightarrow> bool"

type_synonym 'w selector = "string \<Rightarrow> string + 'w backend"

subsection \<open>One job\<close>

definition fail_fast :: "Job \<Rightarrow> bool" where
  "fail_fast job = (case job_strategy job of None \<Rightarrow> True
     | Some st \<Rightarrow> (case st_fail_fast st of None \<Rightarrow> True | Some b \<Rightarrow> b))"

definition max_parallel :: "Job \<Rightarrow> nat \<Rightarrow> nat" where
  "max_parallel job n =
     (let m = (case job_strategy job of None \<Rightarrow> 4
            | Some st \<Rightarrow> if 0 < st_max_parallel st then st_max_parallel st else 4);
          m' = (if int n < m then int n else m)
      in nat (if m' < 1 then 1 else m'))"

definition combo_error :: "string \<Rightarrow> combination \<Rightarrow> exec_error \<Rightarrow> exec_error" where
  "combo_error name combo = Wrapped (''job '' @ name @ MatrixSuffix combo)"

text \<open>The group of a combination; no \<open>concurrency:\<close> is the empty group, which is never waited for.\<close>

definition combo_group :: "'w host \<Rightarrow> Workflow \<Rightarrow> Job \<Rightarrow> JobRunOptions \<Rightarrow> string \<Rightarrow> ConcurrencySpec option \<Rightarrow>
    combination \<Rightarrow> 'w \<Rightarrow> exec_error + string" where
  "combo_group h wfl job opts name jobConcurrency combo w = (case jobConcurrency of
     None \<Rightarrow> Inr []
   | Some c \<Rightarrow>
      (let comboCtx = (NewContext wfl job)\<lparr>ctx_matrix := combo, ctx_vars := ro_vars opts\<rparr> in
       case SubstituteExpressions (h_eval h w) (cc_group c) comboCtx of
         Inl e \<Rightarrow> Inl (combo_error name combo (Wrapped ''concurrency group'' (EvalFailed e)))
       | Inr g \<Rightarrow> Inr g))"

text \<open>A context that is done is one whose time is up at once.\<close>

definition combo_exec :: "'w host \<Rightarrow> deadline \<Rightarrow> Workflow \<Rightarrow> Job \<Rightarrow> 'w selector \<Rightarrow> JobRunOptions \<Rightarrow> string \<Rightarrow>
    JobOutcome smap \<Rightarrow> combination \<Rightarrow> bool \<Rightarrow> ('w, JobResult) io" where
  "combo_exec h ctx wfl job selectBackend opts name outcomes combo is_done =
     (let runCtx = with_timeout (job_timeout_minutes job) ctx @ (if is_done then [f64_of_int 0] else []) in
      io_wrap (''job '' @ name @ MatrixSuffix combo)
        (io_bind (io_res Message (selectBackend (job_runs_on job))) (\<lambda>backend.
         RunJob h runCtx wfl job backend
           (opts\<lparr>ro_needs := outcomes, ro_matrix := combo, ro_job_id := name\<rparr>))))"

definition job_combos :: "'w host \<Rightarrow> schedule \<Rightarrow> deadline \<Rightarrow> Workflow \<Rightarrow> Job \<Rightarrow> 'w selector \<Rightarrow> JobRunOptions \<Rightarrow> string \<Rightarrow>
    JobOutcome smap \<Rightarrow> combination list \<Rightarrow> ConcurrencySpec option \<Rightarrow> 'w combos" where
  "job_combos h sch ctx wfl job selectBackend opts name outcomes combos jobConcurrency =
     \<lparr>cb_n = length combos, cb_cap = max_parallel job (length combos), cb_fail_fast = fail_fast job,
      cb_cip = (case jobConcurrency of None \<Rightarrow> False | Some c \<Rightarrow> cc_cancel_in_progress c),
      cb_group = (\<lambda>i. combo_group h wfl job opts name jobConcurrency (combos ! i)),
      cb_exec = (\<lambda>i. combo_exec h ctx wfl job selectBackend opts name outcomes (combos ! i)),
      cb_expires = sc_expires sch name\<rparr>"

definition run_one_job :: "'w host \<Rightarrow> schedule \<Rightarrow> deadline \<Rightarrow> Workflow \<Rightarrow> Job \<Rightarrow> 'w selector \<Rightarrow> JobRunOptions \<Rightarrow> string \<Rightarrow>
    JobOutcome smap \<Rightarrow> 'w \<Rightarrow> (run_error + JobResult) \<times> 'w" where
  "run_one_job h sch ctx wfl job selectBackend opts name outcomes w = (case ExpandMatrix (job_strategy job) of
     Inl e \<Rightarrow> (Inl (MatrixRejected name e), w)
   | Inr combos \<Rightarrow> (case job_Concurrency job of
       Inl e \<Rightarrow> (Inl (ConcurrencyRejected name e), w)
     | Inr jobConcurrency \<Rightarrow>
         (let s = run_combos (job_combos h sch ctx wfl job selectBackend opts name outcomes combos jobConcurrency)
                (sc_pick sch name) w
          in (map_sum JobRunFailed (\<lambda>jr. jr) (job_result name combos s), ph_world s))))"

subsection \<open>All jobs\<close>

definition skipped_job :: JobResult where
  "skipped_job = \<lparr>jr_conclusion = ''skipped'', jr_steps = [], jr_outputs = []\<rparr>"

text \<open>\<open>outcomes[dep].Result != "success"\<close>, where a missing entry reads as the zero value.\<close>

definition need_missing :: "JobOutcome smap \<Rightarrow> string \<Rightarrow> bool" where
  "need_missing outcomes dep \<longleftrightarrow> (case mget outcomes dep of None \<Rightarrow> True | Some out \<Rightarrow> jo_result out \<noteq> ''success'')"

definition outcome_of :: "JobResult \<Rightarrow> JobOutcome" where
  "outcome_of jr = \<lparr>jo_result = jr_conclusion jr, jo_outputs = jr_outputs jr\<rparr>"

definition wf_job :: "Workflow \<Rightarrow> string \<Rightarrow> Job" where
  "wf_job wfl name = (case mget (wf_jobs wfl) name of Some job \<Rightarrow> job | None \<Rightarrow> empty_job)"

fun run_jobs :: "'w host \<Rightarrow> schedule \<Rightarrow> deadline \<Rightarrow> Workflow \<Rightarrow> 'w selector \<Rightarrow> JobRunOptions \<Rightarrow> string list \<Rightarrow>
    JobOutcome smap \<Rightarrow> JobResult smap \<Rightarrow> 'w \<Rightarrow> (run_error + JobResult smap) \<times> 'w" where
  "run_jobs h sch ctx wfl selectBackend opts [] outcomes jobs w = (Inr jobs, w)"
| "run_jobs h sch ctx wfl selectBackend opts (name # names) outcomes jobs w =
     (if list_ex (need_missing outcomes) (job_needs (wf_job wfl name))
      then run_jobs h sch ctx wfl selectBackend opts names (mput name (outcome_of skipped_job) outcomes)
             (mput name skipped_job jobs) w
      else case run_one_job h sch ctx wfl (wf_job wfl name) selectBackend opts name outcomes w of
        (Inl e, w1) \<Rightarrow> (Inl e, w1)
      | (Inr jr, w1) \<Rightarrow> run_jobs h sch ctx wfl selectBackend opts names (mput name (outcome_of jr) outcomes)
             (mput name jr jobs) w1)"

text \<open>\<open>opts\<close> holds what every job's \<open>JobRunOptions\<close> takes from the parameters of \<open>RunWorkflow\<close>.\<close>

definition RunWorkflow :: "'w host \<Rightarrow> schedule \<Rightarrow> deadline \<Rightarrow> Workflow \<Rightarrow> 'w selector \<Rightarrow> JobRunOptions \<Rightarrow>
    'w \<Rightarrow> (run_error + WorkflowResult) \<times> 'w" where
  "RunWorkflow h sch ctx wfl selectBackend opts w =
     (if ro_workspace_dir opts = [] then (Inl EmptyWorkspaceDir, w)
      else case TopoSortJobs (wf_jobs wfl) of
        Inl e \<Rightarrow> (Inl (OrderRejected e), w)
      | Inr names \<Rightarrow> (case run_jobs h sch ctx wfl selectBackend opts names [] [] w of
          (r, w1) \<Rightarrow> (map_sum (\<lambda>e. e) (\<lambda>jobs. \<lparr>wr_jobs = jobs, wr_order = names\<rparr>) r, w1)))"

subsection \<open>Which jobs run\<close>

lemma max_parallel_pos: "0 < max_parallel job n"
  by (simp add: max_parallel_def Let_def)

lemma job_result_conclusion: "job_result name combos s = Inr jr \<Longrightarrow> jr_conclusion jr \<in> {''success'', ''failure''}"
  by (auto simp: job_result_def split: option.splits)

lemma run_one_job_conclusion:
  "run_one_job h sch ctx wfl job sel opts name outcomes w = (Inr jr, w1) \<Longrightarrow> jr_conclusion jr \<in> {''success'', ''failure''}"
  unfolding run_one_job_def Let_def
  by (auto split: sum.splits simp: map_sum_def dest: job_result_conclusion)

text \<open>The jobs done so far: their results are what later jobs see, and each was skipped because of a need.\<close>

definition jobs_ok :: "Workflow \<Rightarrow> JobOutcome smap \<Rightarrow> JobResult smap \<Rightarrow> string set \<Rightarrow> bool" where
  "jobs_ok wfl outcomes jobs names \<longleftrightarrow> (\<forall>n \<in> names. set (job_needs (wf_job wfl n)) \<subseteq> names \<and>
     (\<exists>jr. mget jobs n = Some jr \<and> mget outcomes n = Some (outcome_of jr) \<and>
        jr_conclusion jr \<in> {''success'', ''failure'', ''skipped''} \<and>
        (jr_conclusion jr = ''skipped'' \<longleftrightarrow> list_ex (need_missing outcomes) (job_needs (wf_job wfl n)))))"

lemma need_missing_mput: "d \<noteq> name \<Longrightarrow> need_missing (mput name out outcomes) d = need_missing outcomes d"
  by (simp add: need_missing_def)

lemma jobs_ok_add:
  assumes ok: "jobs_ok wfl outcomes jobs done" and new: "name \<notin> done" "set (job_needs (wf_job wfl name)) \<subseteq> done"
    and jr: "jr_conclusion jr \<in> {''success'', ''failure'', ''skipped''}"
    "jr_conclusion jr = ''skipped'' \<longleftrightarrow> list_ex (need_missing outcomes) (job_needs (wf_job wfl name))"
  shows "jobs_ok wfl (mput name (outcome_of jr) outcomes) (mput name jr jobs) (insert name done)"
proof -
  have same: "list_ex (need_missing (mput name (outcome_of jr) outcomes)) ds = list_ex (need_missing outcomes) ds"
    if "set ds \<subseteq> done" for ds
  proof -
    have "need_missing (mput name (outcome_of jr) outcomes) d = need_missing outcomes d" if "d \<in> set ds" for d
      using that \<open>set ds \<subseteq> done\<close> new(1) by (intro need_missing_mput) auto
    then show ?thesis by (simp add: list_ex_iff)
  qed
  show ?thesis
    unfolding jobs_ok_def
  proof
    fix n assume n: "n \<in> insert name done"
    show "set (job_needs (wf_job wfl n)) \<subseteq> insert name done \<and>
      (\<exists>r. mget (mput name jr jobs) n = Some r \<and> mget (mput name (outcome_of jr) outcomes) n = Some (outcome_of r) \<and>
        jr_conclusion r \<in> {''success'', ''failure'', ''skipped''} \<and>
        (jr_conclusion r = ''skipped'') = list_ex (need_missing (mput name (outcome_of jr) outcomes)) (job_needs (wf_job wfl n)))"
    proof (cases "n = name")
      case True
      with new jr same[OF new(2)] show ?thesis by auto
    next
      case False
      with n ok obtain r where "set (job_needs (wf_job wfl n)) \<subseteq> done" "mget jobs n = Some r"
        "mget outcomes n = Some (outcome_of r)" "jr_conclusion r \<in> {''success'', ''failure'', ''skipped''}"
        "(jr_conclusion r = ''skipped'') = list_ex (need_missing outcomes) (job_needs (wf_job wfl n))"
        unfolding jobs_ok_def by auto
      with False same show ?thesis by auto
    qed
  qed
qed

lemma run_jobs_ok:
  assumes "run_jobs h sch ctx wfl sel opts names outcomes jobs w = (Inr res, w')"
    and "jobs_ok wfl outcomes jobs done" "distinct names" "set names \<inter> done = {}"
    and "\<forall>i<length names. set (job_needs (wf_job wfl (names ! i))) \<subseteq> done \<union> set (take i names)"
  shows "\<exists>outcomes'. jobs_ok wfl outcomes' res (done \<union> set names)"
  using assms
proof (induction names arbitrary: outcomes jobs w "done")
  case Nil
  then show ?case by auto
next
  case (Cons name names)
  have new: "name \<notin> done" "set (job_needs (wf_job wfl name)) \<subseteq> done" 
    using Cons.prems(4) Cons.prems(5)[rule_format, of 0] by auto
  have rest: "distinct names" "set names \<inter> insert name done = {}"
    "\<forall>i<length names. set (job_needs (wf_job wfl (names ! i))) \<subseteq> insert name done \<union> set (take i names)"
    using Cons.prems(3,4) new(1) Cons.prems(5)[rule_format, of "Suc _"] by auto
  show ?case
  proof (cases "list_ex (need_missing outcomes) (job_needs (wf_job wfl name))")
    case True
    have ok: "jobs_ok wfl (mput name (outcome_of skipped_job) outcomes) (mput name skipped_job jobs) (insert name done)"
      by (rule jobs_ok_add[OF Cons.prems(2) new]) (simp_all add: skipped_job_def True)
    from Cons.IH[OF _ ok rest] Cons.prems(1) True show ?thesis by simp
  next
    case False
    with Cons.prems(1) obtain jr w1 where jr: "run_one_job h sch ctx wfl (wf_job wfl name) sel opts name outcomes w = (Inr jr, w1)"
      and run: "run_jobs h sch ctx wfl sel opts names (mput name (outcome_of jr) outcomes) (mput name jr jobs) w1 = (Inr res, w')"
      by (auto split: prod.splits sum.splits)
    have ok: "jobs_ok wfl (mput name (outcome_of jr) outcomes) (mput name jr jobs) (insert name done)"
      by (rule jobs_ok_add[OF Cons.prems(2) new]) (use run_one_job_conclusion[OF jr] False in auto)
    from Cons.IH[OF run ok rest] show ?thesis by simp
  qed
qed

lemma RunWorkflow_Inr:
  assumes "RunWorkflow h sch ctx wfl sel opts w = (Inr res, w')"
  shows "TopoSortJobs (wf_jobs wfl) = Inr (wr_order res)"
    "\<exists>outcomes. jobs_ok wfl outcomes (wr_jobs res) (set (wr_order res))"
proof -
  from assms obtain names jobs where names: "TopoSortJobs (wf_jobs wfl) = Inr names"
    and run: "run_jobs h sch ctx wfl sel opts names [] [] w = (Inr jobs, w')" and res: "res = \<lparr>wr_jobs = jobs, wr_order = names\<rparr>"
    by (auto simp: RunWorkflow_def map_sum_def split: if_splits sum.splits prod.splits)
  note topo = TopoSortJobs_Inr[OF names]
  have needs: "set (job_needs (wf_job wfl n)) = set (needs_of (wf_jobs wfl) n)" for n
    by (simp add: wf_job_def needs_of_def empty_job_def split: option.split)
  have "\<forall>i<length names. set (job_needs (wf_job wfl (names ! i))) \<subseteq> {} \<union> set (take i names)"
    using topo(3) unfolding needs needs_first_def by auto
  from run_jobs_ok[OF run _ topo(1) _ this] show "\<exists>outcomes. jobs_ok wfl outcomes (wr_jobs res) (set (wr_order res))"
    by (auto simp: jobs_ok_def res)
  show "TopoSortJobs (wf_jobs wfl) = Inr (wr_order res)" by (simp add: res names)
qed

lemma RunWorkflow_job:
  assumes run: "RunWorkflow h sch ctx wfl sel opts w = (Inr res, w')" and job: "mget (wf_jobs wfl) name = Some job"
  shows "\<exists>jr. mget (wr_jobs res) name = Some jr \<and> jr_conclusion jr \<in> {''success'', ''failure'', ''skipped''} \<and>
    (jr_conclusion jr = ''skipped'' \<longleftrightarrow>
       (\<exists>d \<in> set (job_needs job). \<exists>r. mget (wr_jobs res) d = Some r \<and> jr_conclusion r \<noteq> ''success''))"
proof -
  let ?names = "wr_order res" and ?jobs = "wr_jobs res"
  from RunWorkflow_Inr[OF run] obtain outcomes where ok: "jobs_ok wfl outcomes ?jobs (set ?names)" by blast
  have "name \<in> set ?names" using job TopoSortJobs_Inr(2)[OF RunWorkflow_Inr(1)[OF run]] mget_key by metis
  with ok obtain jr where jr: "set (job_needs (wf_job wfl name)) \<subseteq> set ?names" "mget ?jobs name = Some jr"
    "jr_conclusion jr \<in> {''success'', ''failure'', ''skipped''}"
    "jr_conclusion jr = ''skipped'' \<longleftrightarrow> list_ex (need_missing outcomes) (job_needs (wf_job wfl name))"
    unfolding jobs_ok_def by blast
  have "need_missing outcomes d \<longleftrightarrow> (\<exists>r. mget ?jobs d = Some r \<and> jr_conclusion r \<noteq> ''success'')" if "d \<in> set ?names" for d
    using ok that unfolding jobs_ok_def need_missing_def outcome_of_def by force
  then have "list_ex (need_missing outcomes) (job_needs job) \<longleftrightarrow>
      (\<exists>d \<in> set (job_needs job). \<exists>r. mget ?jobs d = Some r \<and> jr_conclusion r \<noteq> ''success'')"
    using jr(1) job unfolding list_ex_iff wf_job_def by fastforce
  with jr job show ?thesis by (simp add: wf_job_def)
qed

text \<open>When no job failed, none was skipped either: a skipped job's needs go back to a failed one.\<close>

lemma RunWorkflow_no_failure:
  assumes run: "RunWorkflow h sch ctx wfl sel opts w = (Inr res, w')"
    and none: "\<And>n jr. n \<in> set (wr_order res) \<Longrightarrow> mget (wr_jobs res) n = Some jr \<Longrightarrow> jr_conclusion jr \<noteq> ''failure''"
    and i: "i < length (wr_order res)"
  shows "\<exists>jr. mget (wr_jobs res) (wr_order res ! i) = Some jr \<and> jr_conclusion jr = ''success''"
  using i
proof (induction i rule: less_induct)
  case (less i)
  note topo = TopoSortJobs_Inr[OF RunWorkflow_Inr(1)[OF run]]
  let ?n = "wr_order res ! i"
  have n: "?n \<in> set (wr_order res)" using less.prems by simp
  then obtain job where job: "mget (wf_jobs wfl) ?n = Some job"
    using topo(2) by (metis map_of_eq_None_iff not_None_eq)
  from RunWorkflow_job[OF run job] obtain jr where jr: "mget (wr_jobs res) ?n = Some jr"
    "jr_conclusion jr \<in> {''success'', ''failure'', ''skipped''}"
    "jr_conclusion jr = ''skipped'' \<longleftrightarrow>
       (\<exists>d \<in> set (job_needs job). \<exists>r. mget (wr_jobs res) d = Some r \<and> jr_conclusion r \<noteq> ''success'')" by blast
  have "jr_conclusion jr \<noteq> ''skipped''"
  proof
    assume "jr_conclusion jr = ''skipped''"
    with jr(3) obtain d r where d: "d \<in> set (job_needs job)" "mget (wr_jobs res) d = Some r" "jr_conclusion r \<noteq> ''success''" by blast
    have "d \<in> set (take i (wr_order res))" using topo(3) less.prems d(1) job by (simp add: needs_first_def needs_of_def)
    then obtain j where j: "j < i" "wr_order res ! j = d" by (auto simp: in_set_conv_nth)
    have "j < length (wr_order res)" using j(1) less.prems by simp
    from less.IH[OF j(1) this] d(2,3) j(2) show False by simp
  qed
  with jr none[OF n jr(1)] show ?case by auto
qed

text \<open>C1: Which jobs of a workflow run, whatever they do and however their combinations interleave: every job has
  a result, success, failure or skipped, and it is skipped exactly when some job it needs did not succeed.\<close>

theorem job_skipped_iff_need_failed:
  assumes "RunWorkflow h sch ctx wfl sel opts w = (Inr res, w')" "mget (wf_jobs wfl) name = Some job"
  shows "\<exists>jr. mget (wr_jobs res) name = Some jr \<and> jr_conclusion jr \<in> {''success'', ''failure'', ''skipped''} \<and>
    (jr_conclusion jr = ''skipped'' \<longleftrightarrow>
       (\<exists>d \<in> set (job_needs job). \<exists>r. mget (wr_jobs res) d = Some r \<and> jr_conclusion r \<noteq> ''success''))"
  by (rule RunWorkflow_job[OF assms])

text \<open>C6: No job hangs on its own scheduling: under every schedule each combination of a job runs to its end, and at
  no time are more of them running than \<open>max-parallel\<close> (4 by default) and the number of combinations allow.\<close>

theorem job_combinations_finish:
  "let e = job_combos h sch ctx wfl job sel opts name outcomes combos conc in
   list_all (\<lambda>i. ph_at (run_combos e pick w) i = Finished) [0..<length combos] \<and>
   card {i. i < length combos \<and> in_slot (ph_at (drive e pick k (phase_init w)) i)} \<le> max_parallel job (length combos)"
proof -
  let ?e = "job_combos h sch ctx wfl job sel opts name outcomes combos conc"
  have "0 < cb_cap ?e" "cb_n ?e = length combos" "cb_cap ?e = max_parallel job (length combos)"
    by (simp_all add: job_combos_def max_parallel_pos)
  with run_combos_finishes[of ?e _ pick w] combos_bounded[OF drive_reachable[of ?e pick k w]] show ?thesis
    by (simp add: Let_def list_all_iff)
qed

text \<open>A workflow of two jobs whose first fails, on an environment where every command exits with code 1.\<close>

definition failing_backend :: "int backend" where
  "failing_backend = (\<lambda>_ _ _ _ _. io_ret (sample_runner\<lparr>rj_Exec :=
     (\<lambda>_ _. io_ret \<lparr>sr_exit_code = 1, sr_stdout = [], sr_stderr = ''no''\<rparr>)\<rparr>))"

definition build_then_deploy :: Workflow where
  "build_then_deploy = empty_workflow\<lparr>wf_jobs :=
     [(''deploy'', (sample_job [''build''])\<lparr>job_steps := [sample_step [] ''make deploy'' []]\<rparr>),
      (''build'', (sample_job [])\<lparr>job_steps := [sample_step [] ''make'' []]\<rparr>)]\<rparr>"

definition sample_options :: JobRunOptions where
  "sample_options = \<lparr>ro_needs = [], ro_matrix = [], ro_vars = [], ro_workspace_dir = ''/w'', ro_local_overrides = [],
     ro_extra_env = [], ro_job_id = [], ro_event_name = ''push'', ro_event_json_dir = []\<rparr>"

definition any_schedule :: schedule where
  "any_schedule = \<lparr>sc_pick = (\<lambda>_ k. k), sc_expires = (\<lambda>_ _. False)\<rparr>"

lemma build_then_deploy_run:
  "fst (RunWorkflow sample_host any_schedule [] build_then_deploy (\<lambda>_. Inr failing_backend) sample_options 0) =
    Inr \<lparr>wr_jobs = [(''build'', \<lparr>jr_conclusion = ''failure'', jr_steps = [\<lparr>rep_id = ''s'', rep_name = ''a step'',
        rep_conclusion = ''failure'', rep_exit_code = 1, rep_stdout = [], rep_stderr = ''no''\<rparr>], jr_outputs = []\<rparr>),
      (''deploy'', skipped_job)], wr_order = [''build'', ''deploy'']\<rparr>"
  by code_simp

theorem job_skipped_iff_need_failed_witness:
  "\<exists>res w'. RunWorkflow sample_host any_schedule [] build_then_deploy (\<lambda>_. Inr failing_backend) sample_options 0 = (Inr res, w') \<and>
    (\<exists>jr. mget (wr_jobs res) ''deploy'' = Some jr \<and> jr_conclusion jr = ''skipped'')"
proof -
  let ?r = "RunWorkflow sample_host any_schedule [] build_then_deploy (\<lambda>_. Inr failing_backend) sample_options 0"
  obtain res where res: "fst ?r = Inr res" "mget (wr_jobs res) ''build'' \<noteq> None"
    "jr_conclusion (the (mget (wr_jobs res) ''build'')) = ''failure''"
    unfolding build_then_deploy_run by simp
  have run: "?r = (Inr res, snd ?r)" using res(1) by (metis prod.collapse)
  have job: "mget (wf_jobs build_then_deploy) ''deploy'' = Some ((sample_job [''build''])\<lparr>job_steps := [sample_step [] ''make deploy'' []]\<rparr>)"
    by (simp add: build_then_deploy_def empty_workflow_def)
  from job_skipped_iff_need_failed[OF run job] res(2,3)
  have "\<exists>jr. mget (wr_jobs res) ''deploy'' = Some jr \<and> jr_conclusion jr = ''skipped''"
    by (force simp: sample_job_def)
  with run show ?thesis by blast
qed

subsection \<open>Schedules do not show\<close>

text \<open>What a combination of a job answers when no other one runs, from the world \<open>w\<close>.\<close>

definition combo_alone :: "'w host \<Rightarrow> deadline \<Rightarrow> Workflow \<Rightarrow> Job \<Rightarrow> 'w selector \<Rightarrow> JobRunOptions \<Rightarrow> string \<Rightarrow>
    JobOutcome smap \<Rightarrow> ConcurrencySpec option \<Rightarrow> 'w \<Rightarrow> combination \<Rightarrow> exec_error + JobResult" where
  "combo_alone h ctx wfl job sel opts name outcomes conc w combo = (case combo_group h wfl job opts name conc combo w of
     Inl err \<Rightarrow> Inl err
   | Inr _ \<Rightarrow> fst (combo_exec h ctx wfl job sel opts name outcomes combo False w))"

lemma run_one_job_report:
  assumes ex: "ExpandMatrix (job_strategy job) = Inr combos" and conc: "job_Concurrency job = Inr conc"
    and calm: "\<not> fail_fast job" "conc = None \<or> \<not> cc_cancel_in_progress (the conc)" "\<forall>i<length combos. \<not> sc_expires sch name i"
    and sees: "\<forall>i<length combos. \<forall>v v'. view i v = view i v' \<longrightarrow>
        combo_group h wfl job opts name conc (combos ! i) v = combo_group h wfl job opts name conc (combos ! i) v' \<and>
        fst (combo_exec h ctx wfl job sel opts name outcomes (combos ! i) False v) =
        fst (combo_exec h ctx wfl job sel opts name outcomes (combos ! i) False v')"
    and keeps: "\<forall>i<length combos. \<forall>j<length combos. i \<noteq> j \<longrightarrow> (\<forall>v.
        view j (snd (combo_exec h ctx wfl job sel opts name outcomes (combos ! i) False v)) = view j v)"
  shows "map_sum (\<lambda>_. ()) (\<lambda>jr. (jr_conclusion jr, jr_steps jr)) (fst (run_one_job h sch ctx wfl job sel opts name outcomes w)) =
    report_of (map (combo_alone h ctx wfl job sel opts name outcomes conc w) combos)"
proof -
  let ?e = "job_combos h sch ctx wfl job sel opts name outcomes combos conc"
  have e: "cb_n ?e = length combos" "0 < cb_cap ?e" by (simp_all add: job_combos_def max_parallel_pos)
  have cb: "cb_group ?e i = combo_group h wfl job opts name conc (combos ! i)"
    "cb_exec ?e i = combo_exec h ctx wfl job sel opts name outcomes (combos ! i)" for i
    by (simp_all add: job_combos_def)
  have sep: "separate ?e view" unfolding separate_def e(1) cb using sees keeps by blast
  have unc: "uncancelled ?e" using calm by (auto simp: uncancelled_def job_combos_def split: option.split)
  have "alone ?e w i = combo_alone h ctx wfl job sel opts name outcomes conc w (combos ! i)" for i
    by (simp add: alone_def combo_alone_def cb split: sum.split)
  then have map: "map (alone ?e w) [0..<length combos] = map (combo_alone h ctx wfl job sel opts name outcomes conc w) combos"
    by (intro nth_equalityI) simp_all
  from separate_result[OF sep unc e(2,1), of name "sc_pick sch name" w] show ?thesis
    unfolding map run_one_job_def ex conc Let_def by (simp add: sum.map_comp comp_def)
qed

text \<open>C8: What a matrix job reports does not depend on how its combinations interleave, when they share no state
  and none is cancelled. Suppose the job is not fail-fast, its concurrency group does not preempt, no wait for the
  group times out, and for some notion of what each combination can see of the world (\<open>view\<close>) its group and
  its result depend on that alone and no other combination's run changes it. Then, under every schedule, the
  conclusion and the step reports are those of the combinations each run alone from the world in which the job
  starts, the reports in combination order; and the job ends in an error exactly when one of them does (which of
  several errors is returned, and whose outputs are kept, may still depend on the schedule).\<close>

theorem reports_schedule_independent:
  assumes "ExpandMatrix (job_strategy job) = Inr combos" "job_Concurrency job = Inr conc"
    and "\<not> fail_fast job" "conc = None \<or> \<not> cc_cancel_in_progress (the conc)" "\<forall>i<length combos. \<not> sc_expires sch name i"
    and "\<forall>i<length combos. \<forall>v v'. view i v = view i v' \<longrightarrow>
        combo_group h wfl job opts name conc (combos ! i) v = combo_group h wfl job opts name conc (combos ! i) v' \<and>
        fst (combo_exec h ctx wfl job sel opts name outcomes (combos ! i) False v) =
        fst (combo_exec h ctx wfl job sel opts name outcomes (combos ! i) False v')"
    and "\<forall>i<length combos. \<forall>j<length combos. i \<noteq> j \<longrightarrow> (\<forall>v.
        view j (snd (combo_exec h ctx wfl job sel opts name outcomes (combos ! i) False v)) = view j v)"
  shows "map_sum (\<lambda>_. ()) (\<lambda>jr. (jr_conclusion jr, jr_steps jr)) (fst (run_one_job h sch ctx wfl job sel opts name outcomes w)) =
    report_of (map (combo_alone h ctx wfl job sel opts name outcomes conc w) combos)"
  by (rule run_one_job_report[OF assms])

text \<open>A matrix job of one concurrency group, on a machine where \<open>take p\<close> fails if \<open>p\<close> is taken already, and takes it.\<close>

definition flags_host :: "(bool \<times> bool) host" where
  "flags_host = \<lparr>h_eval = (\<lambda>_. sample_env), h_stat = (\<lambda>_ _. False), h_read = (\<lambda>_ _. Content []),
     h_create = (\<lambda>_ w. (Inr (), w)), h_mkdir_all = (\<lambda>_ w. (Inr (), w)), h_remove_all = (\<lambda>_ w. (Inr (), w)),
     h_remove = (\<lambda>_ w. w), h_mkdir_temp = (\<lambda>d p w. (Inr (d @ p), w)), h_create_temp = (\<lambda>p w. (Inr p, w)),
     h_run = (\<lambda>_ w. (Exited 0 [] [], w)), h_now = (\<lambda>_. 0), h_sleep = (\<lambda>_ w. w),
     h_cache_dir = Inr ''/cache'', h_goos = ''linux'', h_goarch = ''amd64'',
     h_yaml_action = (\<lambda>_. Inl ''no yaml''), h_json_object = (\<lambda>_. Inr [])\<rparr>"

fun take_flag :: "string \<Rightarrow> bool \<times> bool \<Rightarrow> (exec_error + StepResult) \<times> bool \<times> bool" where
  "take_flag cmd (a, b) =
     (if cmd = ''take a'' then (Inr \<lparr>sr_exit_code = (if a then 1 else 0), sr_stdout = [], sr_stderr = []\<rparr>, True, b)
      else (Inr \<lparr>sr_exit_code = (if b then 1 else 0), sr_stdout = [], sr_stderr = []\<rparr>, a, True))"

definition flags_backend :: "(bool \<times> bool) backend" where
  "flags_backend = (\<lambda>_ _ _ _ _. io_ret \<lparr>rj_FilesRoot = ''/f'', rj_WorkspacePath = ''/w'', rj_Platform = ''linux'',
     rj_CopyToContainer = (\<lambda>_ _ _. io_ret ()), rj_Exec = (\<lambda>_ sp. take_flag (sp_command sp)),
     rj_RunDockerAction = (\<lambda>_ _. io_ret dry_result), rj_Stop = (\<lambda>_. io_ret ())\<rparr>)"

definition flags_job :: Job where
  "flags_job = (sample_job [])\<lparr>job_steps := [sample_step [] ''take ${{ matrix.p }}'' []],
     job_strategy := Some \<lparr>st_matrix = Some [(''p'', VList [VStr ''a'', VStr ''b''])], st_fail_fast = Some False,
       st_max_parallel = 2\<rparr>,
     job_raw_concurrency := ScalarNode (Inr ''deploy'')\<rparr>"

definition flag_step :: "bool \<Rightarrow> JobResult_step" where
  "flag_step taken = \<lparr>rep_id = ''s'', rep_name = ''a step'', rep_conclusion = (if taken then ''failure'' else ''success''),
     rep_exit_code = (if taken then 1 else 0), rep_stdout = [], rep_stderr = []\<rparr>"

definition flag_report :: "bool \<Rightarrow> exec_error + JobResult" where
  "flag_report taken = Inr \<lparr>jr_conclusion = (if taken then ''failure'' else ''success''), jr_steps = [flag_step taken],
     jr_outputs = []\<rparr>"

definition flag_exec :: "string \<Rightarrow> (bool \<times> bool, JobResult) io" where
  "flag_exec p = combo_exec flags_host [] empty_workflow flags_job (\<lambda>_. Inr flags_backend) sample_options ''j'' []
     [(''p'', VStr p)] False"

lemma flag_exec_all:
  "list_all (\<lambda>(a, b). flag_exec ''a'' (a, b) = (flag_report a, (True, b)) \<and> flag_exec ''b'' (a, b) = (flag_report b, (a, True)))
     [(False, False), (False, True), (True, False), (True, True)]"
  by code_simp

lemma flag_exec: "flag_exec ''a'' (a, b) = (flag_report a, (True, b))" "flag_exec ''b'' (a, b) = (flag_report b, (a, True))"
  using flag_exec_all by (cases a; cases b; simp)+

lemma flags_group:
  "combo_group flags_host empty_workflow flags_job sample_options ''j'' (Some \<lparr>cc_group = ''deploy'', cc_cancel_in_progress = False\<rparr>)
     combo v = Inr ''deploy''"
  by (simp add: combo_group_def substitute_plain_text sublist_code)

text \<open>Under every schedule, each of the two reports whether its own flag was taken when the job started.\<close>

theorem reports_schedule_independent_witness:
  "\<forall>pick. map_sum (\<lambda>_. ()) (\<lambda>jr. (jr_conclusion jr, jr_steps jr))
     (fst (run_one_job flags_host \<lparr>sc_pick = pick, sc_expires = \<lambda>_ _. False\<rparr> [] empty_workflow flags_job
        (\<lambda>_. Inr flags_backend) sample_options ''j'' [] (True, False))) = Inr (''failure'', [flag_step True, flag_step False])"
proof (rule allI)
  fix pick
  let ?conc = "Some \<lparr>cc_group = ''deploy'', cc_cancel_in_progress = False\<rparr>"
  let ?view = "\<lambda>i v. if i = (0::nat) then fst v else snd v"
  let ?combos = "[[(''p'', VStr ''a'')], [(''p'', VStr ''b'')]]"
  have start: "ExpandMatrix (job_strategy flags_job) = Inr ?combos" "job_Concurrency flags_job = Inr ?conc" by code_simp+
  have eq: "map_sum (\<lambda>_. ()) (\<lambda>jr. (jr_conclusion jr, jr_steps jr))
      (fst (run_one_job flags_host \<lparr>sc_pick = pick, sc_expires = \<lambda>_ _. False\<rparr> [] empty_workflow flags_job
        (\<lambda>_. Inr flags_backend) sample_options ''j'' [] (True, False))) =
    report_of (map (combo_alone flags_host [] empty_workflow flags_job (\<lambda>_. Inr flags_backend) sample_options ''j'' [] ?conc
      (True, False)) ?combos)"
  proof (rule reports_schedule_independent[where view = ?view, OF start], goal_cases)
    case 4
    show ?case using flag_exec by (auto simp: flags_group flag_exec_def less_Suc_eq split: prod.split)
  next
    case 5
    show ?case using flag_exec by (auto simp: flag_exec_def less_Suc_eq split: prod.split)
  qed (simp_all add: fail_fast_def flags_job_def)
  have "map (combo_alone flags_host [] empty_workflow flags_job (\<lambda>_. Inr flags_backend) sample_options ''j'' [] ?conc
      (True, False)) ?combos = [flag_report True, flag_report False]"
    using flag_exec by (simp add: combo_alone_def flags_group flag_exec_def)
  with eq show "map_sum (\<lambda>_. ()) (\<lambda>jr. (jr_conclusion jr, jr_steps jr))
      (fst (run_one_job flags_host \<lparr>sc_pick = pick, sc_expires = \<lambda>_ _. False\<rparr> [] empty_workflow flags_job
        (\<lambda>_. Inr flags_backend) sample_options ''j'' [] (True, False))) = Inr (''failure'', [flag_step True, flag_step False])"
    by (simp add: report_of_def flag_report_def)
qed

end
