(* ===== verification/Flags.thy ===== *)
theory Flags
  imports Prelude
begin

text \<open>
  The standard library's \<open>flag\<close> package, as far as \<open>cmd/mirror/main.go\<close> uses it: a \<open>FlagSet\<close> with
  \<open>ContinueOnError\<close>, boolean flags, flags with a value, and the parsing of an argument list. Parsing stops at the first
  argument that is no flag.
\<close>

datatype flag_error =
  BadFlagSyntax string
| FlagNotDefined string
| HelpAsked
| InvalidBool string string
| FlagNeedsArgument string

text \<open>How a flag changes the values parsed so far.\<close>

datatype 'f flag = BoolFlag "bool \<Rightarrow> 'f \<Rightarrow> 'f" | ValueFlag "string \<Rightarrow> 'f \<Rightarrow> 'f"

text \<open>\<open>strconv.ParseBool\<close>.\<close>

definition ParseBool :: "string \<Rightarrow> bool option" where
  "ParseBool s =
     (if s \<in> {''1'', ''t'', ''T'', ''true'', ''TRUE'', ''True''} then Some True
      else if s \<in> {''0'', ''f'', ''F'', ''false'', ''FALSE'', ''False''} then Some False else None)"

definition is_flag :: "string \<Rightarrow> bool" where
  "is_flag s \<longleftrightarrow> 2 \<le> length s \<and> hd s = CHR ''-''"

text \<open>The name behind one or two minuses.\<close>

definition flag_name :: "string \<Rightarrow> string" where
  "flag_name s = (if HasPrefix s ''--'' then drop 2 s else drop 1 s)"

fun parse_flags :: "'f flag smap \<Rightarrow> string list \<Rightarrow> 'f \<Rightarrow> flag_error + 'f \<times> string list" where
  "parse_flags fs [] f = Inr (f, [])"
| "parse_flags fs (s # args) f =
     (if \<not> is_flag s then Inr (f, s # args)
      else if s = ''--'' then Inr (f, args)
      else if flag_name s = [] \<or> hd (flag_name s) = CHR ''-'' \<or> hd (flag_name s) = CHR ''='' then Inl (BadFlagSyntax s)
      else case str_cut (flag_name s) ''='' of (name, val, has_value) \<Rightarrow>
        (case mget fs name of
           None \<Rightarrow> Inl (if name \<in> {''help'', ''h''} then HelpAsked else FlagNotDefined name)
         | Some (BoolFlag upd) \<Rightarrow>
             (case (if has_value then ParseBool val else Some True) of
                None \<Rightarrow> Inl (InvalidBool val name)
              | Some b \<Rightarrow> parse_flags fs args (upd b f))
         | Some (ValueFlag upd) \<Rightarrow>
             (if has_value then parse_flags fs args (upd val f)
              else case args of [] \<Rightarrow> Inl (FlagNeedsArgument name) | v # rest \<Rightarrow> parse_flags fs rest (upd v f))))"

declare parse_flags.simps(2) [simp del]

subsection \<open>Rendering flags\<close>

text \<open>A setting as arguments: \<open>--name\<close> for a boolean flag, \<open>--name value\<close> for the others.\<close>

datatype setting = Switch string | Value string string

definition render_setting :: "setting \<Rightarrow> string list" where
  "render_setting st = (case st of Switch n \<Rightarrow> [''--'' @ n] | Value n v \<Rightarrow> [''--'' @ n, v])"

fun apply_setting :: "'f flag smap \<Rightarrow> setting \<Rightarrow> 'f \<Rightarrow> 'f" where
  "apply_setting fs (Switch n) f = (case mget fs n of Some (BoolFlag upd) \<Rightarrow> upd True f | _ \<Rightarrow> f)"
| "apply_setting fs (Value n v) f = (case mget fs n of Some (ValueFlag upd) \<Rightarrow> upd v f | _ \<Rightarrow> f)"

definition name_ok :: "string \<Rightarrow> bool" where
  "name_ok n \<longleftrightarrow> n \<noteq> [] \<and> hd n \<noteq> CHR ''-'' \<and> CHR ''='' \<notin> set n"

text \<open>A setting of a flag that is defined with its kind.\<close>

definition setting_ok :: "'f flag smap \<Rightarrow> setting \<Rightarrow> bool" where
  "setting_ok fs st \<longleftrightarrow> (case st of
     Switch n \<Rightarrow> name_ok n \<and> (case mget fs n of Some (BoolFlag _) \<Rightarrow> True | _ \<Rightarrow> False)
   | Value n v \<Rightarrow> name_ok n \<and> (case mget fs n of Some (ValueFlag _) \<Rightarrow> True | _ \<Rightarrow> False))"

lemma name_ok_parts:
  assumes "name_ok n"
  shows "is_flag (''--'' @ n)" "''--'' @ n \<noteq> ''--''" "flag_name (''--'' @ n) = n" "n \<noteq> []" "hd n \<noteq> CHR ''-''" "hd n \<noteq> CHR ''=''"
    "str_cut n ''='' = (n, [], False)"
proof -
  have n: "n \<noteq> []" "hd n \<noteq> CHR ''-''" "CHR ''='' \<notin> set n" using assms by (simp_all add: name_ok_def)
  show "is_flag (''--'' @ n)" "''--'' @ n \<noteq> ''--''" "flag_name (''--'' @ n) = n" using n(1) by (simp_all add: is_flag_def flag_name_def)
  show "n \<noteq> []" "hd n \<noteq> CHR ''-''" using n by blast+
  show "hd n \<noteq> CHR ''=''" using n(1,3) hd_in_set by metis
  have "str_index n ''='' = None" using n(3) by (induction n) auto
  then show "str_cut n ''='' = (n, [], False)" by (simp add: str_cut_def)
qed

lemma parse_setting:
  assumes "setting_ok fs st"
  shows "parse_flags fs (render_setting st @ args) f = parse_flags fs args (apply_setting fs st f)"
proof (cases st)
  case (Switch n)
  then obtain upd where s: "mget fs n = Some (BoolFlag upd)" and ok: "name_ok n"
    using assms by (auto simp: setting_ok_def split: option.splits flag.splits)
  note p = name_ok_parts[OF ok]
  have "parse_flags fs ((''--'' @ n) # args) f = parse_flags fs args (upd True f)"
    unfolding parse_flags.simps(2) p(3,7) prod.case s option.case flag.case using p(1,2,4-6) by simp
  then show ?thesis by (simp add: Switch render_setting_def s)
next
  case (Value n v)
  then obtain upd where s: "mget fs n = Some (ValueFlag upd)" and ok: "name_ok n"
    using assms by (auto simp: setting_ok_def split: option.splits flag.splits)
  note p = name_ok_parts[OF ok]
  have "parse_flags fs ((''--'' @ n) # v # args) f = parse_flags fs args (upd v f)"
    unfolding parse_flags.simps(2) p(3,7) prod.case s option.case flag.case list.case using p(1,2,4-6) by simp
  then show ?thesis by (simp add: Value render_setting_def s)
qed

lemma parse_settings:
  "list_all (setting_ok fs) sts \<Longrightarrow>
   parse_flags fs (concat (map render_setting sts) @ args) f = parse_flags fs args (fold (apply_setting fs) sts f)"
  by (induction sts arbitrary: f) (simp_all add: parse_setting)

lemma parse_stops: "\<not> is_flag s \<Longrightarrow> parse_flags fs (s # args) f = Inr (f, s # args)"
  by (simp add: parse_flags.simps)

end
