(* ===== verification/Disk.thy ===== *)
theory Disk
  imports Paths
begin

text \<open>
  The file system calls the servers make, over a disk of files and directories named by cleaned paths:
  \<open>MkdirAll\<close>, \<open>OpenFile\<close> with \<open>O_CREATE|O_WRONLY\<close> followed by \<open>Seek\<close> and \<open>io.Copy\<close>, \<open>ReadFile\<close>,
  \<open>Stat\<close>, \<open>RemoveAll\<close>, \<open>ReadDir\<close>, \<open>WalkDir\<close>; and \<open>blob_writer\<close>, the contract both servers' chunked
  uploads satisfy: chunks written in any order reassemble the content.
\<close>

record disk =
  disk_files :: "string smap"
  disk_dirs :: "string list"

definition is_file :: "disk \<Rightarrow> string \<Rightarrow> bool" where
  "is_file d p \<longleftrightarrow> mget (disk_files d) p \<noteq> None"

definition is_dir :: "disk \<Rightarrow> string \<Rightarrow> bool" where
  "is_dir d p \<longleftrightarrow> p \<in> set (disk_dirs d)"

definition os_Stat :: "disk \<Rightarrow> string \<Rightarrow> bool" where
  "os_Stat d p \<longleftrightarrow> is_file d p \<or> is_dir d p"

text \<open>A path and the directories above it.\<close>

definition path_prefixes :: "string \<Rightarrow> string list" where
  "path_prefixes p = (let segs = clean_segs (is_rooted p) (str_split slash p) in
     map (\<lambda>k. render (is_rooted p) (take k segs)) [0..<Suc (length segs)])"

definition os_MkdirAll :: "string \<Rightarrow> disk \<Rightarrow> string + disk" where
  "os_MkdirAll p d = (if list_ex (is_file d) (path_prefixes p) then Inl (''mkdir '' @ p @ '': not a directory'')
     else Inr (d\<lparr>disk_dirs := disk_dirs d @ filter (\<lambda>q. \<not> is_dir d q) (path_prefixes p)\<rparr>))"

definition os_ReadFile :: "disk \<Rightarrow> string \<Rightarrow> string option" where
  "os_ReadFile d p = mget (disk_files d) p"

definition os_WriteFile :: "string \<Rightarrow> string \<Rightarrow> disk \<Rightarrow> string + disk" where
  "os_WriteFile p content d = (if is_dir d p then Inl (''open '' @ p @ '': is a directory'')
     else if \<not> is_dir d (Dir p) then Inl (''open '' @ p @ '': no such file or directory'')
     else Inr (d\<lparr>disk_files := mput p content (disk_files d)\<rparr>))"

text \<open>Opening for writing keeps what the file holds; a negative offset makes \<open>Seek\<close> fail, after the
  file has been created.\<close>

definition blob_of :: "disk \<Rightarrow> string \<Rightarrow> string" where
  "blob_of d p = (case mget (disk_files d) p of None \<Rightarrow> [] | Some b \<Rightarrow> b)"

definition os_OpenWriteAt :: "string \<Rightarrow> int \<Rightarrow> string \<Rightarrow> disk \<Rightarrow> (string + unit) \<times> disk" where
  "os_OpenWriteAt p offset body d =
     (if is_dir d p then (Inl (''open '' @ p @ '': is a directory''), d)
      else if \<not> is_dir d (Dir p) then (Inl (''open '' @ p @ '': no such file or directory''), d)
      else if offset < 0 then (Inl (''seek '' @ p @ '': invalid argument''),
        d\<lparr>disk_files := mput p (blob_of d p) (disk_files d)\<rparr>)
      else (Inr (), d\<lparr>disk_files := mput p (write_at (nat offset) body (blob_of d p)) (disk_files d)\<rparr>))"

text \<open>The prefix of the paths below a directory, and whether a path is \<open>p\<close> or lies below it.\<close>

definition under :: "string \<Rightarrow> string" where
  "under p = (if p = [slash] then p else p @ [slash])"

definition below :: "string \<Rightarrow> string \<Rightarrow> bool" where
  "below p q \<longleftrightarrow> q = p \<or> HasPrefix q (under p)"

definition os_RemoveAll :: "string \<Rightarrow> disk \<Rightarrow> disk" where
  "os_RemoveAll p d = \<lparr>disk_files = filter (\<lambda>kv. \<not> below p (fst kv)) (disk_files d),
     disk_dirs = filter (\<lambda>q. \<not> below p q) (disk_dirs d)\<rparr>"

text \<open>The names in a directory in byte order, and the files below one in the order of \<open>WalkDir\<close>.\<close>

definition child_name :: "string \<Rightarrow> string \<Rightarrow> string option" where
  "child_name p q = (if q \<noteq> p \<and> HasPrefix q (under p) then
     (let rest = drop (length (under p)) q in if slash \<in> set rest then None else Some rest) else None)"

definition os_ReadDir :: "disk \<Rightarrow> string \<Rightarrow> string list option" where
  "os_ReadDir d p = (if \<not> is_dir d p then None
     else Some (sort (remdups (List.map_filter (child_name p) (map fst (disk_files d) @ disk_dirs d)))))"

definition WalkDir_files :: "disk \<Rightarrow> string \<Rightarrow> string list" where
  "WalkDir_files d p = (if is_file d p then [p]
     else sort_key (str_split slash) (filter (\<lambda>q. HasPrefix q (under p)) (map fst (disk_files d))))"

subsection \<open>What the calls promise\<close>

named_theorems disk_simps

lemma blob_of_mput [disk_simps]:
  "blob_of (d\<lparr>disk_files := mput p c (disk_files d)\<rparr>) q = (if q = p then c else blob_of d q)"
  by (simp add: blob_of_def)

lemma is_dir_files [disk_simps]: "is_dir (d\<lparr>disk_files := fs\<rparr>) q = is_dir d q"
  by (simp add: is_dir_def)

lemma is_dir_files_fun: "is_dir (d\<lparr>disk_files := fs\<rparr>) = is_dir d"
  by (simp add: fun_eq_iff is_dir_def)

lemma os_ReadFile_mput [disk_simps]:
  "os_ReadFile (d\<lparr>disk_files := mput p c (disk_files d)\<rparr>) q = (if q = p then Some c else os_ReadFile d q)"
  by (simp add: os_ReadFile_def)

lemma is_file_RemoveAll [disk_simps]: "is_file (os_RemoveAll p d) q \<longleftrightarrow> is_file d q \<and> \<not> below p q"
  by (auto simp: is_file_def os_RemoveAll_def map_of_filter_in map_of_eq_None_iff)

lemma is_dir_RemoveAll [disk_simps]: "is_dir (os_RemoveAll p d) q \<longleftrightarrow> is_dir d q \<and> \<not> below p q"
  by (auto simp: is_dir_def os_RemoveAll_def)

lemma os_OpenWriteAt_dirs [disk_simps]: "is_dir (snd (os_OpenWriteAt p off b d)) q = is_dir d q"
  by (simp add: os_OpenWriteAt_def disk_simps)

text \<open>The directories a write needs.\<close>

definition writable :: "string \<Rightarrow> disk \<Rightarrow> bool" where
  "writable p d \<longleftrightarrow> \<not> is_dir d p \<and> is_dir d (Dir p)"

lemma os_OpenWriteAt_ok:
  assumes "writable p d" "0 \<le> off"
  shows "os_OpenWriteAt p off b d =
    (Inr (), d\<lparr>disk_files := mput p (write_at (nat off) b (blob_of d p)) (disk_files d)\<rparr>)"
  using assms by (simp add: os_OpenWriteAt_def writable_def)

lemma writable_OpenWriteAt [disk_simps]: "writable p (snd (os_OpenWriteAt q off b d)) = writable p d"
  by (simp add: writable_def disk_simps)

text \<open>Paths below the root directory, by their segments.\<close>

lemma path_prefixes_render:
  assumes "list_all plain_seg S"
  shows "path_prefixes (render True S) = map (\<lambda>k. render True (take k S)) [0..<Suc (length S)]"
proof -
  note cl = plain_list_clean[OF assms, of True]
  have "clean_segs True (str_split slash (render True S)) = S"
    unfolding split_render[OF cl] using clean_segs_id[OF cl] by (cases "S = []") (simp_all add: clean_segs_skip)
  then show ?thesis unfolding path_prefixes_def Let_def is_rooted_render(1)[OF cl] by simp
qed

lemma path_prefixes_self: "list_all plain_seg S \<Longrightarrow> render True S \<in> set (path_prefixes (render True S))"
  by (simp add: path_prefixes_render)

lemma render_inj:
  assumes "clean_list True a" "clean_list True b" "render True a = render True b"
  shows "a = b"
proof -
  have "[] # (if a = [] then [[]] else a) = [] # (if b = [] then [[]] else b)"
    using split_render[OF assms(1)] split_render[OF assms(2)] assms(3) by simp
  moreover have "[] \<notin> set a" "[] \<notin> set b"
    using clean_list_no_slash[OF assms(1)] clean_list_no_slash[OF assms(2)] by blast+
  ultimately show ?thesis by (auto split: if_splits)
qed

lemma file_not_above:
  assumes "list_all plain_seg (S @ [s])"
  shows "render True (S @ [s]) \<notin> set (path_prefixes (render True S))"
proof
  have S: "list_all plain_seg S" using assms by simp
  assume "render True (S @ [s]) \<in> set (path_prefixes (render True S))"
  then obtain k where k: "render True (S @ [s]) = render True (take k S)"
    unfolding path_prefixes_render[OF S] set_map by blast
  have "list_all plain_seg (take k S)" using assms by (metis append_take_drop_id list_all_append)
  with k assms have "S @ [s] = take k S" by (intro render_inj plain_list_clean)
  then have "length (S @ [s]) = length (take k S)" by simp
  then show False by simp
qed

lemma below_Dir:
  assumes "list_all plain_seg (S @ [s])"
  shows "below (Dir (render True (S @ [s]))) (render True (S @ [s]))"
proof (cases "S = []")
  case True
  then show ?thesis unfolding Dir_render[OF assms] by (simp add: render_def below_def under_def)
next
  case False
  then have "render True (S @ [s]) = render True S @ [slash] @ s" "render True S \<noteq> [slash]"
    using is_rooted_render(2)[OF plain_list_clean, of S False] assms
    by (simp_all add: render_def str_join_snoc)
  then show ?thesis unfolding Dir_render[OF assms] below_def under_def by (simp add: HasPrefix_iff)
qed

subsection \<open>Blobs written in chunks\<close>

text \<open>The contract of an upload endpoint: a state, the blob it holds, and a write that acts on the blob as
  \<open>write_at\<close> while the endpoint stays ready.\<close>

locale blob_writer =
  fixes ready :: "'s \<Rightarrow> bool" and blob :: "'s \<Rightarrow> string" and put :: "nat \<Rightarrow> string \<Rightarrow> 's \<Rightarrow> 's"
  assumes put_ready: "ready s \<Longrightarrow> ready (put off d s)"
    and put_blob: "ready s \<Longrightarrow> blob (put off d s) = write_at off d (blob s)"
begin

definition put_all :: "(nat \<times> string) list \<Rightarrow> 's \<Rightarrow> 's" where
  "put_all chs s = fold (\<lambda>(off, d). put off d) chs s"

lemma put_all_ready: "ready s \<Longrightarrow> ready (put_all chs s)"
  unfolding put_all_def by (induction chs arbitrary: s) (auto intro: put_ready)

lemma put_all_blob: "ready s \<Longrightarrow> blob (put_all chs s) = write_chunks chs (blob s)"
  unfolding put_all_def write_chunks_def
  by (induction chs arbitrary: s) (auto simp: put_blob put_ready)

text \<open>Chunks of a content that leave no byte out, in any order and with any overlap, rebuild it.\<close>

lemma reassembles:
  assumes "ready s" "blob s = []" "list_all (chunk_of c) chs" "chunks_cover c chs"
  shows "blob (put_all chs s) = c"
proof -
  have "\<exists>(off, d) \<in> set chs. off \<le> i \<and> i < off + length d" if "i < length c" for i
    using assms(4) that by (auto simp: chunks_cover_def list_all_iff list_ex_iff)
  then show ?thesis
    unfolding put_all_blob[OF assms(1)] by (intro write_chunks_nth) (use assms in auto)
qed

end

text \<open>A path on the disk is such a blob while its directory exists.\<close>

interpretation disk_blob: blob_writer "writable p" "\<lambda>d. blob_of d p" "\<lambda>off b d. snd (os_OpenWriteAt p (int off) b d)"
  for p
proof
  fix d off b
  assume w: "writable p d"
  show "writable p (snd (os_OpenWriteAt p (int off) b d))" using w by (simp add: disk_simps)
  show "blob_of (snd (os_OpenWriteAt p (int off) b d)) p = write_at off b (blob_of d p)"
    using w by (simp add: os_OpenWriteAt_ok disk_simps)
qed

end
