(* ===== verification/Http.thy ===== *)
theory Http
  imports Disk
begin

text \<open>
  What the two servers use of \<open>net/http\<close> and \<open>net/url\<close>: a request and its parsed query, percent-encoding, the
  routing of a \<open>ServeMux\<close> with method and wildcard patterns, \<open>ServeFile\<close>, and a listening server. A request
  holds the path as \<open>EscapedPath\<close> answers it, its headers under their canonical names, and no range or
  conditional header for \<open>ServeFile\<close> to look at. The locale \<open>simulation\<close> is how a server refines an abstract
  specification of itself.
\<close>

named_theorems http_simps

subsection \<open>Percent-encoding\<close>

definition upper_hex :: "nat \<Rightarrow> char" where
  "upper_hex n = (if n < 10 then char_of (48 + n) else char_of (55 + n))"

definition escape_byte :: "char \<Rightarrow> string" where
  "escape_byte c =
     (if is_upper c \<or> is_lower c \<or> is_digit c \<or> c \<in> set ''-_.~'' then [c]
      else if c = CHR '' '' then ''+''
      else [CHR ''%'', upper_hex (of_char c div 16), upper_hex (of_char c mod 16)])"

text \<open>\<open>url.QueryEscape\<close>.\<close>

definition QueryEscape :: "string \<Rightarrow> string" where
  "QueryEscape s = concat (map escape_byte s)"

definition unhex :: "char \<Rightarrow> nat option" where
  "unhex c = (let n = of_char c :: nat in
     if is_digit c then Some (n - 48)
     else if 97 \<le> n \<and> n \<le> 102 then Some (n - 87)
     else if 65 \<le> n \<and> n \<le> 70 then Some (n - 55) else None)"

text \<open>\<open>unescape\<close>: in a query component \<open>+\<close> stands for a blank; a broken \<open>%\<close> is an error.\<close>

fun url_unescape :: "bool \<Rightarrow> string \<Rightarrow> string option" where
  "url_unescape query [] = Some []"
| "url_unescape query (c # r) =
     (if c = CHR ''%'' then
        (case r of a # b # r' \<Rightarrow>
           (case (unhex a, unhex b) of
              (Some x, Some y) \<Rightarrow> map_option (\<lambda>t. char_of (16 * x + y) # t) (url_unescape query r')
            | _ \<Rightarrow> None)
         | _ \<Rightarrow> None)
      else map_option (\<lambda>t. (if query \<and> c = CHR ''+'' then CHR '' '' else c) # t) (url_unescape query r))"

definition QueryUnescape :: "string \<Rightarrow> string option" where
  "QueryUnescape = url_unescape True"

text \<open>The mux's \<open>pathUnescape\<close> leaves what it cannot decode.\<close>

definition pathUnescape :: "string \<Rightarrow> string" where
  "pathUnescape s = (case url_unescape False s of None \<Rightarrow> s | Some t \<Rightarrow> t)"

subsection \<open>Requests\<close>

record request =
  rq_method :: string
  rq_host :: string
  rq_path :: string
  rq_query :: string
  rq_headers :: "string smap"
  rq_body :: string

definition url_path :: "request \<Rightarrow> string" where
  "url_path r = pathUnescape (rq_path r)"

definition header_get :: "request \<Rightarrow> string \<Rightarrow> string" where
  "header_get r name = (case mget (rq_headers r) name of None \<Rightarrow> [] | Some v \<Rightarrow> v)"

text \<open>\<open>url.ParseQuery\<close>: parameters that do not decode are left out.\<close>

definition parse_param :: "string \<Rightarrow> (string \<times> string) option" where
  "parse_param p = (if CHR '';'' \<in> set p \<or> p = [] then None
     else case str_cut p ''='' of (k, v, _) \<Rightarrow>
       (case (QueryUnescape k, QueryUnescape v) of (Some k', Some v') \<Rightarrow> Some (k', v') | _ \<Rightarrow> None))"

definition ParseQuery :: "string \<Rightarrow> (string \<times> string) list" where
  "ParseQuery q = List.map_filter parse_param (str_split (CHR ''&'') q)"

text \<open>\<open>r.URL.Query().Get\<close>: the first value, or the empty string.\<close>

definition query_get :: "request \<Rightarrow> string \<Rightarrow> string" where
  "query_get r k = (case map_of (ParseQuery (rq_query r)) k of None \<Rightarrow> [] | Some v \<Rightarrow> v)"

text \<open>What a client makes of a URL it was given: the host, the path and the query.\<close>

definition url_parts :: "string \<Rightarrow> string \<times> string \<times> string" where
  "url_parts u = (let rest = TrimPrefix u ''http://''; host = takeWhile (\<lambda>c. c \<noteq> slash) rest;
     target = fst (str_cut (dropWhile (\<lambda>c. c \<noteq> slash) rest) ''#'')
     in case str_cut target ''?'' of (path, query, _) \<Rightarrow> (host, path, query))"

subsection \<open>Patterns and routes\<close>

datatype pat_seg = Lit string | Wild string | Multi string

record 'h route =
  rt_method :: string
  rt_segs :: "pat_seg list"
  rt_handler :: 'h

definition parse_seg :: "string \<Rightarrow> pat_seg" where
  "parse_seg s = (if HasPrefix s ''{'' \<and> HasSuffix s ''}'' then
       (let n = butlast (tl s) in
        if n = ''$'' then Lit ''/'' else if HasSuffix n ''...'' then Multi (TrimSuffix n ''...'') else Wild n)
     else if s = [] then Multi [] else Lit (pathUnescape s))"

text \<open>\<open>HandleFunc\<close> with a pattern: a method, a blank and a path.\<close>

definition HandleFunc :: "string \<Rightarrow> 'h \<Rightarrow> 'h route" where
  "HandleFunc pat h = (case str_cut pat '' '' of (meth, path, _) \<Rightarrow>
     \<lparr>rt_method = meth, rt_segs = map parse_seg (str_split slash (tl path)), rt_handler = h\<rparr>)"

fun wild_names :: "pat_seg list \<Rightarrow> string list" where
  "wild_names [] = []"
| "wild_names (Lit _ # ps) = wild_names ps"
| "wild_names (Wild n # ps) = n # wild_names ps"
| "wild_names (Multi n # ps) = (if n = [] then [] else [n])"

subsection \<open>Matching\<close>

definition cleanPath :: "string \<Rightarrow> string" where
  "cleanPath p0 = (if p0 = [] then ''/'' else
     (let p = (if hd p0 = slash then p0 else slash # p0); np = Clean p in
      if last p = slash \<and> np \<noteq> ''/'' then np @ ''/'' else np))"

type_synonym 'h walker = "'h route \<times> pat_seg list"

definition next_lit :: "string \<Rightarrow> 'h walker list \<Rightarrow> 'h walker list" where
  "next_lit seg ws = List.map_filter (\<lambda>(r, ps). case ps of
     Lit l # qs \<Rightarrow> if l = seg then Some (r, qs) else None | _ \<Rightarrow> None) ws"

definition next_wild :: "'h walker list \<Rightarrow> 'h walker list" where
  "next_wild ws = List.map_filter (\<lambda>(r, ps). case ps of Wild _ # qs \<Rightarrow> Some (r, qs) | _ \<Rightarrow> None) ws"

definition multi_route :: "'h walker list \<Rightarrow> 'h route option" where
  "multi_route ws = map_option fst (find (\<lambda>(r, ps). case ps of Multi _ # _ \<Rightarrow> True | _ \<Rightarrow> False) ws)"

text \<open>The routing tree, walked over the raw segments of the path: a literal is preferred to a wildcard, a
  wildcard to a trailing one, and a choice that leads nowhere is taken back. The last segment of a path
  with a trailing slash is empty here and \<open>/\<close> for the tree.\<close>

fun match_path :: "'h walker list \<Rightarrow> string list \<Rightarrow> string list \<Rightarrow> ('h route \<times> string list) option" where
  "match_path ws [] vals = map_option (\<lambda>w. (fst w, vals)) (find (\<lambda>w. snd w = []) ws)"
| "match_path ws (raw # rest) vals =
     (let seg = (if raw = [] \<and> rest = [] then ''/'' else pathUnescape raw) in
      case (if next_lit seg ws = [] then None else match_path (next_lit seg ws) rest vals) of Some m \<Rightarrow> Some m
      | None \<Rightarrow>
        (case (if seg = ''/'' \<or> next_wild ws = [] then None else match_path (next_wild ws) rest (vals @ [seg])) of
           Some m \<Rightarrow> Some m
         | None \<Rightarrow>
            (case multi_route ws of None \<Rightarrow> None
             | Some r \<Rightarrow> Some (r, vals @ [pathUnescape (str_join (raw # rest) [slash])]))))"

definition match_method :: "'h route list \<Rightarrow> string \<Rightarrow> string \<Rightarrow> ('h route \<times> string list) option" where
  "match_method rts meth path =
     match_path (map (\<lambda>r. (r, rt_segs r)) (filter (\<lambda>r. rt_method r = meth) rts)) (str_split slash (tl path)) []"

text \<open>A \<open>HEAD\<close> request may be answered by a \<open>GET\<close> pattern.\<close>

definition tree_match :: "'h route list \<Rightarrow> string \<Rightarrow> string \<Rightarrow> ('h route \<times> string list) option" where
  "tree_match rts meth path = (case match_method rts meth path of Some m \<Rightarrow> Some m
     | None \<Rightarrow> if meth = ''HEAD'' then match_method rts ''GET'' path else None)"

definition is_multi :: "pat_seg \<Rightarrow> bool" where
  "is_multi p = (case p of Multi _ \<Rightarrow> True | _ \<Rightarrow> False)"

definition exactMatch :: "('h route \<times> string list) option \<Rightarrow> string \<Rightarrow> bool" where
  "exactMatch m path = (case m of None \<Rightarrow> False
     | Some (r, _) \<Rightarrow> if \<not> is_multi (last (rt_segs r)) then True
         else HasSuffix path ''/'' \<and> length (rt_segs r) = count_list path slash)"

definition matching_methods :: "'h route list \<Rightarrow> string \<Rightarrow> string list" where
  "matching_methods rts path =
     (let ms = filter (\<lambda>m. match_method rts m path \<noteq> None \<or>
                (\<not> HasSuffix path ''/'' \<and> match_method rts m (path @ ''/'') \<noteq> None)) (map rt_method rts);
          ms' = (if ''GET'' \<in> set ms then ''HEAD'' # ms else ms)
      in sort (remdups ms'))"

datatype 'h routed =
  Handled 'h "string smap"
| Redirected string
| NotAllowed "string list"
| NoRoute

text \<open>\<open>findHandler\<close>.\<close>

definition find_handler :: "'h route list \<Rightarrow> request \<Rightarrow> 'h routed" where
  "find_handler rts r =
     (let path = cleanPath (rq_path r); m = tree_match rts (rq_method r) path in
      if \<not> exactMatch m path \<and> \<not> HasSuffix path ''/'' \<and> exactMatch (tree_match rts (rq_method r) (path @ ''/'')) (path @ ''/'')
      then Redirected (cleanPath (url_path r) @ ''/'')
      else if path \<noteq> rq_path r then Redirected path
      else case m of
        Some (rt, vals) \<Rightarrow> Handled (rt_handler rt) (zip (wild_names (rt_segs rt)) vals)
      | None \<Rightarrow> if matching_methods rts path \<noteq> [] then NotAllowed (matching_methods rts path) else NoRoute)"

text \<open>\<open>r.PathValue\<close>.\<close>

definition PathValue :: "string smap \<Rightarrow> string \<Rightarrow> string" where
  "PathValue vals name = (case mget vals name of None \<Rightarrow> [] | Some v \<Rightarrow> v)"

text \<open>What a mux answers: a handler's answer, a redirect, or an error of its own.\<close>

datatype 'a mux_answer =
  Answered 'a
| MovedPermanently string
| MethodNotAllowed "string list"
| PageNotFound

subsection \<open>ServeFile\<close>

text \<open>A \<open>..\<close> between slashes or backslashes.\<close>

definition containsDotDot :: "string \<Rightarrow> bool" where
  "containsDotDot p \<longleftrightarrow> ''..'' \<in> set (str_split slash (map (\<lambda>c. if c = CHR 0x5C then slash else c) p))"

datatype file_answer =
  FileContent string
| FileRedirect string
| FileListing "string list"
| FileMissing
| FileBadURL

definition file_names :: "disk \<Rightarrow> string \<Rightarrow> string list" where
  "file_names d p = (case os_ReadDir d p of None \<Rightarrow> [] | Some ns \<Rightarrow> ns)"

text \<open>\<open>localRedirect\<close> keeps the query.\<close>

definition localRedirect :: "request \<Rightarrow> string \<Rightarrow> file_answer" where
  "localRedirect r path = FileRedirect (path @ (if rq_query r = [] then [] else ''?'' @ rq_query r))"

definition ServeFile :: "request \<Rightarrow> string \<Rightarrow> disk \<Rightarrow> file_answer" where
  "ServeFile r name d =
     (if containsDotDot (url_path r) then FileBadURL
      else if HasSuffix (url_path r) ''/index.html'' then localRedirect r ''./''
      else case os_ReadFile d name of Some b \<Rightarrow> FileContent b
      | None \<Rightarrow>
         (if \<not> is_dir d name then FileMissing
          else if \<not> HasSuffix (url_path r) ''/'' then localRedirect r (Base (url_path r) @ ''/'')
          else (let index = TrimSuffix name ''/'' @ ''/index.html'' in
            case os_ReadFile d index of Some b \<Rightarrow> FileContent b
            | None \<Rightarrow> FileListing (file_names d (if is_dir d index then index else name)))))"

text \<open>A URL that \<open>ServeFile\<close> neither rejects nor redirects when the file is there.\<close>

definition direct_url :: "request \<Rightarrow> bool" where
  "direct_url r \<longleftrightarrow> \<not> containsDotDot (url_path r) \<and> \<not> HasSuffix (url_path r) ''/index.html''"

lemma ServeFile_direct: "direct_url r \<Longrightarrow> os_ReadFile d p = Some b \<Longrightarrow> ServeFile r p d = FileContent b"
  by (simp add: ServeFile_def direct_url_def)

subsection \<open>A listening server\<close>

record server = srv_port :: int

definition listen_and_serve :: "string \<Rightarrow> ('w \<Rightarrow> (string + int) \<times> 'w) \<Rightarrow> 'w \<Rightarrow> (string + server) \<times> 'w" where
  "listen_and_serve what listen w = (case listen w of
     (Inl e, w1) \<Rightarrow> (Inl (''listen for '' @ what @ '' server: '' @ e), w1)
   | (Inr port, w1) \<Rightarrow> (Inr \<lparr>srv_port = port\<rparr>, w1))"

subsection \<open>Encoding and decoding\<close>

lemma upper_hex_char: "n < 16 \<Longrightarrow> is_digit (upper_hex n) \<or> is_upper (upper_hex n)"
proof -
  have "list_all (\<lambda>n. is_digit (upper_hex n) \<or> is_upper (upper_hex n)) [0..<16]" by code_simp
  moreover assume "n < 16"
  then have "n \<in> set [0..<16]" by (simp only: set_upt atLeastLessThan_iff zero_le simp_thms)
  ultimately show "is_digit (upper_hex n) \<or> is_upper (upper_hex n)" unfolding list_all_iff by blast
qed

lemma is_digit_of_char: "is_digit c \<longleftrightarrow> 48 \<le> (of_char c :: nat) \<and> (of_char c :: nat) \<le> 57"
  by (simp add: is_digit_def less_eq_char_def)

lemma unhex_upper_hex: "n < 16 \<Longrightarrow> unhex (upper_hex n) = Some n"
  by (cases "n < 10") (simp_all add: unhex_def upper_hex_def is_digit_of_char Let_def)

lemma of_char_div16: "(of_char c :: nat) div 16 < 16" "(of_char c :: nat) mod 16 < 16"
proof -
  have "(of_char c :: nat) < 16 * 16" using nat_of_char_less_256[of c] by simp
  then show "(of_char c :: nat) div 16 < 16" by (rule less_mult_imp_div_less)
qed simp

lemma unescape_escape_byte:
  "url_unescape True (escape_byte c @ r) = map_option (\<lambda>t. c # t) (url_unescape True r)"
proof -
  have p: "\<not> (is_upper (CHR ''%'') \<or> is_lower (CHR ''%'') \<or> is_digit (CHR ''%'') \<or> CHR ''%'' \<in> set ''-_.~'')"
    "\<not> (is_upper (CHR ''+'') \<or> is_lower (CHR ''+'') \<or> is_digit (CHR ''+'') \<or> CHR ''+'' \<in> set ''-_.~'')"
    by code_simp+
  consider (plain) "is_upper c \<or> is_lower c \<or> is_digit c \<or> c \<in> set ''-_.~''"
    | (blank) "\<not> (is_upper c \<or> is_lower c \<or> is_digit c \<or> c \<in> set ''-_.~'')" "c = CHR '' ''"
    | (hex) "\<not> (is_upper c \<or> is_lower c \<or> is_digit c \<or> c \<in> set ''-_.~'')" "c \<noteq> CHR '' ''" by blast
  then show ?thesis
  proof cases
    case plain
    then have "escape_byte c = [c]" unfolding escape_byte_def by (simp only: if_True)
    moreover have "c \<noteq> CHR ''%''" "c \<noteq> CHR ''+''" using plain p by blast+
    ultimately show ?thesis by simp
  next
    case blank
    then have "escape_byte c = ''+''" unfolding escape_byte_def by (simp only: if_False if_True simp_thms)
    then show ?thesis using blank(2) by simp
  next
    case hex
    then have e: "escape_byte c = [CHR ''%'', upper_hex (of_char c div 16), upper_hex (of_char c mod 16)]"
      unfolding escape_byte_def by (simp only: if_False)
    have "char_of (16 * (of_char c div 16) + of_char c mod 16 :: nat) = c" by (simp only: mult_div_mod_eq char_of_char)
    then show ?thesis unfolding e by (simp add: unhex_upper_hex of_char_div16)
  qed
qed

lemma QueryUnescape_Escape [http_simps]: "QueryUnescape (QueryEscape s) = Some s"
  unfolding QueryUnescape_def QueryEscape_def
  by (induction s) (simp_all add: unescape_escape_byte)

text \<open>What escaping leaves: none of the bytes that end a query parameter, a query or a URL.\<close>

definition query_char :: "char \<Rightarrow> bool" where
  "query_char c \<longleftrightarrow> is_upper c \<or> is_lower c \<or> is_digit c \<or> c \<in> set ''-_.~+%''"

lemma QueryEscape_chars: "list_all query_char (QueryEscape s)"
proof -
  have "list_all query_char (escape_byte c)" for c
    using upper_hex_char[OF of_char_div16(1)[of c]] upper_hex_char[OF of_char_div16(2)[of c]]
    by (auto simp: escape_byte_def query_char_def)
  then show ?thesis by (induction s) (simp_all add: QueryEscape_def)
qed

lemma QueryEscape_no:
  "CHR ''&'' \<notin> set (QueryEscape s)" "CHR '';'' \<notin> set (QueryEscape s)" "CHR ''#'' \<notin> set (QueryEscape s)"
  "CHR ''?'' \<notin> set (QueryEscape s)" "slash \<notin> set (QueryEscape s)"
proof -
  have "\<not> query_char (CHR ''&'')" "\<not> query_char (CHR '';'')" "\<not> query_char (CHR ''#'')" "\<not> query_char (CHR ''?'')"
    "\<not> query_char slash" by code_simp+
  then show "CHR ''&'' \<notin> set (QueryEscape s)" "CHR '';'' \<notin> set (QueryEscape s)" "CHR ''#'' \<notin> set (QueryEscape s)"
    "CHR ''?'' \<notin> set (QueryEscape s)" "slash \<notin> set (QueryEscape s)"
    using QueryEscape_chars[of s] by (auto simp: list_all_iff)
qed

lemma url_unescape_plain: "CHR ''%'' \<notin> set s \<Longrightarrow> url_unescape False s = Some s"
  by (induction s) auto

lemma pathUnescape_plain [http_simps]: "CHR ''%'' \<notin> set s \<Longrightarrow> pathUnescape s = s"
  by (simp add: pathUnescape_def url_unescape_plain)

lemma str_cut_at: "c \<notin> set a \<Longrightarrow> str_cut (a @ c # b) [c] = (a, b, True)"
proof -
  assume "c \<notin> set a"
  then have "str_index (a @ c # b) [c] = Some (length a)" by (induction a) auto
  then show ?thesis by (simp add: str_cut_def)
qed

lemma str_cut_no: "c \<notin> set a \<Longrightarrow> str_cut a [c] = (a, [], False)"
proof -
  assume "c \<notin> set a"
  then have "str_index a [c] = None" by (induction a) auto
  then show ?thesis by (simp add: str_cut_def)
qed

text \<open>A parameter whose value was escaped is read back.\<close>

lemma parse_param_escaped:
  assumes "list_all (\<lambda>c. is_lower c \<or> is_upper c) k" "k \<noteq> []"
  shows "parse_param (k @ ''='' @ QueryEscape v) = Some (k, v)"
proof -
  have x: "\<not> (is_lower (CHR ''='') \<or> is_upper (CHR ''=''))" "\<not> (is_lower (CHR '';'') \<or> is_upper (CHR '';''))"
    "\<not> (is_lower (CHR ''%'') \<or> is_upper (CHR ''%''))" "\<not> (is_lower (CHR ''+'') \<or> is_upper (CHR ''+''))" by code_simp+
  have k: "CHR ''='' \<notin> set k" "CHR '';'' \<notin> set k" "CHR ''%'' \<notin> set k" "CHR ''+'' \<notin> set k"
    using assms(1) x unfolding list_all_iff by blast+
  have "url_unescape True k = Some k" using k(3,4) by (induction k) auto
  then have u: "QueryUnescape k = Some k" by (simp add: QueryUnescape_def)
  have c: "str_cut (k @ ''='' @ QueryEscape v) ''='' = (k, QueryEscape v, True)" using str_cut_at[OF k(1)] by simp
  have n: "\<not> (CHR '';'' \<in> set (k @ ''='' @ QueryEscape v) \<or> k @ ''='' @ QueryEscape v = [])"
    using k(2) QueryEscape_no(2) assms(2) by simp
  show ?thesis unfolding parse_param_def if_not_P[OF n] c prod.case u QueryUnescape_Escape option.case ..
qed

lemma ParseQuery_one:
  assumes "parse_param p = Some kv" "CHR ''&'' \<notin> set p"
  shows "ParseQuery p = [kv]"
  using assms by (simp add: ParseQuery_def str_split_no map_filter_simps)

lemma ParseQuery_Cons:
  assumes "parse_param p = Some kv" "CHR ''&'' \<notin> set p"
  shows "ParseQuery (p @ ''&'' @ q) = kv # ParseQuery q"
  using assms by (simp add: ParseQuery_def str_split_append map_filter_simps)

lemma url_parts_url:
  assumes "slash \<notin> set host" "hd path = slash" "path \<noteq> []" "CHR ''#'' \<notin> set path" "CHR ''?'' \<notin> set path" "CHR ''#'' \<notin> set q"
  shows "url_parts (''http://'' @ host @ path @ ''?'' @ q) = (host, path, q)"
    "url_parts (''http://'' @ host @ path) = (host, path, [])"
proof -
  have tw: "takeWhile (\<lambda>c. c \<noteq> slash) (host @ path @ r) = host" "dropWhile (\<lambda>c. c \<noteq> slash) (host @ path @ r) = path @ r" for r
  proof -
    obtain p where p: "path = slash # p" using assms(2,3) by (cases path) auto
    have h: "\<And>c. c \<in> set host \<Longrightarrow> c \<noteq> slash" using assms(1) by metis
    show "takeWhile (\<lambda>c. c \<noteq> slash) (host @ path @ r) = host" "dropWhile (\<lambda>c. c \<noteq> slash) (host @ path @ r) = path @ r"
      using h by (simp_all add: p takeWhile_append2 dropWhile_append2)
  qed
  have tp: "TrimPrefix (''http://'' @ s) ''http://'' = s" for s by (simp add: TrimPrefix_def)
  have nh: "CHR ''#'' \<notin> set (path @ ''?'' @ q)" using assms(4,6) by simp
  have c: "str_cut (path @ CHR ''?'' # q) ''?'' = (path, q, True)" by (rule str_cut_at[OF assms(5)])
  show "url_parts (''http://'' @ host @ path @ ''?'' @ q) = (host, path, q)"
    unfolding url_parts_def tp Let_def tw str_cut_no[OF nh] fst_conv using c by simp
  show "url_parts (''http://'' @ host @ path) = (host, path, [])"
    using tw[of "[]"] unfolding url_parts_def tp Let_def
    by (simp only: append_Nil2 str_cut_no[OF assms(4)] fst_conv str_cut_no[OF assms(5)] prod.case)
qed

subsection \<open>Clean paths and their segments\<close>

definition path_of :: "string list \<Rightarrow> string" where
  "path_of segs = slash # str_join segs [slash]"

lemma path_of_render: "path_of segs = render True segs"
  by (simp add: path_of_def render_def)

lemma cleanPath_path_of [http_simps]:
  assumes "list_all plain_seg segs"
  shows "cleanPath (path_of segs) = path_of segs"
proof -
  note cl = plain_list_clean[OF assms, of True]
  have C: "Clean (path_of segs) = path_of segs" unfolding path_of_render by (rule Clean_render[OF cl])
  show ?thesis
  proof (cases "segs = []")
    case True
    then have "path_of segs = ''/''" by (simp add: path_of_def)
    then show ?thesis using C by (simp add: cleanPath_def)
  next
    case False
    have "last (str_join segs [slash]) \<noteq> slash" using assms False
    proof (induction segs)
      case (Cons s ss)
      have s: "s \<noteq> []" "slash \<notin> set s" using Cons.prems by (simp_all add: plain_seg_def)
      show ?case
      proof (cases "ss = []")
        case True
        have "last s \<in> set s" using s by simp
        then have "last s \<noteq> slash" using s(2) by metis
        then show ?thesis using True by simp
      next
        case False
        then have "str_join ss [slash] \<noteq> []"
          using is_rooted_render(2)[OF plain_list_clean[of ss False]] Cons.prems by (auto simp: render_def split: if_splits)
        with Cons False show ?thesis by (simp add: str_join_Cons)
      qed
    qed simp
    moreover have "str_join segs [slash] \<noteq> []"
      using is_rooted_render(2)[OF plain_list_clean[OF assms, of False]] False by (auto simp: render_def split: if_splits)
    ultimately have "last (path_of segs) \<noteq> slash" by (simp add: path_of_def)
    then show ?thesis using C by (simp add: cleanPath_def path_of_def)
  qed
qed

lemma path_of_segments [http_simps]:
  assumes "list_all plain_seg segs" "segs \<noteq> []"
  shows "str_split slash (tl (path_of segs)) = segs"
  using assms by (auto simp: path_of_def list_all_iff plain_seg_def intro!: str_split_join)

text \<open>A clean path whose segments a pattern matches is handled by that pattern.\<close>

lemma find_handler_hit:
  assumes "list_all plain_seg segs" "segs \<noteq> []" "rq_path r = path_of segs"
    and "match_path (map (\<lambda>r. (r, rt_segs r)) (filter (\<lambda>rt. rt_method rt = rq_method r) rts)) segs [] = Some (rt, vals)"
    and "\<not> is_multi (last (rt_segs rt))"
  shows "find_handler rts r = Handled (rt_handler rt) (zip (wild_names (rt_segs rt)) vals)"
proof -
  have m: "tree_match rts (rq_method r) (path_of segs) = Some (rt, vals)"
    by (simp add: tree_match_def match_method_def path_of_segments[OF assms(1,2)] assms(4))
  show ?thesis using assms(5) by (simp add: find_handler_def Let_def assms(3) cleanPath_path_of[OF assms(1)] m exactMatch_def)
qed

end
