(* ===== verification/Cache_Store.thy ===== *)
theory Cache_Store
  imports Http
begin

text \<open>
  The cache server (\<open>internal/cacheserver\<close>): \<open>store.go\<close>'s index of committed entries, its reservations
  and its blobs on disk, and \<open>handlers.go\<close>'s HTTP handlers as functions from the request's parts, the
  store and the disk to the response, the new store and the new disk. The JSON encoding of the index file
  is a pair of arguments (\<open>marshal\<close>, \<open>unmarshal\<close>); the time and the random bytes are arguments; a request
  body is given decoded, \<open>None\<close> when decoding fails.
\<close>

subsection \<open>The store\<close>

record CacheEntry =
  ce_ID :: string
  ce_Key :: string
  ce_Version :: string
  ce_Size :: int
  ce_CreatedAt :: int

record cache_store =
  cst_root :: string
  cst_index :: "CacheEntry list"
  cst_pending :: "CacheEntry smap"

definition indexPath :: "cache_store \<Rightarrow> string" where
  "indexPath s = Join [cst_root s, ''index.json'']"

definition BlobPath :: "cache_store \<Rightarrow> string \<Rightarrow> string" where
  "BlobPath s eid = Join [cst_root s, ''blobs'', eid]"

definition OpenStore :: "(string \<Rightarrow> string + CacheEntry list) \<Rightarrow> string \<Rightarrow> disk \<Rightarrow> (string + cache_store) \<times> disk" where
  "OpenStore unmarshal root d =
     (case os_MkdirAll (Join [root, ''blobs'']) d of
        Inl e \<Rightarrow> (Inl (''create cache store blobs dir: '' @ e), d)
      | Inr d1 \<Rightarrow>
          (let s = \<lparr>cst_root = root, cst_index = [], cst_pending = []\<rparr> in
           case os_ReadFile d1 (indexPath s) of
             None \<Rightarrow> (if is_dir d1 (indexPath s) then Inl ''read cache index: is a directory'' else Inr s, d1)
           | Some data \<Rightarrow>
               (case unmarshal data of
                  Inl e \<Rightarrow> (Inl (''parse cache index: '' @ e), d1)
                | Inr ix \<Rightarrow> (Inr (s\<lparr>cst_index := ix\<rparr>), d1))))"

definition hex_digit :: "nat \<Rightarrow> char" where
  "hex_digit n = (if n < 10 then char_of (48 + n) else char_of (87 + n))"

definition hex_encode :: "string \<Rightarrow> string" where
  "hex_encode bs = concat (map (\<lambda>b. [hex_digit (of_char b div 16), hex_digit (of_char b mod 16)]) bs)"

definition Reserve :: "string option \<Rightarrow> string \<Rightarrow> string \<Rightarrow> cache_store \<Rightarrow> (string + string) \<times> cache_store" where
  "Reserve rand_bytes key version s = (case rand_bytes of
     None \<Rightarrow> (Inl ''generate cache id'', s)
   | Some idBytes \<Rightarrow>
       (let eid = hex_encode idBytes;
            e = \<lparr>ce_ID = eid, ce_Key = key, ce_Version = version, ce_Size = 0, ce_CreatedAt = 0\<rparr>
        in (Inr eid, s\<lparr>cst_pending := mput eid e (cst_pending s)\<rparr>)))"

text \<open>When the index file cannot be written the entry is committed in memory all the same.\<close>

definition Commit :: "(CacheEntry list \<Rightarrow> string) \<Rightarrow> int \<Rightarrow> string \<Rightarrow> int \<Rightarrow> cache_store \<Rightarrow> disk \<Rightarrow>
    (string + unit) \<times> cache_store \<times> disk" where
  "Commit marshal now eid sz s d = (case mget (cst_pending s) eid of
     None \<Rightarrow> (Inl (''commit: unknown cache id '' @ eid @ '' (not reserved)''), s, d)
   | Some entry \<Rightarrow>
       (let s1 = s\<lparr>cst_pending := AList.delete eid (cst_pending s),
                   cst_index := cst_index s @ [entry\<lparr>ce_Size := sz, ce_CreatedAt := now\<rparr>]\<rparr>
        in case os_WriteFile (indexPath s1) (marshal (cst_index s1)) d of
             Inl e \<Rightarrow> (Inl (''write cache index: '' @ e), s1, d)
           | Inr d1 \<Rightarrow> (Inr (), s1, d1)))"

text \<open>Well-formed UTF-8, which \<open>regexp.Compile\<close> demands of a pattern.\<close>

definition cont :: "nat \<Rightarrow> bool" where
  "cont b \<longleftrightarrow> 0x80 \<le> b \<and> b \<le> 0xBF"

fun utf8_valid :: "nat list \<Rightarrow> bool" where
  "utf8_valid [] = True"
| "utf8_valid (a # r) = (if a < 0x80 then utf8_valid r else
     (case r of [] \<Rightarrow> False | b # r1 \<Rightarrow>
       if 0xC2 \<le> a \<and> a \<le> 0xDF then cont b \<and> utf8_valid r1 else
       (case r1 of [] \<Rightarrow> False | c # r2 \<Rightarrow>
         if 0xE0 \<le> a \<and> a \<le> 0xEF then
           cont b \<and> cont c \<and> (a = 0xE0 \<longrightarrow> 0xA0 \<le> b) \<and> (a = 0xED \<longrightarrow> b \<le> 0x9F) \<and> utf8_valid r2 else
         (case r2 of [] \<Rightarrow> False | e # r3 \<Rightarrow>
           0xF0 \<le> a \<and> a \<le> 0xF4 \<and> cont b \<and> cont c \<and> cont e \<and>
           (a = 0xF0 \<longrightarrow> 0x90 \<le> b) \<and> (a = 0xF4 \<longrightarrow> b \<le> 0x8F) \<and> utf8_valid r3))))"

definition valid_string :: "string \<Rightarrow> bool" where
  "valid_string s \<longleftrightarrow> utf8_valid (map of_char s)"

text \<open>The head of the entries sorted by \<open>CreatedAt\<close>, the newest first.\<close>

definition newest :: "CacheEntry list \<Rightarrow> CacheEntry" where
  "newest es = hd (sort_key (\<lambda>e. - ce_CreatedAt e) es)"

fun Find_keys :: "CacheEntry list \<Rightarrow> string \<Rightarrow> string list \<Rightarrow> string + CacheEntry option" where
  "Find_keys ix version [] = Inr None"
| "Find_keys ix version (key # keys) =
     (let exact = filter (\<lambda>e. ce_Key e = key \<and> ce_Version e = version) ix in
      if exact \<noteq> [] then Inr (Some (newest exact))
      else if \<not> valid_string key then Inl (''compile restore-key pattern for '' @ key)
      else (let prefixed = filter (\<lambda>e. ce_Version e = version \<and> HasPrefix (ce_Key e) key) ix in
            if prefixed \<noteq> [] then Inr (Some (newest prefixed)) else Find_keys ix version keys))"

definition Find :: "cache_store \<Rightarrow> string list \<Rightarrow> string \<Rightarrow> string + CacheEntry option" where
  "Find s keys version = Find_keys (cst_index s) version keys"

definition Get :: "cache_store \<Rightarrow> string \<Rightarrow> CacheEntry option" where
  "Get s eid = find (\<lambda>e. ce_ID e = eid) (cst_index s)"

subsection \<open>The handlers\<close>

record findResponse =
  fr_CacheKey :: string
  fr_ArchiveLocation :: string

record reserveRequest =
  rr_Key :: string
  rr_Version :: string

record reserveResponse =
  rs_CacheID :: string

record commitRequest =
  cr_Size :: int

datatype cache_response =
  OkEmpty
| NoContent
| Found findResponse
| CacheID reserveResponse
| Sent file_answer
| NotFound
| HttpError nat string

definition parseContentRangeStart :: "string \<Rightarrow> int" where
  "parseContentRangeStart headerValue =
     (let rest = TrimPrefix headerValue ''bytes '';
          parts = str_splitn2 (CHR ''-'') rest
      in if parts = [] then 0
         else (case parse_int64 (parts ! 0) of None \<Rightarrow> 0 | Some n \<Rightarrow> n))"

definition handleFind :: "string \<Rightarrow> string \<Rightarrow> string \<Rightarrow> cache_store \<Rightarrow> cache_response" where
  "handleFind host keysParam version s =
     (if keysParam = [] then HttpError 400 ''keys query parameter is required''
      else case Find s (str_split (CHR '','') keysParam) version of
        Inl e \<Rightarrow> HttpError 500 e
      | Inr None \<Rightarrow> NoContent
      | Inr (Some entry) \<Rightarrow> Found \<lparr>fr_CacheKey = ce_Key entry,
          fr_ArchiveLocation = ''http://'' @ host @ ''/_apis/artifactcache/artifacts/'' @ ce_ID entry\<rparr>)"

definition handleReserve :: "string option \<Rightarrow> reserveRequest option \<Rightarrow> cache_store \<Rightarrow>
    cache_response \<times> cache_store" where
  "handleReserve rand_bytes body s = (case body of
     None \<Rightarrow> (HttpError 400 ''invalid request body'', s)
   | Some req \<Rightarrow>
       (case Reserve rand_bytes (rr_Key req) (rr_Version req) s of
          (Inl e, s1) \<Rightarrow> (HttpError 500 e, s1)
        | (Inr eid, s1) \<Rightarrow> (CacheID \<lparr>rs_CacheID = eid\<rparr>, s1)))"

definition handleUpload :: "string \<Rightarrow> string \<Rightarrow> string \<Rightarrow> cache_store \<Rightarrow> disk \<Rightarrow> cache_response \<times> disk" where
  "handleUpload eid contentRange body s d =
     (case os_OpenWriteAt (BlobPath s eid) (parseContentRangeStart contentRange) body d of
        (Inl e, d1) \<Rightarrow> (HttpError 500 e, d1)
      | (Inr _, d1) \<Rightarrow> (OkEmpty, d1))"

definition handleCommit :: "(CacheEntry list \<Rightarrow> string) \<Rightarrow> int \<Rightarrow> string \<Rightarrow> commitRequest option \<Rightarrow> cache_store \<Rightarrow> disk \<Rightarrow>
    cache_response \<times> cache_store \<times> disk" where
  "handleCommit marshal now eid body s d = (case body of
     None \<Rightarrow> (HttpError 400 ''invalid request body'', s, d)
   | Some req \<Rightarrow>
       (case Commit marshal now eid (cr_Size req) s d of
          (Inl e, s1, d1) \<Rightarrow> (HttpError 500 e, s1, d1)
        | (Inr _, s1, d1) \<Rightarrow> (OkEmpty, s1, d1)))"

definition handleDownload :: "request \<Rightarrow> string \<Rightarrow> cache_store \<Rightarrow> disk \<Rightarrow> cache_response" where
  "handleDownload r eid s d = (case Get s eid of
     None \<Rightarrow> NotFound
   | Some _ \<Rightarrow> Sent (ServeFile r (BlobPath s eid) d))"

definition handleClean :: "cache_store \<Rightarrow> disk \<Rightarrow> cache_response \<times> cache_store \<times> disk" where
  "handleClean s d = (OkEmpty, s, d)"

subsection \<open>Lookup\<close>

lemma newest_in: "es \<noteq> [] \<Longrightarrow> newest es \<in> set es"
  unfolding newest_def by (metis hd_in_set set_empty set_sort)

lemma newest_max: "e \<in> set es \<Longrightarrow> ce_CreatedAt e \<le> ce_CreatedAt (newest es)"
proof -
  assume e: "e \<in> set es"
  let ?s = "sort_key (\<lambda>e. - ce_CreatedAt e) es"
  have "sorted (map (\<lambda>e. - ce_CreatedAt e) ?s)" "e \<in> set ?s" using e by simp_all
  then have "- ce_CreatedAt (hd ?s) \<le> - ce_CreatedAt e" by (cases ?s) auto
  then show ?thesis by (simp add: newest_def)
qed

text \<open>The entries of a version, and those a key matches.\<close>

definition matching :: "CacheEntry list \<Rightarrow> string \<Rightarrow> string \<Rightarrow> CacheEntry set" where
  "matching ix version key = {e \<in> set ix. ce_Version e = version \<and> HasPrefix (ce_Key e) key}"

lemma HasPrefix_refl: "HasPrefix s s"
  using HasPrefix_append[of s "[]"] by simp

text \<open>The entry a key should restore: an exact match when there is one, and the newest of its kind.\<close>

definition best_match :: "CacheEntry list \<Rightarrow> string \<Rightarrow> string \<Rightarrow> CacheEntry \<Rightarrow> bool" where
  "best_match ix version key e \<longleftrightarrow> e \<in> matching ix version key \<and>
    (\<forall>e' \<in> matching ix version key. (ce_Key e' = key \<longrightarrow> ce_Key e = key) \<and>
       ((ce_Key e = key \<longrightarrow> ce_Key e' = key) \<longrightarrow> ce_CreatedAt e' \<le> ce_CreatedAt e))"

lemma best_match_exact:
  assumes "exact = filter (\<lambda>e. ce_Key e = key \<and> ce_Version e = version) ix" "exact \<noteq> []"
  shows "best_match ix version key (newest exact)"
proof -
  have i: "ce_Key (newest exact) = key" "ce_Version (newest exact) = version" "newest exact \<in> set ix"
    using newest_in[OF assms(2)] by (simp_all add: assms(1))
  have "ce_CreatedAt e' \<le> ce_CreatedAt (newest exact)" if "e' \<in> matching ix version key" "ce_Key e' = key" for e'
    using that by (intro newest_max) (simp add: assms(1) matching_def)
  with i show ?thesis by (simp add: best_match_def matching_def HasPrefix_refl)
qed

lemma best_match_prefix:
  assumes "pre = filter (\<lambda>e. ce_Version e = version \<and> HasPrefix (ce_Key e) key) ix" "pre \<noteq> []"
    "\<forall>e \<in> set ix. \<not> (ce_Key e = key \<and> ce_Version e = version)"
  shows "best_match ix version key (newest pre)"
proof -
  have i: "newest pre \<in> matching ix version key"
    using newest_in[OF assms(2)] by (simp add: assms(1) matching_def)
  have "ce_CreatedAt e' \<le> ce_CreatedAt (newest pre)" if "e' \<in> matching ix version key" for e'
    using that by (intro newest_max) (simp add: assms(1) matching_def)
  moreover have "ce_Key e' \<noteq> key" if "e' \<in> matching ix version key" for e'
    using that assms(3) by (auto simp: matching_def)
  ultimately show ?thesis using i unfolding best_match_def by blast
qed

lemma Find_keys_Cons_hit:
  assumes "matching ix version key \<noteq> {}" "valid_string key"
  shows "\<exists>e. Find_keys ix version (key # keys) = Inr (Some e) \<and> best_match ix version key e"
proof -
  define exact where "exact = filter (\<lambda>e. ce_Key e = key \<and> ce_Version e = version) ix"
  define pre where "pre = filter (\<lambda>e. ce_Version e = version \<and> HasPrefix (ce_Key e) key) ix"
  have F: "Find_keys ix version (key # keys) = (if exact \<noteq> [] then Inr (Some (newest exact))
      else if pre \<noteq> [] then Inr (Some (newest pre)) else Find_keys ix version keys)"
    using assms(2) by (simp only: Find_keys.simps Let_def exact_def pre_def not_True_eq_False if_False)
  show ?thesis
  proof (cases "exact = []")
    case False
    with F best_match_exact[OF exact_def False] show ?thesis by simp
  next
    case True
    have ne: "pre \<noteq> []" using assms(1) by (auto simp: pre_def matching_def filter_empty_conv)
    have "\<forall>e \<in> set ix. \<not> (ce_Key e = key \<and> ce_Version e = version)"
      using True by (simp add: exact_def filter_empty_conv)
    with F True ne best_match_prefix[OF pre_def ne] show ?thesis by simp
  qed
qed

lemma Find_keys_Cons_miss:
  assumes "matching ix version key = {}"
  shows "Find_keys ix version (key # keys) =
    (if valid_string key then Find_keys ix version keys else Inl (''compile restore-key pattern for '' @ key))"
proof -
  have "filter (\<lambda>e. ce_Key e = key \<and> ce_Version e = version) ix = []"
    "filter (\<lambda>e. ce_Version e = version \<and> HasPrefix (ce_Key e) key) ix = []"
    using assms by (auto simp: matching_def filter_empty_conv HasPrefix_refl)
  then show ?thesis by (simp only: Find_keys.simps Let_def simp_thms if_False if_cancel if_not_P) simp
qed

lemma Find_keys_spec:
  assumes "list_all valid_string keys"
  shows "case Find_keys ix version keys of
      Inl _ \<Rightarrow> False
    | Inr None \<Rightarrow> \<forall>k \<in> set keys. matching ix version k = {}
    | Inr (Some e) \<Rightarrow> \<exists>ks k rest. keys = ks @ k # rest \<and> (\<forall>k' \<in> set ks. matching ix version k' = {}) \<and>
        best_match ix version k e"
  using assms
proof (induction keys)
  case (Cons key keys)
  show ?case
  proof (cases "matching ix version key = {}")
    case True
    have step: "Find_keys ix version (key # keys) = Find_keys ix version keys"
      using Find_keys_Cons_miss[OF True] Cons.prems by simp
    have IH: "list_all valid_string keys" using Cons.prems by simp
    note IH = Cons.IH[OF IH]
    show ?thesis
    proof (cases "Find_keys ix version keys")
      case (Inl e)
      with IH show ?thesis by simp
    next
      case (Inr r)
      show ?thesis
      proof (cases r)
        case None
        with IH Inr True show ?thesis unfolding step by simp
      next
        case (Some e)
        from IH[unfolded Inr Some] obtain ks k rest where
          k: "keys = ks @ k # rest" "\<forall>k' \<in> set ks. matching ix version k' = {}" "best_match ix version k e" by auto
        then have "key # keys = (key # ks) @ k # rest" "\<forall>k' \<in> set (key # ks). matching ix version k' = {}"
          using True by simp_all
        with k(3) show ?thesis unfolding step Inr Some sum.case option.case by blast
      qed
    qed
  next
    case False
    have "valid_string key" using Cons.prems by simp
    from Find_keys_Cons_hit[OF False this, of keys] obtain e where
      e: "Find_keys ix version (key # keys) = Inr (Some e)" "best_match ix version key e" by blast
    have "key # keys = [] @ key # keys" by simp
    with e(2) show ?thesis unfolding e(1) sum.case option.case by fastforce
  qed
qed simp

text \<open>C30: A cache lookup with well-formed keys never fails, and what it answers is the entry the caches
  protocol promises: the first key in the list that matches any entry of the version decides; among the
  entries it matches, one whose key is exactly that key is preferred to one it is only a prefix of, and
  within the preferred kind none is newer. A miss means no key of the list matches any entry.\<close>

theorem Find_answers_best_match:
  assumes "list_all valid_string keys"
  shows "case Find s keys version of
      Inl _ \<Rightarrow> False
    | Inr None \<Rightarrow> \<forall>k \<in> set keys. matching (cst_index s) version k = {}
    | Inr (Some e) \<Rightarrow> \<exists>ks k rest. keys = ks @ k # rest \<and>
        (\<forall>k' \<in> set ks. matching (cst_index s) version k' = {}) \<and> best_match (cst_index s) version k e"
  using Find_keys_spec[OF assms] by (simp only: Find_def)

theorem Find_answers_best_match_witness:
  "case Find \<lparr>cst_root = ''/c'', cst_index = [\<lparr>ce_ID = ''1'', ce_Key = ''npm-a'', ce_Version = ''v'',
      ce_Size = 1, ce_CreatedAt = 5\<rparr>], cst_pending = []\<rparr> [''npm-b'', ''npm-''] ''v'' of
      Inl _ \<Rightarrow> False
    | Inr None \<Rightarrow> \<forall>k \<in> {''npm-b'', ''npm-''}. matching [\<lparr>ce_ID = ''1'', ce_Key = ''npm-a'', ce_Version = ''v'',
      ce_Size = 1, ce_CreatedAt = 5\<rparr>] ''v'' k = {}
    | Inr (Some e) \<Rightarrow> \<exists>ks k rest. [''npm-b'', ''npm-''] = ks @ k # rest \<and>
        (\<forall>k' \<in> set ks. matching [\<lparr>ce_ID = ''1'', ce_Key = ''npm-a'', ce_Version = ''v'',
      ce_Size = 1, ce_CreatedAt = 5\<rparr>] ''v'' k' = {}) \<and> best_match [\<lparr>ce_ID = ''1'', ce_Key = ''npm-a'', ce_Version = ''v'',
      ce_Size = 1, ce_CreatedAt = 5\<rparr>] ''v'' k e"
proof -
  have v: "list_all valid_string [''npm-b'', ''npm-'']" by code_simp
  show ?thesis
    using Find_answers_best_match[OF v, of "\<lparr>cst_root = ''/c'', cst_index = [\<lparr>ce_ID = ''1'', ce_Key = ''npm-a'',
      ce_Version = ''v'', ce_Size = 1, ce_CreatedAt = 5\<rparr>], cst_pending = []\<rparr>" "''v''"]
    by (simp only: cache_store.simps list.set)
qed

subsection \<open>From a reservation to a download\<close>

text \<open>The requests that upload a blob: a \<open>Content-Range\<close> header and a body each.\<close>

definition upload_all :: "string \<Rightarrow> (string \<times> string) list \<Rightarrow> cache_store \<Rightarrow> disk \<Rightarrow> disk" where
  "upload_all eid reqs s d = fold (\<lambda>(h, b) d. snd (handleUpload eid h b s d)) reqs d"

definition range_chunks :: "(string \<times> string) list \<Rightarrow> (nat \<times> string) list" where
  "range_chunks reqs = map (\<lambda>(h, b). (nat (parseContentRangeStart h), b)) reqs"

text \<open>Everything before the first dash holds no dash, so the offset is never negative and no \<open>Seek\<close> fails.\<close>

lemma parseContentRangeStart_nonneg: "0 \<le> parseContentRangeStart h"
  by (auto simp: parseContentRangeStart_def Let_def split: option.split intro: parse_int64_nonneg[OF _ splitn2_head])

lemma handleUpload_eq:
  assumes "writable (BlobPath s eid) d"
  shows "fst (handleUpload eid h b s d) = OkEmpty"
    "snd (handleUpload eid h b s d) =
     snd (os_OpenWriteAt (BlobPath s eid) (int (nat (parseContentRangeStart h))) b d)"
  using assms parseContentRangeStart_nonneg[of h]
  by (simp_all add: handleUpload_def os_OpenWriteAt_ok)

lemma upload_all_eq:
  assumes "writable (BlobPath s eid) d"
  shows "upload_all eid reqs s d = disk_blob.put_all (BlobPath s eid) (range_chunks reqs) d"
  using assms
proof (induction reqs arbitrary: d)
  case Nil
  then show ?case by (simp add: upload_all_def range_chunks_def disk_blob.put_all_def)
next
  case (Cons r reqs)
  obtain h b where r: "r = (h, b)" by (cases r)
  have "writable (BlobPath s eid) (snd (handleUpload eid h b s d))"
    using Cons.prems by (simp add: handleUpload_eq disk_simps)
  from Cons.IH[OF this] show ?case
    using handleUpload_eq(2)[OF Cons.prems, of h b]
    by (simp add: r upload_all_def range_chunks_def disk_blob.put_all_def)
qed

lemma BlobPath_store [simp]:
  "BlobPath (s\<lparr>cst_pending := p\<rparr>) eid = BlobPath s eid" "BlobPath (s\<lparr>cst_index := ix\<rparr>) eid = BlobPath s eid"
  "indexPath (s\<lparr>cst_pending := p\<rparr>) = indexPath s" "indexPath (s\<lparr>cst_index := ix\<rparr>) = indexPath s"
  by (simp_all add: BlobPath_def indexPath_def)

lemma Reserve_eq: "Reserve (Some bs) key version s = (Inr (hex_encode bs),
    s\<lparr>cst_pending := mput (hex_encode bs) \<lparr>ce_ID = hex_encode bs, ce_Key = key, ce_Version = version,
      ce_Size = 0, ce_CreatedAt = 0\<rparr> (cst_pending s)\<rparr>)"
  by (simp add: Reserve_def Let_def)

lemma is_dir_upload_all:
  "writable (BlobPath s eid) d \<Longrightarrow> is_dir (upload_all eid reqs s d) q = is_dir d q"
proof (induction reqs arbitrary: d)
  case (Cons r reqs)
  obtain h b where r: "r = (h, b)" by (cases r)
  have "writable (BlobPath s eid) (snd (handleUpload eid h b s d))"
    using Cons.prems by (simp add: handleUpload_eq disk_simps)
  from Cons.IH[OF this] show ?case
    using handleUpload_eq(2)[OF Cons.prems, of h b] by (simp add: r upload_all_def disk_simps)
qed (simp add: upload_all_def)

lemma blob_of_read: "blob_of d p \<noteq> [] \<Longrightarrow> os_ReadFile d p = Some (blob_of d p)"
  by (auto simp: blob_of_def os_ReadFile_def split: option.splits)

text \<open>The life of a cache entry. Reserving leaves every lookup as it was; chunks uploaded for the
  reserved id, in any order and with any overlap, as long as they leave no byte of the content out,
  then a commit, give back exactly the content on download, and the committed entry is found under its
  key.\<close>

theorem reserve_upload_commit_download:
  assumes "handleReserve (Some bs) (Some \<lparr>rr_Key = key, rr_Version = version\<rparr>) s = (CacheID \<lparr>rs_CacheID = eid\<rparr>, s1)"
    and "writable (BlobPath s eid) d" "os_ReadFile d (BlobPath s eid) = None"
    and "writable (indexPath s) d" "BlobPath s eid \<noteq> indexPath s"
    and "content \<noteq> []" "list_all (chunk_of content) (range_chunks reqs)" "chunks_cover content (range_chunks reqs)"
    and "handleCommit marshal now eid (Some \<lparr>cr_Size = sz\<rparr>) s1 (upload_all eid reqs s1 d) = (r, s2, d2)"
    and "\<not> containsDotDot (url_path get)" "\<not> HasSuffix (url_path get) ''/index.html''"
  shows "(\<forall>keys v. Find s1 keys v = Find s keys v) \<and> r = OkEmpty \<and> handleDownload get eid s2 d2 = Sent (FileContent content) \<and>
    (\<exists>e. Find s2 [key] version = Inr (Some e) \<and> ce_Key e = key \<and> ce_Version e = version)"
proof -
  define e0 where "e0 = \<lparr>ce_ID = eid, ce_Key = key, ce_Version = version, ce_Size = 0, ce_CreatedAt = 0\<rparr>"
  from assms(1) have eid: "eid = hex_encode bs" and s1: "s1 = s\<lparr>cst_pending := mput eid e0 (cst_pending s)\<rparr>"
    by (auto simp: handleReserve_def Reserve_eq e0_def)
  let ?d1 = "upload_all eid reqs s1 d"
  define e1 where "e1 = e0\<lparr>ce_Size := sz, ce_CreatedAt := now\<rparr>"
  have w1: "writable (BlobPath s1 eid) d" using assms(2) by (simp add: s1)
  have "writable (indexPath s) ?d1"
    using assms(4) is_dir_upload_all[OF w1] by (simp add: writable_def)
  then obtain d3 where W: "os_WriteFile (indexPath s) (marshal (cst_index s @ [e1])) ?d1 = Inr d3"
    and d3: "d3 = ?d1\<lparr>disk_files := mput (indexPath s) (marshal (cst_index s @ [e1])) (disk_files ?d1)\<rparr>"
    by (simp add: os_WriteFile_def writable_def)
  have c: "r = OkEmpty \<and> d2 = d3 \<and>
      s2 = s1\<lparr>cst_pending := AList.delete eid (cst_pending s1), cst_index := cst_index s @ [e1]\<rparr>"
    using assms(9) W by (simp add: handleCommit_def Commit_def s1 e1_def Let_def)
  have "blob_of d (BlobPath s1 eid) = []" using assms(3) by (simp add: s1 blob_of_def os_ReadFile_def)
  from disk_blob.reassembles[OF w1 this assms(7,8)]
  have "blob_of ?d1 (BlobPath s eid) = content" using upload_all_eq[OF w1] by (simp add: s1)
  then have "os_ReadFile ?d1 (BlobPath s eid) = Some content" using assms(6) blob_of_read by metis
  then have rd3: "os_ReadFile d3 (BlobPath s eid) = Some content"
    unfolding d3 os_ReadFile_mput using assms(5) by (simp only: if_False)
  have dd: "d2 = d3" and s2: "s2 = s1\<lparr>cst_pending := AList.delete eid (cst_pending s1), cst_index := cst_index s @ [e1]\<rparr>"
    using c by blast+
  have "BlobPath s2 eid = BlobPath s eid" unfolding s2 s1 by (simp only: BlobPath_store)
  with rd3 dd have rd: "os_ReadFile d2 (BlobPath s2 eid) = Some content" by simp
  have "ce_ID e1 = eid" by (simp add: e1_def e0_def)
  then have "find (\<lambda>e. ce_ID e = eid) (cst_index s @ [e1]) \<noteq> None"
    unfolding find_None_iff by auto
  then have "Get s2 eid \<noteq> None" unfolding s2 Get_def by simp
  with rd have dl: "handleDownload get eid s2 d2 = Sent (FileContent content)"
    using assms(10,11) by (auto simp: handleDownload_def ServeFile_def split: option.splits)
  define exact where "exact = filter (\<lambda>e. ce_Key e = key \<and> ce_Version e = version) (cst_index s2)"
  have ne: "exact \<noteq> []" by (simp add: exact_def s2 e1_def e0_def)
  have "Find s2 [key] version = Inr (Some (newest exact))"
    using ne by (simp only: Find_def Find_keys.simps Let_def exact_def if_True not_False_eq_True)
  moreover have "ce_Key (newest exact) = key" "ce_Version (newest exact) = version"
    using newest_in[OF ne] by (simp_all add: exact_def)
  moreover have "\<forall>keys v. Find s1 keys v = Find s keys v" by (simp add: Find_def s1)
  ultimately show ?thesis using c dl by blast
qed

definition sample_cache :: cache_store where
  "sample_cache = \<lparr>cst_root = ''/c'', cst_index = [], cst_pending = []\<rparr>"

definition sample_disk :: disk where
  "sample_disk = \<lparr>disk_files = [], disk_dirs = [''/'', ''/c'', ''/c/blobs'']\<rparr>"

definition sample_reserved :: cache_store where
  "sample_reserved = snd (handleReserve (Some [CHR 0x0A]) (Some \<lparr>rr_Key = ''k'', rr_Version = ''v''\<rparr>) sample_cache)"

definition sample_get :: "string \<Rightarrow> request" where
  "sample_get path = \<lparr>rq_method = ''GET'', rq_host = ''localhost'', rq_path = path, rq_query = [], rq_headers = [], rq_body = []\<rparr>"

theorem reserve_upload_commit_download_witness:
  "\<exists>r s2 d2. handleCommit (\<lambda>_. ''ix'') 7 ''0a'' (Some \<lparr>cr_Size = 2\<rparr>) sample_reserved
      (upload_all ''0a'' [(''bytes 1-1/*'', ''b''), ([], ''a'')] sample_reserved sample_disk) = (r, s2, d2) \<and>
    handleDownload (sample_get ''/_apis/artifactcache/artifacts/0a'') ''0a'' s2 d2 = Sent (FileContent ''ab'')"
proof -
  let ?reqs = "[(''bytes 1-1/*'', ''b''), ([], ''a'')]"
  obtain r s2 d2 where c: "handleCommit (\<lambda>_. ''ix'') 7 ''0a'' (Some \<lparr>cr_Size = 2\<rparr>) sample_reserved
      (upload_all ''0a'' ?reqs sample_reserved sample_disk) = (r, s2, d2)" by (rule prod_cases3)
  have h: "handleReserve (Some [CHR 0x0A]) (Some \<lparr>rr_Key = ''k'', rr_Version = ''v''\<rparr>) sample_cache =
      (CacheID \<lparr>rs_CacheID = ''0a''\<rparr>, sample_reserved)"
    by code_simp
  have w: "writable (BlobPath sample_cache ''0a'') sample_disk" by code_simp
  have n: "os_ReadFile sample_disk (BlobPath sample_cache ''0a'') = None" by code_simp
  have w': "writable (indexPath sample_cache) sample_disk" by code_simp
  have ne: "BlobPath sample_cache ''0a'' \<noteq> indexPath sample_cache" by code_simp
  have ch: "list_all (chunk_of ''ab'') (range_chunks ?reqs)" by code_simp
  have cv: "chunks_cover ''ab'' (range_chunks ?reqs)" by code_simp
  have nn: "''ab'' \<noteq> []" by simp
  have g: "\<not> containsDotDot (url_path (sample_get ''/_apis/artifactcache/artifacts/0a''))"
    "\<not> HasSuffix (url_path (sample_get ''/_apis/artifactcache/artifacts/0a'')) ''/index.html''" by code_simp+
  show ?thesis using c reserve_upload_commit_download[OF h w n w' ne nn ch cv c g] by blast
qed

subsection \<open>Restarting, and what an identifier can reach\<close>

lemma indexPath_root:
  assumes "list_all plain_seg R" "cst_root s = render True R"
  shows "indexPath s = render True (R @ [''index.json''])"
proof -
  have "list_all plain_seg (R @ [''index.json''])" using assms(1) by (simp add: plain_seg_def)
  then have cl: "clean_segs True (R @ [''index.json'']) = R @ [''index.json'']"
    by (intro clean_segs_id plain_list_clean)
  have "str_split slash (str_join [''index.json''] [slash]) = [''index.json'']" by code_simp
  then show ?thesis using Join_root[OF assms(1), of "[''index.json'']" "[''index.json'']"]
    by (simp add: indexPath_def assms(2) cl)
qed

lemma index_not_above_blobs:
  assumes "list_all plain_seg R" "cst_root s = render True R"
  shows "indexPath s \<notin> set (path_prefixes (Join [cst_root s, ''blobs'']))"
proof -
  have pl: "list_all plain_seg (R @ [''blobs''])" using assms(1) by (simp add: plain_seg_def)
  note cl = plain_list_clean[OF pl, of True]
  have sp: "str_split slash (str_join [''blobs''] [slash]) = [''blobs'']" by code_simp
  have J: "Join [cst_root s, ''blobs''] = render True (R @ [''blobs''])"
    using Join_root[OF assms(1), of "[''blobs'']" "[''blobs'']"] sp clean_segs_id[OF cl] by (simp add: assms(2))
  have segs: "clean_segs True (str_split slash (render True (R @ [''blobs'']))) = R @ [''blobs'']"
    unfolding split_render[OF cl] using clean_segs_id[OF cl] by (simp add: clean_segs_skip)
  have "R @ [''index.json''] \<noteq> take k (R @ [''blobs''])" for k
    by (cases "k \<le> length R") (auto dest: arg_cong[of _ _ length])
  moreover have "list_all plain_seg (take k (R @ [''blobs'']))" for k
    using pl by (metis list_all_append append_take_drop_id)
  moreover have "list_all plain_seg (R @ [''index.json''])" using assms(1) by (simp add: plain_seg_def)
  ultimately have "render True (R @ [''index.json'']) \<noteq> render True (take k (R @ [''blobs'']))" for k
    using render_inj plain_list_clean by blast
  then show ?thesis unfolding J path_prefixes_def Let_def is_rooted_render(1)[OF cl] segs indexPath_root[OF assms]
      set_map image_iff by blast
qed

text \<open>The index survives a restart: after a commit that answers without an error, opening a store on the
  same directory gives a store with the same entries and no reservations, provided that the JSON decoder
  reads back what the encoder wrote for this index.\<close>

theorem committed_index_reopens:
  assumes "Commit marshal now eid sz s d = (Inr (), s1, d1)" "clean_root (cst_root s)"
    and "\<not> list_ex (is_file d) (path_prefixes (Join [cst_root s, ''blobs'']))"
    and "unmarshal (marshal (cst_index s1)) = Inr (cst_index s1)"
  shows "\<exists>s2 d2. OpenStore unmarshal (cst_root s) d1 = (Inr s2, d2) \<and> cst_index s2 = cst_index s1 \<and>
    cst_root s2 = cst_root s \<and> cst_pending s2 = [] \<and> (\<exists>e. e \<in> set (cst_index s1) \<and> cst_index s1 = cst_index s @ [e])"
proof -
  obtain R where R: "list_all plain_seg R" "cst_root s = render True R" using clean_root_segs[OF assms(2)] .
  obtain entry where en: "mget (cst_pending s) eid = Some entry"
    using assms(1) by (auto simp: Commit_def split: option.splits)
  define e1 where "e1 = entry\<lparr>ce_Size := sz, ce_CreatedAt := now\<rparr>"
  have s1: "s1 = s\<lparr>cst_pending := AList.delete eid (cst_pending s), cst_index := cst_index s @ [e1]\<rparr>"
    and W: "os_WriteFile (indexPath s) (marshal (cst_index s1)) d = Inr d1"
    using assms(1) by (auto simp: Commit_def en Let_def e1_def split: sum.splits)
  have d1: "d1 = d\<lparr>disk_files := mput (indexPath s) (marshal (cst_index s1)) (disk_files d)\<rparr>"
    using W by (auto simp: os_WriteFile_def split: if_splits)
  have "\<not> list_ex (is_file d1) (path_prefixes (Join [cst_root s, ''blobs'']))"
    using assms(3) index_not_above_blobs[OF R] by (auto simp: list_ex_iff is_file_def d1)
  then have M: "\<exists>d2. os_MkdirAll (Join [cst_root s, ''blobs'']) d1 = Inr d2 \<and> disk_files d2 = disk_files d1"
    by (simp add: os_MkdirAll_def)
  then obtain d2 where M: "os_MkdirAll (Join [cst_root s, ''blobs'']) d1 = Inr d2" "disk_files d2 = disk_files d1"
    by blast
  let ?s = "\<lparr>cst_root = cst_root s, cst_index = [], cst_pending = []\<rparr>"
  have "os_ReadFile d2 (indexPath ?s) = Some (marshal (cst_index s1))"
    using M(2) by (simp add: os_ReadFile_def d1 indexPath_def)
  then have "OpenStore unmarshal (cst_root s) d1 = (Inr (?s\<lparr>cst_index := cst_index s1\<rparr>), d2)"
    using assms(4) by (simp add: OpenStore_def M(1) Let_def)
  then show ?thesis using s1 by simp
qed

theorem committed_index_reopens_witness:
  "\<exists>s1 d1 s2 d2. Commit (\<lambda>_. ''ix'') 7 ''0a'' 2 sample_reserved sample_disk = (Inr (), s1, d1) \<and>
    OpenStore (\<lambda>_. Inr [\<lparr>ce_ID = ''0a'', ce_Key = ''k'', ce_Version = ''v'', ce_Size = 2, ce_CreatedAt = 7\<rparr>]) ''/c'' d1 =
      (Inr s2, d2) \<and> cst_index s2 \<noteq> []"
proof -
  let ?m = "\<lambda>_. ''ix''"
  let ?u = "\<lambda>_. Inr [\<lparr>ce_ID = ''0a'', ce_Key = ''k'', ce_Version = ''v'', ce_Size = 2, ce_CreatedAt = 7\<rparr>]"
  let ?c = "Commit ?m 7 ''0a'' 2 sample_reserved sample_disk"
  have ok: "fst ?c = Inr ()" by code_simp
  have ix: "cst_index (fst (snd ?c)) = [\<lparr>ce_ID = ''0a'', ce_Key = ''k'', ce_Version = ''v'', ce_Size = 2, ce_CreatedAt = 7\<rparr>]"
    by code_simp
  have c: "?c = (Inr (), fst (snd ?c), snd (snd ?c))" by (subst ok [symmetric]) simp
  have root: "cst_root sample_reserved = ''/c''" by code_simp
  have cr: "clean_root (cst_root sample_reserved)" by code_simp
  have pr: "\<not> list_ex (is_file sample_disk) (path_prefixes (Join [cst_root sample_reserved, ''blobs'']))" by code_simp
  have rt: "?u (?m (cst_index (fst (snd ?c)))) = Inr (cst_index (fst (snd ?c)))" using ix by simp
  from committed_index_reopens[OF c cr pr, of ?u] ix c root show ?thesis
    by (metis list.distinct(1))
qed

text \<open>\<open>handleUpload\<close> asks neither whether the id was reserved nor whether it is one path segment: for every
  store, with or without reservations, an upload for the id \<open>../index.json\<close> writes its body over the
  index file of the store.\<close>

theorem upload_overwrites_index:
  assumes "clean_root (cst_root s)" "writable (indexPath s) d"
  shows "os_ReadFile (snd (handleUpload ''../index.json'' [] body s d)) (indexPath s) =
      Some (write_at 0 body (blob_of d (indexPath s)))"
proof -
  obtain R where R: "list_all plain_seg R" "cst_root s = render True R" using clean_root_segs[OF assms(1)] .
  have sp: "str_split slash (str_join [''blobs'', ''../index.json''] [slash]) = [''blobs'', ''..'', ''index.json'']"
    by code_simp
  have "clean_segs True (R @ [''blobs'', ''..'', ''index.json'']) = R @ [''index.json'']"
    using clean_segs_plain[OF R(1), of True "[]"] by (simp add: clean_segs_def clean_seg_def)
  then have B: "BlobPath s ''../index.json'' = indexPath s"
    unfolding indexPath_root[OF R] BlobPath_def R(2)
    using Join_root[OF R(1), of "[''blobs'', ''../index.json'']" "[''blobs'', ''../index.json'']"] sp by simp
  have p0: "parseContentRangeStart [] = 0" by code_simp
  show "os_ReadFile (snd (handleUpload ''../index.json'' [] body s d)) (indexPath s) =
      Some (write_at 0 body (blob_of d (indexPath s)))"
    using assms(2) B by (simp add: handleUpload_eq os_OpenWriteAt_ok os_ReadFile_mput p0)
qed

theorem upload_overwrites_index_witness:
  "os_ReadFile (snd (handleUpload ''../index.json'' [] ''x'' sample_cache sample_disk)) ''/c/index.json'' = Some ''x''"
proof -
  have cr: "clean_root (cst_root sample_cache)" by code_simp
  have w: "writable (indexPath sample_cache) sample_disk" by code_simp
  have ip: "indexPath sample_cache = ''/c/index.json''" by code_simp
  have wr: "write_at 0 ''x'' (blob_of sample_disk ''/c/index.json'') = ''x''" by code_simp
  show ?thesis using upload_overwrites_index[OF cr w, of "''x''"] unfolding ip wr .
qed

end
