(* ===== verification/Cache_Server.thy ===== *)
theory Cache_Server
  imports Cache_Store
begin

text \<open>
  The cache server as its clients see it: the routes of \<open>NewHandler\<close> (\<open>cacheserver/handlers.go\<close>) over requests,
  \<open>Start\<close>, \<open>Port\<close> and \<open>Stop\<close> (\<open>server.go\<close>), and the refinement of an abstract cache that knows no paths and no
  disk. A request is handled in one step: the store's mutex serialises its operations, and uploads of different
  blobs touch different files.
\<close>

subsection \<open>handlers.go: routes\<close>

datatype cache_route = RFind | RReserve | RUpload | RCommit | RDownload | RClean

definition cache_routes :: "cache_route route list" where
  "cache_routes =
     [HandleFunc ''GET /_apis/artifactcache/cache'' RFind,
      HandleFunc ''POST /_apis/artifactcache/caches'' RReserve,
      HandleFunc ''PATCH /_apis/artifactcache/caches/{id}'' RUpload,
      HandleFunc ''POST /_apis/artifactcache/caches/{id}'' RCommit,
      HandleFunc ''GET /_apis/artifactcache/artifacts/{id}'' RDownload,
      HandleFunc ''POST /_apis/artifactcache/clean'' RClean]"

text \<open>The JSON library, and what a request finds when it arrives: the time and 16 random bytes.\<close>

record cache_json =
  cj_marshal :: "CacheEntry list \<Rightarrow> string"
  cj_unmarshal :: "string \<Rightarrow> string + CacheEntry list"
  cj_reserve :: "string \<Rightarrow> reserveRequest option"
  cj_commit :: "string \<Rightarrow> commitRequest option"

record arrival =
  ar_now :: int
  ar_rand :: "string option"

type_synonym cache_state = "cache_store \<times> disk"

definition run_route :: "cache_json \<Rightarrow> arrival \<Rightarrow> request \<Rightarrow> cache_route \<Rightarrow> string \<Rightarrow> cache_state \<Rightarrow>
    cache_response \<times> cache_state" where
  "run_route j a r route eid st = (case st of (s, d) \<Rightarrow> (case route of
     RFind \<Rightarrow> (handleFind (rq_host r) (query_get r ''keys'') (query_get r ''version'') s, s, d)
   | RReserve \<Rightarrow> (case handleReserve (ar_rand a) (cj_reserve j (rq_body r)) s of (x, s1) \<Rightarrow> (x, s1, d))
   | RUpload \<Rightarrow> (case handleUpload eid (header_get r ''Content-Range'') (rq_body r) s d of (x, d1) \<Rightarrow> (x, s, d1))
   | RCommit \<Rightarrow> handleCommit (cj_marshal j) (ar_now a) eid (cj_commit j (rq_body r)) s d
   | RDownload \<Rightarrow> (handleDownload r eid s d, s, d)
   | RClean \<Rightarrow> handleClean s d))"

definition NewHandler :: "cache_json \<Rightarrow> arrival \<Rightarrow> request \<Rightarrow> cache_state \<Rightarrow>
    cache_response mux_answer \<times> cache_state" where
  "NewHandler j a r st = (case find_handler cache_routes r of
     Handled route vals \<Rightarrow> (case run_route j a r route (PathValue vals ''id'') st of (x, st1) \<Rightarrow> (Answered x, st1))
   | Redirected loc \<Rightarrow> (MovedPermanently loc, st)
   | NotAllowed ms \<Rightarrow> (MethodNotAllowed ms, st)
   | NoRoute \<Rightarrow> (PageNotFound, st))"

subsection \<open>server.go\<close>

definition Start :: "('w \<Rightarrow> (string + int) \<times> 'w) \<Rightarrow> 'w \<Rightarrow> (string + server) \<times> 'w" where
  "Start listen = listen_and_serve ''cache'' listen"

definition Port :: "server \<Rightarrow> int" where
  "Port srv = srv_port srv"

definition Stop :: "(server \<Rightarrow> 'w \<Rightarrow> 'w) \<Rightarrow> server \<Rightarrow> 'w \<Rightarrow> 'w" where
  "Stop shutdown srv = shutdown srv"

subsection \<open>What happens to a server over time\<close>

text \<open>Requests arrive, and the program ends and is started again on the same directory.\<close>

datatype cache_event = Arrives arrival request | Restarts

datatype cache_reply = Replied "cache_response mux_answer" | Restarted "string option"

definition cache_step :: "cache_json \<Rightarrow> cache_event \<Rightarrow> cache_state \<Rightarrow> cache_reply \<times> cache_state" where
  "cache_step j ev st = (case ev of
     Arrives a r \<Rightarrow> (case NewHandler j a r st of (x, st1) \<Rightarrow> (Replied x, st1))
   | Restarts \<Rightarrow> (case OpenStore (cj_unmarshal j) (cst_root (fst st)) (snd st) of
       (Inl e, d1) \<Rightarrow> (Restarted (Some e), fst st, d1)
     | (Inr s1, d1) \<Rightarrow> (Restarted None, s1, d1)))"

subsection \<open>The abstract cache\<close>

text \<open>Blobs by id, reservations and entries; a restart forgets the reservations.\<close>

record cache_spec =
  sp_blobs :: "string \<Rightarrow> string option"
  sp_pending :: "string \<Rightarrow> CacheEntry option"
  sp_entries :: "CacheEntry list"

definition spec_upload :: "string \<Rightarrow> nat \<Rightarrow> string \<Rightarrow> cache_spec \<Rightarrow> cache_spec" where
  "spec_upload eid off body a = a\<lparr>sp_blobs := (sp_blobs a)(eid \<mapsto>
     write_at off body (case sp_blobs a eid of None \<Rightarrow> [] | Some b \<Rightarrow> b))\<rparr>"

definition spec_route :: "cache_json \<Rightarrow> arrival \<Rightarrow> request \<Rightarrow> cache_route \<Rightarrow> string \<Rightarrow> cache_spec \<Rightarrow>
    cache_response \<times> cache_spec" where
  "spec_route j a r route eid c = (case route of
     RFind \<Rightarrow>
       (if query_get r ''keys'' = [] then HttpError 400 ''keys query parameter is required''
        else case Find_keys (sp_entries c) (query_get r ''version'') (str_split (CHR '','') (query_get r ''keys'')) of
          Inl e \<Rightarrow> HttpError 500 e
        | Inr None \<Rightarrow> NoContent
        | Inr (Some e) \<Rightarrow> Found \<lparr>fr_CacheKey = ce_Key e,
            fr_ArchiveLocation = ''http://'' @ rq_host r @ ''/_apis/artifactcache/artifacts/'' @ ce_ID e\<rparr>, c)
   | RReserve \<Rightarrow> (case (cj_reserve j (rq_body r), ar_rand a) of
       (None, _) \<Rightarrow> (HttpError 400 ''invalid request body'', c)
     | (Some _, None) \<Rightarrow> (HttpError 500 ''generate cache id'', c)
     | (Some q, Some bs) \<Rightarrow> (CacheID \<lparr>rs_CacheID = hex_encode bs\<rparr>,
         c\<lparr>sp_pending := (sp_pending c)(hex_encode bs \<mapsto> \<lparr>ce_ID = hex_encode bs, ce_Key = rr_Key q,
           ce_Version = rr_Version q, ce_Size = 0, ce_CreatedAt = 0\<rparr>)\<rparr>))
   | RUpload \<Rightarrow> (OkEmpty, spec_upload eid (nat (parseContentRangeStart (header_get r ''Content-Range''))) (rq_body r) c)
   | RCommit \<Rightarrow> (case cj_commit j (rq_body r) of
       None \<Rightarrow> (HttpError 400 ''invalid request body'', c)
     | Some q \<Rightarrow> (case sp_pending c eid of
         None \<Rightarrow> (HttpError 500 (''commit: unknown cache id '' @ eid @ '' (not reserved)''), c)
       | Some e \<Rightarrow> (OkEmpty, c\<lparr>sp_pending := (sp_pending c)(eid := None),
           sp_entries := sp_entries c @ [e\<lparr>ce_Size := cr_Size q, ce_CreatedAt := ar_now a\<rparr>]\<rparr>)))
   | RDownload \<Rightarrow>
       (if list_ex (\<lambda>e. ce_ID e = eid) (sp_entries c)
        then Sent (case sp_blobs c eid of None \<Rightarrow> FileMissing | Some b \<Rightarrow> FileContent b) else NotFound, c)
   | RClean \<Rightarrow> (OkEmpty, c))"

definition spec_step :: "cache_json \<Rightarrow> cache_event \<Rightarrow> cache_spec \<Rightarrow> cache_reply \<times> cache_spec" where
  "spec_step j ev c = (case ev of
     Arrives a r \<Rightarrow> (case find_handler cache_routes r of
       Handled route vals \<Rightarrow> (case spec_route j a r route (PathValue vals ''id'') c of (x, c1) \<Rightarrow> (Replied (Answered x), c1))
     | Redirected loc \<Rightarrow> (Replied (MovedPermanently loc), c)
     | NotAllowed ms \<Rightarrow> (Replied (MethodNotAllowed ms), c)
     | NoRoute \<Rightarrow> (Replied PageNotFound, c))
   | Restarts \<Rightarrow> (Restarted None, c\<lparr>sp_pending := Map.empty\<rparr>))"

subsection \<open>The invariant\<close>

definition blobs_dir :: "cache_store \<Rightarrow> string" where
  "blobs_dir s = Join [cst_root s, ''blobs'']"

text \<open>What the JSON library keeps of an entry: strings of well-formed UTF-8. Ids are one path segment.\<close>

definition entry_ok :: "CacheEntry \<Rightarrow> bool" where
  "entry_ok e \<longleftrightarrow> plain_seg (ce_ID e) \<and> valid_string (ce_ID e) \<and> valid_string (ce_Key e) \<and> valid_string (ce_Version e)"

definition json_ok :: "cache_json \<Rightarrow> bool" where
  "json_ok j \<longleftrightarrow> (\<forall>ix. list_all entry_ok ix \<longrightarrow> cj_unmarshal j (cj_marshal j ix) = Inr ix) \<and>
     (\<forall>b q. cj_reserve j b = Some q \<longrightarrow> valid_string (rr_Key q) \<and> valid_string (rr_Version q))"

text \<open>The directories are there and hold no directory in place of a blob or of the index, the index file is what was
  last committed, and the entries are well-formed.\<close>

definition cache_inv :: "cache_json \<Rightarrow> cache_state \<Rightarrow> bool" where
  "cache_inv j st \<longleftrightarrow> (case st of (s, d) \<Rightarrow>
     clean_root (cst_root s) \<and>
     list_all (is_dir d) (path_prefixes (blobs_dir s)) \<and> \<not> list_ex (is_file d) (path_prefixes (blobs_dir s)) \<and>
     list_all (\<lambda>q. Dir q \<noteq> blobs_dir s) (disk_dirs d) \<and> \<not> is_dir d (indexPath s) \<and>
     (case os_ReadFile d (indexPath s) of None \<Rightarrow> cst_index s = [] | Some data \<Rightarrow> data = cj_marshal j (cst_index s)) \<and>
     list_all entry_ok (cst_index s) \<and> list_all (\<lambda>(k, e). entry_ok e \<and> ce_ID e = k) (cst_pending s))"

text \<open>The requests in scope: an uploaded id is one path segment (the others are in
  \<open>encoded_id_overwrites_index\<close>), a downloaded one holds no \<open>..\<close>, and the system gave 16 random bytes or none.\<close>

definition cache_scope :: "cache_event \<Rightarrow> bool" where
  "cache_scope ev \<longleftrightarrow> (case ev of Restarts \<Rightarrow> True
   | Arrives a r \<Rightarrow> (case ar_rand a of None \<Rightarrow> True | Some bs \<Rightarrow> length bs = 16) \<and>
      (case find_handler cache_routes r of
         Handled RUpload vals \<Rightarrow> plain_seg (PathValue vals ''id'')
       | Handled RDownload vals \<Rightarrow> \<not> containsDotDot (url_path r) \<and> \<not> HasSuffix (url_path r) ''/index.html''
       | _ \<Rightarrow> True))"

definition cache_abs :: "cache_state \<Rightarrow> cache_spec" where
  "cache_abs st = (case st of (s, d) \<Rightarrow>
     \<lparr>sp_blobs = (\<lambda>eid. if plain_seg eid then os_ReadFile d (BlobPath s eid) else None),
      sp_pending = mget (cst_pending s), sp_entries = cst_index s\<rparr>)"

subsubsection \<open>Where things are\<close>

lemma BlobPath_plain:
  assumes "list_all plain_seg R" "cst_root s = render True R" "plain_seg eid"
  shows "BlobPath s eid = render True (R @ [''blobs'', eid])"
proof -
  have pl: "list_all plain_seg (R @ [''blobs'', eid])" using assms(1,3) by (simp add: plain_seg_def)
  have "str_split slash (str_join [''blobs'', eid] [slash]) = [''blobs'', eid]"
    using assms(3) by (intro str_split_join) (auto simp: plain_seg_def)
  moreover have "filter (\<lambda>e. e \<noteq> []) [''blobs'', eid] = [''blobs'', eid]" using assms(3) by (simp add: plain_seg_def)
  ultimately show ?thesis
    using Join_root[OF assms(1), of "[''blobs'', eid]" "[''blobs'', eid]"] clean_segs_id[OF plain_list_clean[OF pl]]
    by (simp add: BlobPath_def assms(2))
qed

lemma blobs_dir_render:
  assumes "list_all plain_seg R" "cst_root s = render True R"
  shows "blobs_dir s = render True (R @ [''blobs''])"
proof -
  have pl: "list_all plain_seg (R @ [''blobs''])" using assms(1) by (simp add: plain_seg_def)
  have sp: "str_split slash (str_join [''blobs''] [slash]) = [''blobs'']" by code_simp
  show ?thesis
    using Join_root[OF assms(1), of "[''blobs'']" "[''blobs'']"] sp clean_segs_id[OF plain_list_clean[OF pl]]
    by (simp add: blobs_dir_def assms(2))
qed

lemma cache_paths:
  assumes "clean_root (cst_root s)" "plain_seg eid"
  shows "Dir (BlobPath s eid) = blobs_dir s" "BlobPath s eid \<noteq> indexPath s"
    "BlobPath s eid \<notin> set (path_prefixes (blobs_dir s))"
    "Dir (indexPath s) \<in> set (path_prefixes (blobs_dir s))" "blobs_dir s \<in> set (path_prefixes (blobs_dir s))"
    "indexPath s \<notin> set (path_prefixes (blobs_dir s))"
proof -
  obtain R where R: "list_all plain_seg R" "cst_root s = render True R" using clean_root_segs[OF assms(1)] .
  have pl: "list_all plain_seg ((R @ [''blobs'']) @ [eid])" "list_all plain_seg (R @ [''index.json''])"
    using R(1) assms(2) by (simp_all add: plain_seg_def)
  have pb: "list_all plain_seg (R @ [''blobs''])" using pl(1) by simp
  note b = BlobPath_plain[OF R assms(2)] blobs_dir_render[OF R] indexPath_root[OF R]
  show "Dir (BlobPath s eid) = blobs_dir s" using Dir_render[OF pl(1)] by (simp add: b)
  show "BlobPath s eid \<noteq> indexPath s"
  proof
    assume "BlobPath s eid = indexPath s"
    then have "render True ((R @ [''blobs'']) @ [eid]) = render True (R @ [''index.json''])" by (simp add: b)
    with render_inj[OF plain_list_clean[OF pl(1)] plain_list_clean[OF pl(2)]] show False by simp
  qed
  show "BlobPath s eid \<notin> set (path_prefixes (blobs_dir s))" using file_not_above[OF pl(1)] by (simp add: b)
  show "blobs_dir s \<in> set (path_prefixes (blobs_dir s))" unfolding b(2) by (rule path_prefixes_self[OF pb])
  have "render True R = render True (take (length R) (R @ [''blobs'']))" by simp
  then show "Dir (indexPath s) \<in> set (path_prefixes (blobs_dir s))"
    unfolding b Dir_render[OF pl(2)] path_prefixes_render[OF pb] set_map by fastforce
  show "indexPath s \<notin> set (path_prefixes (blobs_dir s))"
    unfolding blobs_dir_def by (rule index_not_above_blobs[OF R])
qed

lemma BlobPath_inj:
  assumes "clean_root (cst_root s)" "plain_seg a" "plain_seg b" "BlobPath s a = BlobPath s b"
  shows "a = b"
proof -
  obtain R where R: "list_all plain_seg R" "cst_root s = render True R" using clean_root_segs[OF assms(1)] .
  have "list_all plain_seg (R @ [''blobs'', a])" "list_all plain_seg (R @ [''blobs'', b])"
    using R(1) assms(2,3) by (simp_all add: plain_seg_def)
  from render_inj[OF plain_list_clean[OF this(1)] plain_list_clean[OF this(2)]] assms(4)
  show ?thesis by (simp add: BlobPath_plain[OF R assms(2)] BlobPath_plain[OF R assms(3)])
qed

text \<open>A store opened on a directory without an index starts in order.\<close>

lemma prefix_Dir:
  assumes "list_all plain_seg S" "q \<in> set (path_prefixes (render True S))" "S \<noteq> []"
  shows "Dir q \<noteq> render True S"
proof
  assume e: "Dir q = render True S"
  from assms(2) have "\<exists>k \<in> set [0..<Suc (length S)]. q = render True (take k S)"
    unfolding path_prefixes_render[OF assms(1)] set_map by blast
  then obtain k where k: "k \<le> length S" "q = render True (take k S)"
    unfolding set_upt atLeastLessThan_iff Bex_def less_Suc_eq_le by metis
  have pt: "list_all plain_seg (take n S)" for n using assms(1) by (metis append_take_drop_id list_all_append)
  show False
  proof (cases k)
    case 0
    have "Dir (render True []) = render True []" by code_simp
    then have "render True S = render True []" using e k 0 by simp
    from render_inj[OF plain_list_clean[OF assms(1)] _ this] assms(3) show False by (simp add: plain_list_clean)
  next
    case (Suc n)
    then have "take k S = take n S @ [S ! n]" using k(1) by (simp add: take_Suc_conv_app_nth)
    then have "Dir q = render True (take n S)" using Dir_render[of "take n S" "S ! n"] pt[of k] k(2) by simp
    with e render_inj[OF plain_list_clean[OF pt[of n]] plain_list_clean[OF assms(1)]] have "take n S = S" by simp
    then have "length (take n S) = length S" by simp
    with k(1) Suc show False by simp
  qed
qed

lemma opened_store_inv:
  assumes "OpenStore (cj_unmarshal j) root d = (Inr s, d1)" "clean_root root"
    and "os_ReadFile d (Join [root, ''index.json'']) = None" "list_all (\<lambda>q. Dir q \<noteq> Join [root, ''blobs'']) (disk_dirs d)"
  shows "cache_inv j (s, d1)" "cst_root s = root"
proof -
  obtain d0 where M: "os_MkdirAll (Join [root, ''blobs'']) d = Inr d0"
    using assms(1) by (auto simp: OpenStore_def split: sum.splits)
  then have d0: "d0 = d\<lparr>disk_dirs := disk_dirs d @ filter (\<lambda>q. \<not> is_dir d q) (path_prefixes (Join [root, ''blobs'']))\<rparr>"
    and nf: "\<not> list_ex (is_file d) (path_prefixes (Join [root, ''blobs'']))"
    by (auto simp: os_MkdirAll_def split: if_splits)
  have rd: "os_ReadFile d0 (Join [root, ''index.json'']) = None" using assms(3) by (simp add: d0 os_ReadFile_def)
  then have s: "s = \<lparr>cst_root = root, cst_index = [], cst_pending = []\<rparr>" and d1: "d1 = d0"
    and nd: "\<not> is_dir d0 (Join [root, ''index.json''])"
    using assms(1) by (auto simp: OpenStore_def M Let_def indexPath_def split: if_splits)
  show r: "cst_root s = root" by (simp add: s)
  obtain R where R: "list_all plain_seg R" "cst_root s = render True R" using clean_root_segs[OF assms(2)] r by metis
  have b: "blobs_dir s = Join [root, ''blobs'']" by (simp add: blobs_dir_def r)
  have pb: "list_all plain_seg (R @ [''blobs''])" using R(1) by (simp add: plain_seg_def)
  have "Dir q \<noteq> blobs_dir s" if "q \<in> set (path_prefixes (blobs_dir s))" for q
    using prefix_Dir[OF pb] that unfolding blobs_dir_render[OF R] by blast
  then have "list_all (\<lambda>q. Dir q \<noteq> blobs_dir s) (disk_dirs d0)"
    using assms(4) by (auto simp: d0 list_all_iff b)
  moreover have "list_all (is_dir d0) (path_prefixes (blobs_dir s))" by (auto simp: d0 list_all_iff is_dir_def b)
  moreover have "\<not> list_ex (is_file d0) (path_prefixes (blobs_dir s))"
    using nf by (auto simp: d0 list_ex_iff is_file_def b)
  ultimately show "cache_inv j (s, d1)" using assms(2) rd nd by (simp add: cache_inv_def d1 r indexPath_def) (simp add: s)
qed

subsubsection \<open>Identifiers\<close>

lemma hex_digit_lower: "n < 16 \<Longrightarrow> is_digit (hex_digit n) \<or> is_lower (hex_digit n)"
proof -
  have "list_all (\<lambda>n. is_digit (hex_digit n) \<or> is_lower (hex_digit n)) [0..<16]" by code_simp
  moreover assume "n < 16"
  then have "n \<in> set [0..<16]" by (simp only: set_upt atLeastLessThan_iff zero_le simp_thms)
  ultimately show "is_digit (hex_digit n) \<or> is_lower (hex_digit n)" unfolding list_all_iff by blast
qed

lemma hex_encode_chars: "list_all (\<lambda>c. is_digit c \<or> is_lower c) (hex_encode bs)"
  by (induction bs) (simp_all add: hex_encode_def hex_digit_lower of_char_div16)

lemma hex_encode_no:
  assumes "\<not> is_digit c \<and> \<not> is_lower c"
  shows "c \<notin> set (hex_encode bs)"
  using hex_encode_chars[of bs] assms by (auto simp: list_all_iff)

lemma hex_encode_plain: "bs \<noteq> [] \<Longrightarrow> plain_seg (hex_encode bs)"
proof -
  assume "bs \<noteq> []"
  then have "hex_encode bs \<noteq> []" by (cases bs) (simp_all add: hex_encode_def)
  moreover have "\<not> is_digit slash \<and> \<not> is_lower slash" "\<not> is_digit (CHR ''.'') \<and> \<not> is_lower (CHR ''.'')" by code_simp+
  then have "slash \<notin> set (hex_encode bs)" "CHR ''.'' \<notin> set (hex_encode bs)" by (simp_all only: hex_encode_no simp_thms)
  ultimately show "plain_seg (hex_encode bs)" by (auto simp: plain_seg_def)
qed

lemma utf8_ascii: "list_all (\<lambda>n. n < 128) ns \<Longrightarrow> utf8_valid ns"
  by (induction ns) auto

lemma hex_encode_valid: "valid_string (hex_encode bs)"
proof -
  have "(of_char c :: nat) < 128" if "is_digit c \<or> is_lower c" for c
    using that by (auto simp: is_digit_def is_lower_def less_eq_char_def)
  then have "list_all (\<lambda>n. n < (128::nat)) (map of_char (hex_encode bs))"
    using hex_encode_chars[of bs] by (auto simp: list_all_iff)
  then show ?thesis unfolding valid_string_def by (rule utf8_ascii)
qed

subsubsection \<open>One step\<close>

lemma inv_write_blob:
  assumes "cache_inv j (s, d)" "plain_seg eid"
  shows "cache_inv j (s, d\<lparr>disk_files := mput (BlobPath s eid) c (disk_files d)\<rparr>)"
    "cache_abs (s, d\<lparr>disk_files := mput (BlobPath s eid) c (disk_files d)\<rparr>) =
     (cache_abs (s, d))\<lparr>sp_blobs := (sp_blobs (cache_abs (s, d)))(eid \<mapsto> c)\<rparr>"
proof -
  have cr: "clean_root (cst_root s)" using assms(1) by (simp add: cache_inv_def)
  note p = cache_paths[OF cr assms(2)]
  have "\<not> list_ex (is_file d) (path_prefixes (blobs_dir s))" using assms(1) by (simp add: cache_inv_def)
  then have "\<not> list_ex (is_file (d\<lparr>disk_files := mput (BlobPath s eid) c (disk_files d)\<rparr>)) (path_prefixes (blobs_dir s))"
    using p(3) by (auto simp: list_ex_iff is_file_def)
  then show "cache_inv j (s, d\<lparr>disk_files := mput (BlobPath s eid) c (disk_files d)\<rparr>)"
    using assms(1) p(2) by (simp add: cache_inv_def os_ReadFile_mput is_dir_files_fun)
  show "cache_abs (s, d\<lparr>disk_files := mput (BlobPath s eid) c (disk_files d)\<rparr>) =
     (cache_abs (s, d))\<lparr>sp_blobs := (sp_blobs (cache_abs (s, d)))(eid \<mapsto> c)\<rparr>"
    using BlobPath_inj[OF cr _ assms(2)] assms(2) by (auto simp: cache_abs_def disk_simps fun_eq_iff)
qed

lemma blob_writable:
  assumes "cache_inv j (s, d)" "plain_seg eid"
  shows "writable (BlobPath s eid) d"
proof -
  have cr: "clean_root (cst_root s)" using assms(1) by (simp add: cache_inv_def)
  note p = cache_paths[OF cr assms(2)]
  have "\<not> is_dir d (BlobPath s eid)" using assms(1) p(1) by (auto simp: cache_inv_def is_dir_def list_all_iff)
  moreover have "is_dir d (blobs_dir s)" using assms(1) p(5) by (simp add: cache_inv_def list_all_iff)
  ultimately show ?thesis by (simp add: writable_def p(1))
qed

lemma index_writable:
  assumes "cache_inv j (s, d)"
  shows "writable (indexPath s) d"
proof -
  have cr: "clean_root (cst_root s)" using assms(1) by (simp add: cache_inv_def)
  have "plain_seg ''x''" by code_simp
  note p = cache_paths[OF cr this]
  show ?thesis using assms p(4) by (simp add: cache_inv_def list_all_iff writable_def)
qed

lemma upload_step:
  assumes "cache_inv j (s, d)" "plain_seg eid"
  shows "fst (handleUpload eid h body s d) = OkEmpty" "cache_inv j (s, snd (handleUpload eid h body s d))"
    "cache_abs (s, snd (handleUpload eid h body s d)) =
     spec_upload eid (nat (parseContentRangeStart h)) body (cache_abs (s, d))"
proof -
  note w = blob_writable[OF assms]
  show "fst (handleUpload eid h body s d) = OkEmpty" by (rule handleUpload_eq(1)[OF w])
  have u: "snd (handleUpload eid h body s d) = d\<lparr>disk_files := mput (BlobPath s eid)
      (write_at (nat (parseContentRangeStart h)) body (blob_of d (BlobPath s eid))) (disk_files d)\<rparr>"
    unfolding handleUpload_eq(2)[OF w] by (simp add: os_OpenWriteAt_ok[OF w])
  show "cache_inv j (s, snd (handleUpload eid h body s d))" unfolding u by (rule inv_write_blob(1)[OF assms])
  have "(case sp_blobs (cache_abs (s, d)) eid of None \<Rightarrow> [] | Some b \<Rightarrow> b) = blob_of d (BlobPath s eid)"
    using assms(2) by (simp add: cache_abs_def blob_of_def os_ReadFile_def)
  then show "cache_abs (s, snd (handleUpload eid h body s d)) =
     spec_upload eid (nat (parseContentRangeStart h)) body (cache_abs (s, d))"
    unfolding u inv_write_blob(2)[OF assms] spec_upload_def by simp
qed

lemma inv_commit:
  assumes "cache_inv j (s, d)" "mget (cst_pending s) eid = Some e"
  shows "\<exists>s1 d1. Commit (cj_marshal j) now eid sz s d = (Inr (), s1, d1) \<and> cache_inv j (s1, d1) \<and>
    cache_abs (s1, d1) = (cache_abs (s, d))\<lparr>sp_pending := (sp_pending (cache_abs (s, d)))(eid := None),
      sp_entries := sp_entries (cache_abs (s, d)) @ [e\<lparr>ce_Size := sz, ce_CreatedAt := now\<rparr>]\<rparr>"
proof -
  define e1 where "e1 = e\<lparr>ce_Size := sz, ce_CreatedAt := now\<rparr>"
  define s1 where "s1 = s\<lparr>cst_pending := AList.delete eid (cst_pending s), cst_index := cst_index s @ [e1]\<rparr>"
  define d1 where "d1 = d\<lparr>disk_files := mput (indexPath s) (cj_marshal j (cst_index s1)) (disk_files d)\<rparr>"
  have cr: "clean_root (cst_root s)" using assms(1) by (simp add: cache_inv_def)
  have px: "plain_seg ''x''" by code_simp
  have ix: "indexPath s1 = indexPath s" "blobs_dir s1 = blobs_dir s" "\<And>i. BlobPath s1 i = BlobPath s i"
    by (simp_all add: s1_def blobs_dir_def)
  have "os_WriteFile (indexPath s) (cj_marshal j (cst_index s1)) d = Inr d1"
    using index_writable[OF assms(1)] by (simp add: os_WriteFile_def writable_def d1_def)
  then have C: "Commit (cj_marshal j) now eid sz s d = (Inr (), s1, d1)"
    by (simp add: Commit_def assms(2) s1_def e1_def Let_def)
  have "(eid, e) \<in> set (cst_pending s)" using assms(2) by (rule map_of_SomeD)
  then have "entry_ok e" using assms(1) by (auto simp: cache_inv_def list_all_iff)
  then have e1: "entry_ok e1" by (simp add: e1_def entry_ok_def)
  have "\<not> list_ex (is_file d1) (path_prefixes (blobs_dir s))"
    using assms(1) cache_paths(6)[OF cr px] by (auto simp: cache_inv_def d1_def list_ex_iff is_file_def)
  moreover have "is_dir d1 = is_dir d" "disk_dirs d1 = disk_dirs d" by (simp_all add: d1_def is_dir_files_fun)
  moreover have "list_all (\<lambda>(k, e). entry_ok e \<and> ce_ID e = k) (AList.delete eid (cst_pending s))"
    using assms(1) by (auto simp: cache_inv_def list_all_iff AList.delete_eq)
  moreover have "os_ReadFile d1 (indexPath s) = Some (cj_marshal j (cst_index s1))"
    by (simp add: d1_def os_ReadFile_mput)
  moreover have "cst_root s1 = cst_root s" "cst_pending s1 = AList.delete eid (cst_pending s)" "cst_index s1 = cst_index s @ [e1]"
    by (simp_all add: s1_def)
  ultimately have I: "cache_inv j (s1, d1)" using assms(1) e1 by (simp add: cache_inv_def ix)
  have "os_ReadFile d1 (BlobPath s i) = os_ReadFile d (BlobPath s i)" if "plain_seg i" for i
    using cache_paths(2)[OF cr that] by (simp add: d1_def os_ReadFile_mput)
  then have "cache_abs (s1, d1) = (cache_abs (s, d))\<lparr>sp_pending := (sp_pending (cache_abs (s, d)))(eid := None),
      sp_entries := sp_entries (cache_abs (s, d)) @ [e1]\<rparr>"
    by (simp add: cache_abs_def ix fun_eq_iff) (simp add: s1_def delete_conv')
  with C I show ?thesis unfolding e1_def by blast
qed

lemma download_step:
  assumes "cache_inv j (s, d)" "\<not> containsDotDot (url_path r)" "\<not> HasSuffix (url_path r) ''/index.html''"
  shows "handleDownload r eid s d = (if list_ex (\<lambda>e. ce_ID e = eid) (sp_entries (cache_abs (s, d)))
     then Sent (case sp_blobs (cache_abs (s, d)) eid of None \<Rightarrow> FileMissing | Some b \<Rightarrow> FileContent b) else NotFound)"
proof (cases "list_ex (\<lambda>e. ce_ID e = eid) (cst_index s)")
  case False
  then have "Get s eid = None" by (auto simp: Get_def find_None_iff list_ex_iff)
  with False show ?thesis by (simp add: handleDownload_def cache_abs_def)
next
  case True
  then obtain e where e: "e \<in> set (cst_index s)" "ce_ID e = eid" by (auto simp: list_ex_iff)
  then have "Get s eid \<noteq> None" by (auto simp: Get_def find_None_iff)
  then obtain e' where g: "Get s eid = Some e'" by blast
  have pl: "plain_seg eid" using e assms(1) by (auto simp: cache_inv_def list_all_iff entry_ok_def)
  have nd: "\<not> is_dir d (BlobPath s eid)" using blob_writable[OF assms(1) pl] by (simp add: writable_def)
  have "ServeFile r (BlobPath s eid) d = (case os_ReadFile d (BlobPath s eid) of None \<Rightarrow> FileMissing | Some b \<Rightarrow> FileContent b)"
    using assms(2,3) nd by (simp add: ServeFile_def split: option.split)
  then show ?thesis using True pl by (simp add: handleDownload_def g cache_abs_def)
qed

lemma restart_step:
  assumes "cache_inv j (s, d)" "json_ok j"
  shows "\<exists>s1. OpenStore (cj_unmarshal j) (cst_root s) d = (Inr s1, d) \<and> cache_inv j (s1, d) \<and>
    cache_abs (s1, d) = (cache_abs (s, d))\<lparr>sp_pending := Map.empty\<rparr>"
proof -
  define s1 where "s1 = \<lparr>cst_root = cst_root s, cst_index = cst_index s, cst_pending = []\<rparr>"
  let ?s0 = "\<lparr>cst_root = cst_root s, cst_index = [], cst_pending = []\<rparr>"
  have "d\<lparr>disk_dirs := disk_dirs d @ filter (\<lambda>q. \<not> is_dir d q) (path_prefixes (blobs_dir s))\<rparr> = d"
    using assms(1) by (auto simp: cache_inv_def list_all_iff filter_empty_conv intro!: disk.equality)
  then have M: "os_MkdirAll (Join [cst_root s, ''blobs'']) d = Inr d"
    using assms(1) by (simp add: os_MkdirAll_def cache_inv_def flip: blobs_dir_def)
  have ip: "indexPath ?s0 = indexPath s" "indexPath s1 = indexPath s" "blobs_dir s1 = blobs_dir s" "\<And>i. BlobPath s1 i = BlobPath s i"
    by (simp_all add: indexPath_def s1_def blobs_dir_def BlobPath_def)
  have nd: "\<not> is_dir d (indexPath s)" using assms(1) by (simp add: cache_inv_def)
  have O: "OpenStore (cj_unmarshal j) (cst_root s) d = (Inr s1, d)"
  proof (cases "os_ReadFile d (indexPath s)")
    case None
    then have "cst_index s = []" using assms(1) by (simp add: cache_inv_def)
    then show ?thesis using None nd by (simp add: OpenStore_def M Let_def ip(1) s1_def)
  next
    case (Some data)
    then have "cj_unmarshal j data = Inr (cst_index s)"
      using assms by (simp add: cache_inv_def json_ok_def)
    then show ?thesis using Some by (simp add: OpenStore_def M Let_def ip(1) s1_def)
  qed
  have f: "cst_root s1 = cst_root s" "cst_index s1 = cst_index s" "cst_pending s1 = []" by (simp_all add: s1_def)
  have "cache_inv j (s1, d)" using assms(1) by (simp add: cache_inv_def ip f cong: option.case_cong)
  moreover have "cache_abs (s1, d) = (cache_abs (s, d))\<lparr>sp_pending := Map.empty\<rparr>"
    by (simp add: cache_abs_def ip f cong: if_cong)
  ultimately show ?thesis using O by blast
qed

lemma reserve_step:
  assumes "cache_inv j (s, d)" "json_ok j" "case rnd of None \<Rightarrow> True | Some bs \<Rightarrow> length bs = 16"
  shows "cache_inv j (snd (handleReserve rnd (cj_reserve j body) s), d)"
proof (cases "cj_reserve j body")
  case None
  then show ?thesis using assms(1) by (simp add: handleReserve_def)
next
  case (Some q)
  show ?thesis
  proof (cases rnd)
    case None
    then show ?thesis using assms(1) Some by (simp add: handleReserve_def Reserve_def)
  next
    case (Some bs)
    define e where "e = \<lparr>ce_ID = hex_encode bs, ce_Key = rr_Key q, ce_Version = rr_Version q, ce_Size = 0, ce_CreatedAt = 0\<rparr>"
    have "valid_string (rr_Key q)" "valid_string (rr_Version q)"
      using assms(2) \<open>cj_reserve j body = Some q\<close> unfolding json_ok_def by blast+
    moreover have "bs \<noteq> []" using assms(3) Some by auto
    ultimately have "entry_ok e" by (simp add: entry_ok_def e_def hex_encode_plain hex_encode_valid)
    moreover have "set (mput k v m) \<subseteq> insert (k, v) (set m)" for k and v :: CacheEntry and m
      by (induction m) auto
    ultimately have "list_all (\<lambda>(k, e). entry_ok e \<and> ce_ID e = k) (mput (hex_encode bs) e (cst_pending s))"
      using assms(1) by (fastforce simp: cache_inv_def list_all_iff e_def)
    then show ?thesis using assms(1) \<open>cj_reserve j body = Some q\<close> Some
      by (simp add: handleReserve_def Reserve_eq cache_inv_def blobs_dir_def e_def cong: option.case_cong)
  qed
qed

lemma route_step:
  assumes "cache_inv j (s, d)" "json_ok j" "case ar_rand a of None \<Rightarrow> True | Some bs \<Rightarrow> length bs = 16"
    and "route = RUpload \<Longrightarrow> plain_seg eid"
    and "route = RDownload \<Longrightarrow> \<not> containsDotDot (url_path r) \<and> \<not> HasSuffix (url_path r) ''/index.html''"
  shows "cache_inv j (snd (run_route j a r route eid (s, d)))"
    "spec_route j a r route eid (cache_abs (s, d)) =
      (fst (run_route j a r route eid (s, d)), cache_abs (snd (run_route j a r route eid (s, d))))"
proof -
  have "cache_inv j (snd (run_route j a r route eid (s, d))) \<and>
    spec_route j a r route eid (cache_abs (s, d)) =
      (fst (run_route j a r route eid (s, d)), cache_abs (snd (run_route j a r route eid (s, d))))"
  proof (cases route)
    case RFind
    then show ?thesis using assms(1)
      by (simp add: run_route_def spec_route_def handleFind_def Find_def cache_abs_def split: sum.split option.split)
  next
    case RReserve
    then show ?thesis using reserve_step[OF assms(1-3), of "rq_body r"]
      by (auto simp: run_route_def spec_route_def handleReserve_def Reserve_def cache_abs_def Let_def fun_eq_iff
          split: option.splits)
  next
    case RUpload
    from upload_step[OF assms(1) assms(4)[OF this]] RUpload show ?thesis
      by (simp add: run_route_def spec_route_def split: prod.split) (metis fst_conv snd_conv)
  next
    case RCommit
    show ?thesis
    proof (cases "cj_commit j (rq_body r)")
      case None
      then show ?thesis using RCommit assms(1) by (simp add: run_route_def spec_route_def handleCommit_def)
    next
      case (Some q)
      show ?thesis
      proof (cases "mget (cst_pending s) eid")
        case None
        then show ?thesis using RCommit Some assms(1)
          by (simp add: run_route_def spec_route_def handleCommit_def Commit_def cache_abs_def)
      next
        case p: (Some e)
        from inv_commit[OF assms(1) p, of "ar_now a" "cr_Size q"] obtain s1 d1 where
          c: "Commit (cj_marshal j) (ar_now a) eid (cr_Size q) s d = (Inr (), s1, d1)" "cache_inv j (s1, d1)"
            "cache_abs (s1, d1) = (cache_abs (s, d))\<lparr>sp_pending := (sp_pending (cache_abs (s, d)))(eid := None),
              sp_entries := sp_entries (cache_abs (s, d)) @ [e\<lparr>ce_Size := cr_Size q, ce_CreatedAt := ar_now a\<rparr>]\<rparr>"
          by blast
        have "sp_pending (cache_abs (s, d)) eid = Some e" using p by (simp add: cache_abs_def)
        with c RCommit Some show ?thesis by (simp add: run_route_def spec_route_def handleCommit_def)
      qed
    qed
  next
    case RDownload
    with download_step[OF assms(1)] assms(1,5) show ?thesis by (simp add: run_route_def spec_route_def)
  next
    case RClean
    then show ?thesis using assms(1) by (simp add: run_route_def spec_route_def handleClean_def)
  qed
  then show "cache_inv j (snd (run_route j a r route eid (s, d)))"
    "spec_route j a r route eid (cache_abs (s, d)) =
      (fst (run_route j a r route eid (s, d)), cache_abs (snd (run_route j a r route eid (s, d))))" by blast+
qed

lemma cache_step_refines:
  assumes "json_ok j" "cache_inv j st" "cache_scope ev"
  shows "cache_inv j (snd (cache_step j ev st))"
    "spec_step j ev (cache_abs st) = (fst (cache_step j ev st), cache_abs (snd (cache_step j ev st)))"
proof -
  obtain s d where st: "st = (s, d)" by (cases st)
  note inv = assms(2)[unfolded st]
  have "cache_inv j (snd (cache_step j ev st)) \<and>
    spec_step j ev (cache_abs st) = (fst (cache_step j ev st), cache_abs (snd (cache_step j ev st)))"
  proof (cases ev)
    case Restarts
    from restart_step[OF inv assms(1)] Restarts show ?thesis by (auto simp: cache_step_def spec_step_def st)
  next
    case (Arrives a r)
    show ?thesis
    proof (cases "find_handler cache_routes r")
      case (Handled route vals)
      let ?id = "PathValue vals ''id''"
      have sc: "case ar_rand a of None \<Rightarrow> True | Some bs \<Rightarrow> length bs = 16" "route = RUpload \<Longrightarrow> plain_seg ?id"
        "route = RDownload \<Longrightarrow> \<not> containsDotDot (url_path r) \<and> \<not> HasSuffix (url_path r) ''/index.html''"
        using assms(3) by (auto simp: cache_scope_def Arrives Handled)
      from route_step[OF inv assms(1) sc(1), of route ?id r] sc(2,3) show ?thesis
        by (simp add: cache_step_def spec_step_def Arrives NewHandler_def Handled st split: prod.split)
          (metis fst_conv snd_conv)
    qed (use inv in \<open>simp_all add: cache_step_def spec_step_def Arrives NewHandler_def st\<close>)
  qed
  then show "cache_inv j (snd (cache_step j ev st))"
    "spec_step j ev (cache_abs st) = (fst (cache_step j ev st), cache_abs (snd (cache_step j ev st)))" by blast+
qed

text \<open>The server refines the abstract cache.\<close>

interpretation cache_sim: simulation "cache_step j" "spec_step j" "\<lambda>st. json_ok j \<and> cache_inv j st" cache_abs cache_scope
  for j
  by unfold_locales (simp_all add: cache_step_refines)

subsection \<open>Requests and their handlers\<close>

lemma cache_routes_eq: "cache_routes =
  [\<lparr>rt_method = ''GET'', rt_segs = [Lit ''_apis'', Lit ''artifactcache'', Lit ''cache''], rt_handler = RFind\<rparr>,
   \<lparr>rt_method = ''POST'', rt_segs = [Lit ''_apis'', Lit ''artifactcache'', Lit ''caches''], rt_handler = RReserve\<rparr>,
   \<lparr>rt_method = ''PATCH'', rt_segs = [Lit ''_apis'', Lit ''artifactcache'', Lit ''caches'', Wild ''id''], rt_handler = RUpload\<rparr>,
   \<lparr>rt_method = ''POST'', rt_segs = [Lit ''_apis'', Lit ''artifactcache'', Lit ''caches'', Wild ''id''], rt_handler = RCommit\<rparr>,
   \<lparr>rt_method = ''GET'', rt_segs = [Lit ''_apis'', Lit ''artifactcache'', Lit ''artifacts'', Wild ''id''], rt_handler = RDownload\<rparr>,
   \<lparr>rt_method = ''POST'', rt_segs = [Lit ''_apis'', Lit ''artifactcache'', Lit ''clean''], rt_handler = RClean\<rparr>]"
  by code_simp

lemma segs_plain: "list_all plain_seg [''_apis'', ''artifactcache'', ''cache'']"
  "list_all plain_seg [''_apis'', ''artifactcache'', ''caches'']" "list_all plain_seg [''_apis'', ''artifactcache'', ''artifacts'']"
  by code_simp+

lemma seg_escapes: "pathUnescape ''_apis'' = ''_apis''" "pathUnescape ''artifactcache'' = ''artifactcache''"
  "pathUnescape ''caches'' = ''caches''" "pathUnescape ''artifacts'' = ''artifacts''"
  by code_simp+

lemma api_path: "''/_apis/artifactcache/'' @ s @ ''/'' @ eid = path_of [''_apis'', ''artifactcache'', s, eid]"
  by (simp add: path_of_def)

lemma route_reserve:
  assumes "rq_method r = ''POST''" "rq_path r = ''/_apis/artifactcache/caches''"
  shows "find_handler cache_routes r = Handled RReserve []"
proof -
  have p: "rq_path r = path_of [''_apis'', ''artifactcache'', ''caches'']" unfolding assms(2) by (simp add: path_of_def)
  have m: "match_path (map (\<lambda>r. (r, rt_segs r)) (filter (\<lambda>rt. rt_method rt = rq_method r) cache_routes))
      [''_apis'', ''artifactcache'', ''caches''] [] =
      Some (\<lparr>rt_method = ''POST'', rt_segs = [Lit ''_apis'', Lit ''artifactcache'', Lit ''caches''], rt_handler = RReserve\<rparr>, [])"
    unfolding assms(1) by code_simp
  from find_handler_hit[OF segs_plain(2) _ p m] show ?thesis by (simp add: is_multi_def)
qed

text \<open>The routes with an id, for an id that is one segment and has nothing to decode.\<close>

definition plain_id :: "string \<Rightarrow> bool" where
  "plain_id eid \<longleftrightarrow> plain_seg eid \<and> CHR ''%'' \<notin> set eid"

lemma route_id:
  assumes "rq_path r = ''/_apis/artifactcache/'' @ s @ ''/'' @ eid" "plain_id eid"
  shows "rq_method r = ''PATCH'' \<Longrightarrow> s = ''caches'' \<Longrightarrow> find_handler cache_routes r = Handled RUpload [(''id'', eid)]"
    "rq_method r = ''POST'' \<Longrightarrow> s = ''caches'' \<Longrightarrow> find_handler cache_routes r = Handled RCommit [(''id'', eid)]"
    "rq_method r = ''GET'' \<Longrightarrow> s = ''artifacts'' \<Longrightarrow> find_handler cache_routes r = Handled RDownload [(''id'', eid)]"
proof -
  have e: "pathUnescape eid = eid" "eid \<noteq> ''/''" "eid \<noteq> []" using assms(2) by (auto simp: plain_id_def plain_seg_def pathUnescape_plain)
  have pl: "list_all plain_seg [''_apis'', ''artifactcache'', s, eid]" if "s \<in> {''caches'', ''artifacts''}"
    using assms(2) that by (auto simp: plain_id_def) (code_simp)+
  note p = assms(1)[unfolded api_path]
  note sim = cache_routes_eq next_lit_def next_wild_def multi_route_def map_filter_simps seg_escapes e Let_def
  { assume a: "rq_method r = ''PATCH''" "s = ''caches''"
    have m: "match_path (map (\<lambda>r. (r, rt_segs r)) (filter (\<lambda>rt. rt_method rt = rq_method r) cache_routes))
        [''_apis'', ''artifactcache'', s, eid] [] = Some (\<lparr>rt_method = ''PATCH'',
          rt_segs = [Lit ''_apis'', Lit ''artifactcache'', Lit ''caches'', Wild ''id''], rt_handler = RUpload\<rparr>, [eid])"
      unfolding a by (simp add: sim)
    from find_handler_hit[OF pl _ p m] a(2) show "find_handler cache_routes r = Handled RUpload [(''id'', eid)]"
      by (simp add: is_multi_def) }
  { assume a: "rq_method r = ''POST''" "s = ''caches''"
    have m: "match_path (map (\<lambda>r. (r, rt_segs r)) (filter (\<lambda>rt. rt_method rt = rq_method r) cache_routes))
        [''_apis'', ''artifactcache'', s, eid] [] = Some (\<lparr>rt_method = ''POST'',
          rt_segs = [Lit ''_apis'', Lit ''artifactcache'', Lit ''caches'', Wild ''id''], rt_handler = RCommit\<rparr>, [eid])"
      unfolding a by (simp add: sim)
    from find_handler_hit[OF pl _ p m] a(2) show "find_handler cache_routes r = Handled RCommit [(''id'', eid)]"
      by (simp add: is_multi_def) }
  { assume a: "rq_method r = ''GET''" "s = ''artifacts''"
    have m: "match_path (map (\<lambda>r. (r, rt_segs r)) (filter (\<lambda>rt. rt_method rt = rq_method r) cache_routes))
        [''_apis'', ''artifactcache'', s, eid] [] = Some (\<lparr>rt_method = ''GET'',
          rt_segs = [Lit ''_apis'', Lit ''artifactcache'', Lit ''artifacts'', Wild ''id''], rt_handler = RDownload\<rparr>, [eid])"
      unfolding a by (simp add: sim)
    from find_handler_hit[OF pl _ p m] a(2) show "find_handler cache_routes r = Handled RDownload [(''id'', eid)]"
      by (simp add: is_multi_def) }
qed

subsection \<open>What the abstract cache keeps\<close>

text \<open>The chunks that requests upload for an id, and whether an event can take a reservation away.\<close>

definition upload_of :: "string \<Rightarrow> cache_event \<Rightarrow> (nat \<times> string) option" where
  "upload_of eid ev = (case ev of Restarts \<Rightarrow> None
   | Arrives a r \<Rightarrow> (case find_handler cache_routes r of
       Handled RUpload vals \<Rightarrow> if PathValue vals ''id'' = eid
         then Some (nat (parseContentRangeStart (header_get r ''Content-Range'')), rq_body r) else None
     | _ \<Rightarrow> None))"

definition uploads :: "string \<Rightarrow> cache_event list \<Rightarrow> (nat \<times> string) list" where
  "uploads eid evs = List.map_filter (upload_of eid) evs"

definition keeps_reservation :: "string \<Rightarrow> cache_event \<Rightarrow> bool" where
  "keeps_reservation eid ev \<longleftrightarrow> (case ev of Restarts \<Rightarrow> False
   | Arrives a r \<Rightarrow> (case find_handler cache_routes r of
       Handled RCommit vals \<Rightarrow> PathValue vals ''id'' \<noteq> eid | _ \<Rightarrow> True))"

definition spec_blob :: "string \<Rightarrow> cache_spec \<Rightarrow> string" where
  "spec_blob eid c = (case sp_blobs c eid of None \<Rightarrow> [] | Some b \<Rightarrow> b)"

definition reserved :: "string \<Rightarrow> cache_spec \<Rightarrow> bool" where
  "reserved eid c \<longleftrightarrow> (\<exists>e. sp_pending c eid = Some e \<and> ce_ID e = eid)"

definition committed :: "string \<Rightarrow> cache_spec \<Rightarrow> bool" where
  "committed eid c \<longleftrightarrow> list_ex (\<lambda>e. ce_ID e = eid) (sp_entries c)"

lemma spec_step_blob:
  "spec_blob eid (snd (spec_step j ev c)) =
   (case upload_of eid ev of None \<Rightarrow> spec_blob eid c | Some (off, b) \<Rightarrow> write_at off b (spec_blob eid c))"
  by (auto simp: spec_step_def upload_of_def spec_route_def spec_upload_def spec_blob_def
      split: cache_event.split routed.split cache_route.split option.split)

lemma spec_step_reserved:
  "reserved eid c \<Longrightarrow> keeps_reservation eid ev \<Longrightarrow> reserved eid (snd (spec_step j ev c))"
  by (auto simp: spec_step_def keeps_reservation_def spec_route_def spec_upload_def reserved_def
      split: cache_event.splits routed.splits cache_route.splits option.splits)

lemma spec_step_committed: "committed eid c \<Longrightarrow> committed eid (snd (spec_step j ev c))"
  by (auto simp: spec_step_def spec_route_def spec_upload_def committed_def
      split: cache_event.splits routed.splits cache_route.splits option.splits)

lemma spec_blob_all: "spec_blob eid (snd (serve_all (spec_step j) evs c)) = write_chunks (uploads eid evs) (spec_blob eid c)"
proof (induction evs arbitrary: c)
  case Nil
  then show ?case by (simp add: uploads_def write_chunks_def map_filter_simps)
next
  case (Cons ev evs)
  show ?case unfolding serve_all_Cons snd_conv Cons.IH spec_step_blob
    by (cases "upload_of eid ev") (auto simp: uploads_def write_chunks_def map_filter_simps)
qed

lemma spec_reserved_all:
  "reserved eid c \<Longrightarrow> list_all (keeps_reservation eid) evs \<Longrightarrow> reserved eid (snd (serve_all (spec_step j) evs c))"
  by (induction evs arbitrary: c) (simp_all add: serve_all_Cons spec_step_reserved)

lemma spec_committed_all: "committed eid c \<Longrightarrow> committed eid (snd (serve_all (spec_step j) evs c))"
  by (induction evs arbitrary: c) (simp_all add: serve_all_Cons spec_step_committed)

lemma str_split_subset: "w \<in> set (str_split c s) \<Longrightarrow> set w \<subseteq> set s"
proof (induction s arbitrary: w)
  case (Cons d s)
  obtain v vs where v: "str_split c s = v # vs" by (metis list.exhaust str_split_not_Nil)
  have v': "set v \<subseteq> set s" "\<And>u. u \<in> set vs \<Longrightarrow> set u \<subseteq> set s" using Cons.IH by (simp_all add: v)
  from Cons.prems consider "w = []" | "w = v" | "w = d # v" | "w \<in> set vs" by (auto simp: v split: if_splits)
  then show ?case using v' by cases auto
qed simp

lemma no_dots:
  assumes "CHR ''.'' \<notin> set p"
  shows "\<not> containsDotDot p" "\<not> HasSuffix p ''/index.html''"
proof -
  define q where "q = map (\<lambda>c. if c = CHR 0x5C then slash else c) p"
  have nq: "CHR ''.'' \<notin> set q" using assms by (auto simp: q_def)
  show "\<not> containsDotDot p"
  proof
    assume "containsDotDot p"
    then have "''..'' \<in> set (str_split slash q)" by (simp only: containsDotDot_def q_def)
    from str_split_subset[OF this] have "CHR ''.'' \<in> set q" by simp
    with nq show False by contradiction
  qed
  have "CHR ''.'' \<in> set ''/index.html''" by simp
  with assms show "\<not> HasSuffix p ''/index.html''" unfolding HasSuffix_iff by (metis Un_iff set_append)
qed

lemma hex_encode_id: "bs \<noteq> [] \<Longrightarrow> plain_id (hex_encode bs)"
proof -
  have "\<not> is_digit (CHR ''%'') \<and> \<not> is_lower (CHR ''%'')" by code_simp
  then show "bs \<noteq> [] \<Longrightarrow> plain_id (hex_encode bs)" by (simp add: plain_id_def hex_encode_plain hex_encode_no)
qed

subsection \<open>The server under any sequence of requests\<close>

text \<open>C31: Refinement. From a store in order, under every sequence of requests from any number of clients and of
  restarts, the server answers each exactly as the abstract cache does, and its disk and index stay the
  image of the abstract cache: no request reaches another blob, the index is what was committed, and a
  restart loses nothing but the reservations.\<close>

theorem cache_server_refines:
  assumes "json_ok j" "cache_inv j st" "list_all cache_scope evs"
  shows "serve_all (spec_step j) evs (cache_abs st) =
    (fst (serve_all (cache_step j) evs st), cache_abs (snd (serve_all (cache_step j) evs st)))"
  using cache_sim.serve_refines[OF _ assms(3)] assms(1,2) by blast

lemma reserve_answer:
  assumes "rq_method r = ''POST''" "rq_path r = ''/_apis/artifactcache/caches''" "ar_rand a = Some bs" "cj_reserve j (rq_body r) = Some q"
  shows "fst (spec_step j (Arrives a r) c) = Replied (Answered (CacheID \<lparr>rs_CacheID = hex_encode bs\<rparr>))"
    "reserved (hex_encode bs) (snd (spec_step j (Arrives a r) c))"
    "spec_blob eid (snd (spec_step j (Arrives a r) c)) = spec_blob eid c"
  using route_reserve[OF assms(1,2)] assms(3,4)
  by (simp_all add: spec_step_def spec_route_def reserved_def spec_blob_def)

lemma commit_answer:
  assumes "rq_method r = ''POST''" "rq_path r = ''/_apis/artifactcache/'' @ ''caches'' @ ''/'' @ eid" "plain_id eid"
    and "cj_commit j (rq_body r) = Some q" "reserved eid c"
  shows "committed eid (snd (spec_step j (Arrives a r) c))" "spec_blob eid' (snd (spec_step j (Arrives a r) c)) = spec_blob eid' c"
  using route_id(2)[OF assms(2,3,1) refl] assms(4,5)
  by (auto simp: spec_step_def spec_route_def reserved_def committed_def spec_blob_def PathValue_def)

lemma download_answer:
  assumes "rq_method r = ''GET''" "rq_path r = ''/_apis/artifactcache/'' @ ''artifacts'' @ ''/'' @ eid" "plain_id eid"
    and "committed eid c" "spec_blob eid c = content" "content \<noteq> []"
  shows "fst (spec_step j (Arrives a r) c) = Replied (Answered (Sent (FileContent content)))"
  using route_id(3)[OF assms(2,3,1) refl] assms(4-6)
  by (auto simp: spec_step_def spec_route_def committed_def spec_blob_def PathValue_def split: option.splits)

text \<open>C32: The life of a cache entry over HTTP. A reservation is answered with an id; chunks uploaded for it, in any
  order and with any overlap as long as no byte is left out, mixed with any requests of other clients, then
  a commit, then any requests that do not upload to that id, and restarts: the download of the id serves
  exactly the content.\<close>

theorem cache_http_round_trip:
  assumes "json_ok j" "cache_inv j st" "spec_blob eid (cache_abs st) = []"
    and "rq_method r1 = ''POST''" "rq_path r1 = ''/_apis/artifactcache/caches''" "cj_reserve j (rq_body r1) = Some q1"
    and "ar_rand a1 = Some bs" "length bs = 16" "eid = hex_encode bs"
    and "list_all (keeps_reservation eid) evs1"
    and "list_all (chunk_of content) (uploads eid evs1)" "chunks_cover content (uploads eid evs1)" "content \<noteq> []"
    and "rq_method r2 = ''POST''" "rq_path r2 = ''/_apis/artifactcache/caches/'' @ eid" "cj_commit j (rq_body r2) = Some q2"
    and "uploads eid evs2 = []"
    and "rq_method r3 = ''GET''" "rq_path r3 = ''/_apis/artifactcache/artifacts/'' @ eid"
    and "list_all cache_scope ((Arrives a1 r1 # evs1) @ (Arrives a2 r2 # evs2) @ [Arrives a3 r3])"
    and "answers = fst (serve_all (cache_step j)
      ((Arrives a1 r1 # evs1) @ (Arrives a2 r2 # evs2) @ [Arrives a3 r3]) st)"
  shows "hd answers = Replied (Answered (CacheID \<lparr>rs_CacheID = eid\<rparr>)) \<and>
    last answers = Replied (Answered (Sent (FileContent content)))"
proof -
  have ne: "bs \<noteq> []" using assms(8) by auto
  have pid: "plain_id eid" unfolding assms(9) by (rule hex_encode_id[OF ne])
  have p2: "rq_path r2 = ''/_apis/artifactcache/'' @ ''caches'' @ ''/'' @ eid"
    and p3: "rq_path r3 = ''/_apis/artifactcache/'' @ ''artifacts'' @ ''/'' @ eid" using assms(15,19) by simp_all
  let ?evs = "(Arrives a1 r1 # evs1) @ (Arrives a2 r2 # evs2) @ [Arrives a3 r3]"
  from cache_sim.serve_refines[OF _ assms(20), of j st] assms(1,2,21)
  have ans: "answers = fst (serve_all (spec_step j) ?evs (cache_abs st))" by simp
  define c1 where "c1 = snd (spec_step j (Arrives a1 r1) (cache_abs st))"
  define c2 where "c2 = snd (serve_all (spec_step j) evs1 c1)"
  define c3 where "c3 = snd (spec_step j (Arrives a2 r2) c2)"
  define c4 where "c4 = snd (serve_all (spec_step j) evs2 c3)"
  have r1: "reserved eid c1" "spec_blob eid c1 = []"
    using reserve_answer[OF assms(4,5,7,6)] assms(3,9) by (simp_all add: c1_def)
  have r2: "reserved eid c2" unfolding c2_def by (rule spec_reserved_all[OF r1(1) assms(10)])
  have "\<exists>(off, d) \<in> set (uploads eid evs1). off \<le> i \<and> i < off + length d" if "i < length content" for i
    using assms(12) that by (auto simp: chunks_cover_def list_all_iff list_ex_iff)
  then have "write_chunks (uploads eid evs1) [] = content" by (intro write_chunks_nth[OF assms(11)]) auto
  then have b2: "spec_blob eid c2 = content" unfolding c2_def spec_blob_all r1(2) .
  note k = commit_answer[OF assms(14) p2 pid assms(16) r2, where a = a2, folded c3_def]
  have c4: "committed eid c4" "spec_blob eid c4 = content"
    using spec_committed_all[OF k(1)] k(2) b2 by (simp_all add: c4_def spec_blob_all assms(17) write_chunks_def)
  have "answers = fst (spec_step j (Arrives a1 r1) (cache_abs st)) # fst (serve_all (spec_step j) evs1 c1) @
      fst (spec_step j (Arrives a2 r2) c2) # fst (serve_all (spec_step j) evs2 c3) @ [fst (spec_step j (Arrives a3 r3) c4)]"
    unfolding ans by (simp add: serve_all_Cons serve_all_append c1_def c2_def c3_def c4_def split: prod.split)
  then show ?thesis
    using reserve_answer(1)[OF assms(4,5,7,6)] download_answer[OF assms(18) p3 pid c4 assms(13)] assms(9) by simp
qed

subsection \<open>A concrete JSON library and a run\<close>

text \<open>An encoding of entries that reads back, standing for the library: every byte behind an \<open>x\<close>, a dot at the end.\<close>

fun enc_str :: "string \<Rightarrow> string" where
  "enc_str [] = ''.''"
| "enc_str (c # s) = CHR ''x'' # c # enc_str s"

fun dec_str :: "string \<Rightarrow> (string \<times> string) option" where
  "dec_str (t # c # r) = (if t = CHR ''.'' then Some ([], c # r) else map_option (\<lambda>(s, q). (c # s, q)) (dec_str r))"
| "dec_str [t] = (if t = CHR ''.'' then Some ([], []) else None)"
| "dec_str [] = None"

lemma dec_enc_str: "dec_str (enc_str s @ r) = Some (s, r)"
proof (induction s)
  case Nil
  then show ?case by (cases r) simp_all
qed simp

fun dec_strs :: "nat \<Rightarrow> string \<Rightarrow> string list option" where
  "dec_strs n [] = Some []"
| "dec_strs 0 (c # s) = None"
| "dec_strs (Suc n) (c # s) = (case dec_str (c # s) of None \<Rightarrow> None | Some (w, r) \<Rightarrow> map_option ((#) w) (dec_strs n r))"

lemma dec_enc_strs: "length ws \<le> n \<Longrightarrow> dec_strs n (concat (map enc_str ws)) = Some ws"
proof (induction ws arbitrary: n)
  case (Cons w ws)
  then obtain m where n: "n = Suc m" "length ws \<le> m" by (cases n) auto
  obtain c s where cs: "enc_str w @ concat (map enc_str ws) = c # s" by (cases w) auto
  have "dec_str (c # s) = Some (w, concat (map enc_str ws))" unfolding cs[symmetric] by (rule dec_enc_str)
  then show ?case using Cons.IH[OF n(2)] by (simp add: n cs)
qed simp

definition enc_int :: "int \<Rightarrow> string" where
  "enc_int i = (if i < 0 then ''-'' else []) @ replicate (nat \<bar>i\<bar>) (CHR ''1'')"

definition dec_int :: "string \<Rightarrow> int" where
  "dec_int s = (if HasPrefix s ''-'' then - int (length s - 1) else int (length s))"

lemma dec_enc_int: "dec_int (enc_int i) = i"
  by (cases "nat \<bar>i\<bar>") (auto simp: dec_int_def enc_int_def)

definition enc_entry :: "CacheEntry \<Rightarrow> string list" where
  "enc_entry e = [ce_ID e, ce_Key e, ce_Version e, enc_int (ce_Size e), enc_int (ce_CreatedAt e)]"

fun dec_entries :: "string list \<Rightarrow> CacheEntry list option" where
  "dec_entries (i # k # v # sz # at # r) = map_option ((#) \<lparr>ce_ID = i, ce_Key = k, ce_Version = v, ce_Size = dec_int sz,
     ce_CreatedAt = dec_int at\<rparr>) (dec_entries r)"
| "dec_entries [] = Some []"
| "dec_entries _ = None"

lemma dec_enc_entries: "dec_entries (concat (map enc_entry es)) = Some es"
  by (induction es) (simp_all add: enc_entry_def dec_enc_int)

definition sample_json :: cache_json where
  "sample_json = \<lparr>cj_marshal = (\<lambda>es. concat (map enc_str (concat (map enc_entry es)))),
     cj_unmarshal = (\<lambda>s. case dec_strs (length s) s of None \<Rightarrow> Inl ''syntax error''
       | Some ws \<Rightarrow> (case dec_entries ws of None \<Rightarrow> Inl ''syntax error'' | Some es \<Rightarrow> Inr es)),
     cj_reserve = (\<lambda>b. if b = ''reserve'' then Some \<lparr>rr_Key = ''k'', rr_Version = ''v''\<rparr> else None),
     cj_commit = (\<lambda>b. Some \<lparr>cr_Size = 2\<rparr>)\<rparr>"

lemma length_enc_strs: "length ws \<le> length (concat (map enc_str ws))"
proof (induction ws)
  case (Cons w ws)
  have "1 \<le> length (enc_str w)" by (cases w) simp_all
  with Cons show ?case by simp
qed simp

lemma sample_json_ok: "json_ok sample_json"
proof -
  have "valid_string ''k''" "valid_string ''v''" by code_simp+
  then show ?thesis by (auto simp: json_ok_def sample_json_def dec_enc_strs[OF length_enc_strs] dec_enc_entries split: if_splits)
qed

definition sample_request :: "string \<Rightarrow> string \<Rightarrow> string smap \<Rightarrow> string \<Rightarrow> request" where
  "sample_request meth path headers body = \<lparr>rq_method = meth, rq_host = ''localhost'', rq_path = path, rq_query = [],
     rq_headers = headers, rq_body = body\<rparr>"

definition sample_arrival :: "string \<Rightarrow> arrival" where
  "sample_arrival bs = \<lparr>ar_now = 7, ar_rand = Some bs\<rparr>"

definition sample_id :: string where
  "sample_id = hex_encode ''0123456789abcdef''"

definition sample_uploads :: "cache_event list" where
  "sample_uploads =
     [Arrives (sample_arrival ''0123456789abcdef'') (sample_request ''PATCH'' (''/_apis/artifactcache/caches/'' @ sample_id)
        [(''Content-Range'', ''bytes 1-1/*'')] ''b''),
      Arrives (sample_arrival ''fedcba9876543210'') (sample_request ''POST'' ''/_apis/artifactcache/caches'' [] ''reserve''),
      Arrives (sample_arrival ''0123456789abcdef'') (sample_request ''PATCH'' (''/_apis/artifactcache/caches/'' @ sample_id)
        [(''Content-Range'', ''bytes 0-0/*'')] ''a'')]"

definition sample_reserve :: cache_event where
  "sample_reserve = Arrives (sample_arrival ''0123456789abcdef'')
     (sample_request ''POST'' ''/_apis/artifactcache/caches'' [] ''reserve'')"

definition sample_commit :: cache_event where
  "sample_commit = Arrives (sample_arrival ''0123456789abcdef'')
     (sample_request ''POST'' (''/_apis/artifactcache/caches/'' @ sample_id) [] [])"

definition sample_download :: cache_event where
  "sample_download = Arrives (sample_arrival ''0123456789abcdef'')
     (sample_request ''GET'' (''/_apis/artifactcache/artifacts/'' @ sample_id) [] [])"

lemma sample_inv: "cache_inv sample_json (sample_cache, sample_disk)" by code_simp

lemma sample_scope:
  "list_all cache_scope ((sample_reserve # sample_uploads) @ (sample_commit # [Restarts]) @ [sample_download])"
  by code_simp

theorem cache_server_refines_witness:
  "serve_all (spec_step sample_json) (sample_reserve # sample_uploads) (cache_abs (sample_cache, sample_disk)) =
    (fst (serve_all (cache_step sample_json) (sample_reserve # sample_uploads) (sample_cache, sample_disk)),
     cache_abs (snd (serve_all (cache_step sample_json) (sample_reserve # sample_uploads) (sample_cache, sample_disk))))"
proof -
  have sc: "list_all cache_scope (sample_reserve # sample_uploads)" using sample_scope by simp
  show ?thesis by (rule cache_server_refines[OF sample_json_ok sample_inv sc])
qed

theorem cache_http_round_trip_witness:
  "last (fst (serve_all (cache_step sample_json)
      ((sample_reserve # sample_uploads) @ (sample_commit # [Restarts]) @ [sample_download]) (sample_cache, sample_disk))) =
    Replied (Answered (Sent (FileContent ''ab'')))"
proof -
  let ?a = "sample_arrival ''0123456789abcdef''"
  let ?r1 = "sample_request ''POST'' ''/_apis/artifactcache/caches'' [] ''reserve''"
  let ?r2 = "sample_request ''POST'' (''/_apis/artifactcache/caches/'' @ sample_id) [] []"
  let ?r3 = "sample_request ''GET'' (''/_apis/artifactcache/artifacts/'' @ sample_id) [] []"
  have b: "spec_blob sample_id (cache_abs (sample_cache, sample_disk)) = []" by code_simp
  have q1: "cj_reserve sample_json (rq_body ?r1) = Some \<lparr>rr_Key = ''k'', rr_Version = ''v''\<rparr>" by code_simp
  have q2: "cj_commit sample_json (rq_body ?r2) = Some \<lparr>cr_Size = 2\<rparr>" by code_simp
  have k: "list_all (keeps_reservation sample_id) sample_uploads" by code_simp
  have u: "uploads sample_id sample_uploads = [(1, ''b''), (0, ''a'')]" by code_simp
  have ch: "list_all (chunk_of ''ab'') (uploads sample_id sample_uploads)"
    "chunks_cover ''ab'' (uploads sample_id sample_uploads)" unfolding u by code_simp+
  have m: "rq_method ?r1 = ''POST''" "rq_path ?r1 = ''/_apis/artifactcache/caches''"
    "rq_method ?r2 = ''POST''" "rq_path ?r2 = ''/_apis/artifactcache/caches/'' @ sample_id"
    "rq_method ?r3 = ''GET''" "rq_path ?r3 = ''/_apis/artifactcache/artifacts/'' @ sample_id"
    "ar_rand ?a = Some ''0123456789abcdef''" "length ''0123456789abcdef'' = 16" "''ab'' \<noteq> []"
    by (simp_all add: sample_request_def sample_arrival_def)
  have u2: "uploads sample_id [Restarts] = []" by (simp add: uploads_def upload_of_def map_filter_simps)
  show ?thesis
    using cache_http_round_trip[OF sample_json_ok sample_inv b m(1,2) q1 m(7,8) sample_id_def k ch m(9) m(3,4) q2 u2 m(5,6)
        sample_scope[unfolded sample_reserve_def sample_commit_def sample_download_def] refl]
    unfolding sample_reserve_def sample_commit_def sample_download_def by blast
qed

subsection \<open>What lies outside\<close>

text \<open>C33: An encoded id reaches the index: the mux decodes \<open>..%2Findex.json\<close> as one path segment, and \<open>handleUpload\<close>
  asks neither whether the id was reserved nor whether it stays in the blob directory, so one \<open>PATCH\<close> request to any store,
  without a reservation, writes its body over the index file.\<close>

theorem encoded_id_overwrites_index:
  assumes "clean_root (cst_root s)" "writable (indexPath s) d"
    and "rq_method r = ''PATCH''" "rq_path r = ''/_apis/artifactcache/caches/..%2Findex.json''" "header_get r ''Content-Range'' = []"
  shows "os_ReadFile (snd (snd (NewHandler j a r (s, d)))) (indexPath s) =
    Some (write_at 0 (rq_body r) (blob_of d (indexPath s)))"
proof -
  have "rq_path r = path_of [''_apis'', ''artifactcache'', ''caches'', ''..%2Findex.json'']"
    unfolding assms(4) by (simp add: path_of_def)
  moreover have "list_all plain_seg [''_apis'', ''artifactcache'', ''caches'', ''..%2Findex.json'']" by code_simp
  moreover have "match_path (map (\<lambda>r. (r, rt_segs r)) (filter (\<lambda>rt. rt_method rt = rq_method r) cache_routes))
        [''_apis'', ''artifactcache'', ''caches'', ''..%2Findex.json''] [] = Some (\<lparr>rt_method = ''PATCH'',
          rt_segs = [Lit ''_apis'', Lit ''artifactcache'', Lit ''caches'', Wild ''id''], rt_handler = RUpload\<rparr>, [''../index.json''])"
    unfolding assms(3) by code_simp
  ultimately have "find_handler cache_routes r = Handled RUpload [(''id'', ''../index.json'')]"
    using find_handler_hit[of "[''_apis'', ''artifactcache'', ''caches'', ''..%2Findex.json'']" r cache_routes] by (simp add: is_multi_def)
  then have "snd (snd (NewHandler j a r (s, d))) = snd (handleUpload ''../index.json'' [] (rq_body r) s d)"
    by (simp add: NewHandler_def run_route_def PathValue_def assms(5) split: prod.split)
  with upload_overwrites_index[OF assms(1,2)] show ?thesis by simp
qed

theorem encoded_id_overwrites_index_witness:
  "os_ReadFile (snd (snd (NewHandler sample_json (sample_arrival [])
     (sample_request ''PATCH'' ''/_apis/artifactcache/caches/..%2Findex.json'' [] ''x'') (sample_cache, sample_disk)))) ''/c/index.json'' =
    Some ''x''"
proof -
  let ?r = "sample_request ''PATCH'' ''/_apis/artifactcache/caches/..%2Findex.json'' [] ''x''"
  have cr: "clean_root (cst_root sample_cache)" by code_simp
  have w: "writable (indexPath sample_cache) sample_disk" by code_simp
  have m: "rq_method ?r = ''PATCH''" "rq_path ?r = ''/_apis/artifactcache/caches/..%2Findex.json''"
    "header_get ?r ''Content-Range'' = []" "rq_body ?r = ''x''" by (simp_all add: sample_request_def header_get_def)
  have i: "indexPath sample_cache = ''/c/index.json''" "write_at 0 ''x'' (blob_of sample_disk ''/c/index.json'') = ''x''"
    by code_simp+
  from encoded_id_overwrites_index[OF cr w m(1-3), of sample_json "sample_arrival []"] show ?thesis unfolding m(4) i .
qed

end
