(* ===== verification/Artifact_Store.thy ===== *)
theory Artifact_Store
  imports Http GoValue "HOL-Library.Word"
begin

unbundle bit_operations_syntax

text \<open>
  The artifact server (\<open>internal/artifactserver\<close>): \<open>storage.go\<close>'s store rooted at a directory, the v3
  protocol's handlers (\<open>v3.go\<close>) and the v4 protocol's (\<open>v4.go\<close>), as functions from the request's parts
  and the disk to the response and the new disk. Request bodies are given decoded, \<open>None\<close> when the
  JSON decoder rejects them.
\<close>

subsection \<open>storage.go\<close>

definition Resolve :: "string \<Rightarrow> string \<Rightarrow> string + string" where
  "Resolve root rel = (let cleaned = Clean rel in
     if cleaned = ''..'' \<or> HasPrefix cleaned ''../''
     then Inl (''path '' @ rel @ '' escapes the artifact store root'')
     else Inr (Join [root, cleaned]))"

definition WriteAt :: "string \<Rightarrow> string \<Rightarrow> int \<Rightarrow> string \<Rightarrow> disk \<Rightarrow> (string + unit) \<times> disk" where
  "WriteAt root rel offset body d = (case Resolve root rel of
     Inl e \<Rightarrow> (Inl e, d)
   | Inr path \<Rightarrow>
       (case os_MkdirAll (Dir path) d of
          Inl e \<Rightarrow> (Inl (''create parent dir for '' @ rel @ '': '' @ e), d)
        | Inr d1 \<Rightarrow>
            (case os_OpenWriteAt path offset body d1 of
               (Inl e, d2) \<Rightarrow> (Inl (''write '' @ rel @ '': '' @ e), d2)
             | (Inr _, d2) \<Rightarrow> (Inr (), d2))))"

definition Exists :: "string \<Rightarrow> string \<Rightarrow> disk \<Rightarrow> bool" where
  "Exists root rel d = (case Resolve root rel of Inl _ \<Rightarrow> False | Inr path \<Rightarrow> os_Stat d path)"

definition OpenArtifactStore :: "string \<Rightarrow> disk \<Rightarrow> string + disk" where
  "OpenArtifactStore root d = (case os_MkdirAll root d of
     Inl e \<Rightarrow> Inl (''create artifact store dir: '' @ e) | Inr d1 \<Rightarrow> Inr d1)"

subsection \<open>v3.go\<close>

record fileContainerResourceURL =
  fc_FileContainerResourceURL :: string

record namedFileContainerResourceURL =
  nf_Name :: string
  nf_FileContainerResourceURL :: string

record namedFileContainerResourceURLResponse =
  nr_Count :: nat
  nr_Value :: "namedFileContainerResourceURL list"

record containerItem =
  it_Path :: string
  it_ItemType :: string
  it_ContentLocation :: string

record containerItemResponse =
  ir_Value :: "containerItem list"

record responseMessage =
  rm_Message :: string

text \<open>The messages of the v4 protocol; \<open>int64\<close> fields are in the range the decoder checks.\<close>

record createArtifactRequest =
  ca_WorkflowRunBackendId :: string
  ca_WorkflowJobRunBackendId :: string
  ca_Name :: string
  ca_Version :: int

record createArtifactResponse =
  co_OK :: bool
  co_SignedUploadURL :: string

record finalizeArtifactRequest =
  fa_Name :: string
  fa_Size :: int

record finalizeArtifactResponse =
  fo_OK :: bool
  fo_ArtifactID :: int

record listArtifactsRequest =
  la_NameFilter :: string

record artifactInfo =
  ai_Name :: string
  ai_Size :: nat
  ai_CreatedAt :: string

record listArtifactsResponse =
  lo_Artifacts :: "artifactInfo list"

record getSignedArtifactURLRequest =
  gs_Name :: string

record getSignedArtifactURLResponse =
  go_SignedURL :: string

record deleteArtifactRequest =
  da_Name :: string

record deleteArtifactResponse =
  do_OK :: bool
  do_ArtifactID :: int

datatype artifact_response =
  UploadURL fileContainerResourceURL
| Acknowledged responseMessage
| NamedContainers namedFileContainerResourceURLResponse
| ContainerItems containerItemResponse
| SentFile file_answer
| SentGzip file_answer                                     \<comment> \<open>with \<open>Content-Encoding: gzip\<close>\<close>
| Missing
| Created
| CreatedArtifact createArtifactResponse
| Finalized finalizeArtifactResponse
| Artifacts listArtifactsResponse
| SignedURL getSignedArtifactURLResponse
| Deleted deleteArtifactResponse
| Failed nat string

definition v3Reserve :: "string \<Rightarrow> string \<Rightarrow> artifact_response" where
  "v3Reserve host runID = UploadURL \<lparr>fc_FileContainerResourceURL = ''http://'' @ host @ ''/upload/'' @ runID\<rparr>"

definition range_start :: "string \<Rightarrow> int" where
  "range_start headerValue =
     (let rest = TrimPrefix headerValue ''bytes '';
          parts = str_splitn2 (CHR ''-'') rest
      in if parts = [] then 0
         else (case parse_int64 (parts ! 0) of None \<Rightarrow> 0 | Some n \<Rightarrow> n))"

definition v3Upload :: "string \<Rightarrow> string \<Rightarrow> string \<Rightarrow> string \<Rightarrow> string \<Rightarrow> string \<Rightarrow> disk \<Rightarrow>
    artifact_response \<times> disk" where
  "v3Upload root runID itemPath encoding contentRange body d =
     (if itemPath = [] then (Failed 400 ''itemPath query parameter is required'', d)
      else
        (let rel0 = Join [runID, itemPath];
             rel = (if encoding = ''gzip'' then rel0 @ ''.gz__'' else rel0)
         in case WriteAt root rel (range_start contentRange) body d of
              (Inl e, d1) \<Rightarrow> (Failed 500 e, d1)
            | (Inr _, d1) \<Rightarrow> (Acknowledged \<lparr>rm_Message = ''success''\<rparr>, d1)))"

definition v3Finalize :: artifact_response where
  "v3Finalize = Acknowledged \<lparr>rm_Message = ''success''\<rparr>"

definition v3List :: "string \<Rightarrow> string \<Rightarrow> string \<Rightarrow> disk \<Rightarrow> artifact_response" where
  "v3List host root runID d = (case Resolve root runID of
     Inl e \<Rightarrow> Failed 500 e
   | Inr runDir \<Rightarrow>
       (if list_ex (is_file d) (path_prefixes runDir) then Failed 500 (''open '' @ runDir @ '': not a directory'')
        else (let names = (case os_ReadDir d runDir of None \<Rightarrow> [] | Some ns \<Rightarrow> ns);
                  value = map (\<lambda>n. \<lparr>nf_Name = TrimSuffix n ''.gz__'',
                    nf_FileContainerResourceURL = ''http://'' @ host @ ''/download/'' @ runID\<rparr>) names
              in NamedContainers \<lparr>nr_Count = length value, nr_Value = value\<rparr>)))"

text \<open>The path of a file below a directory, relative to it; \<open>.\<close> for the directory itself.\<close>

definition rel_to :: "string \<Rightarrow> string \<Rightarrow> string" where
  "rel_to dir path = (if path = dir then ''.'' else drop (length (under dir)) path)"

definition v3DownloadList :: "string \<Rightarrow> string \<Rightarrow> string \<Rightarrow> string \<Rightarrow> disk \<Rightarrow> artifact_response" where
  "v3DownloadList host root container itemPath d =
     (let base = (if itemPath \<noteq> [] then Join [container, itemPath] else container) in
      case Resolve root base of
        Inl e \<Rightarrow> Failed 500 e
      | Inr dir \<Rightarrow>
          (let pathPrefix = (if itemPath = [] then Base container else itemPath) in
           ContainerItems \<lparr>ir_Value = map (\<lambda>path.
             (let rel = rel_to dir path; displayName = TrimSuffix rel ''.gz__'' in
              \<lparr>it_Path = Join [pathPrefix, displayName], it_ItemType = ''file'',
               it_ContentLocation = ''http://'' @ host @ ''/artifact/'' @ Join [base, rel]\<rparr>))
             (WalkDir_files d dir)\<rparr>))"

definition v3DownloadArtifact :: "request \<Rightarrow> string \<Rightarrow> string \<Rightarrow> disk \<Rightarrow> artifact_response" where
  "v3DownloadArtifact r root rel d = (case Resolve root rel of
     Inl e \<Rightarrow> Failed 500 e
   | Inr path \<Rightarrow>
       (if os_Stat d path then SentFile (ServeFile r path d)
        else if os_Stat d (path @ ''.gz__'') then SentGzip (ServeFile r (path @ ''.gz__'') d)
        else Missing))"

subsection \<open>v4.go\<close>

definition v4RouteBase :: string where
  "v4RouteBase = ''/twirp/github.actions.results.api.v1.ArtifactService''"

text \<open>FNV-1a over 32 bits.\<close>

definition fnv_step :: "char \<Rightarrow> 32 word \<Rightarrow> 32 word" where
  "fnv_step c h = (h XOR of_char c) * 16777619"

definition artifactNameToID :: "string \<Rightarrow> int" where
  "artifactNameToID name = uint (fold fnv_step name 2166136261)"

definition v4BlobRel :: "string \<Rightarrow> string" where
  "v4BlobRel name = Join [name, name @ ''.zip'']"

definition v4CreateArtifact :: "string \<Rightarrow> createArtifactRequest option \<Rightarrow> artifact_response" where
  "v4CreateArtifact host body = (case body of
     None \<Rightarrow> Failed 400 ''invalid request body''
   | Some req \<Rightarrow> CreatedArtifact \<lparr>co_OK = True, co_SignedUploadURL =
       ''http://'' @ host @ v4RouteBase @ ''/UploadArtifact?artifactName='' @ QueryEscape (ca_Name req)\<rparr>)"

definition v4UploadArtifact :: "string \<Rightarrow> string \<Rightarrow> string \<Rightarrow> string \<Rightarrow> disk \<Rightarrow> artifact_response \<times> disk" where
  "v4UploadArtifact root name compParam body d =
     (if name = [] then (Failed 400 ''artifactName query parameter is required'', d)
      else if compParam = ''blocklist'' then (Created, d)
      else case WriteAt root (v4BlobRel name) 0 body d of
        (Inl e, d1) \<Rightarrow> (Failed 500 e, d1)
      | (Inr _, d1) \<Rightarrow> (Created, d1))"

definition v4FinalizeArtifact :: "finalizeArtifactRequest option \<Rightarrow> artifact_response" where
  "v4FinalizeArtifact body = (case body of
     None \<Rightarrow> Failed 400 ''invalid request body''
   | Some req \<Rightarrow> Finalized \<lparr>fo_OK = True, fo_ArtifactID = artifactNameToID (fa_Name req)\<rparr>)"

text \<open>The listing of one directory entry; the modification time of a file, as RFC 3339 text, is an argument.\<close>

definition list_entry :: "(string \<Rightarrow> string) \<Rightarrow> string \<Rightarrow> string \<Rightarrow> disk \<Rightarrow> string \<Rightarrow> artifactInfo option" where
  "list_entry modTime root nameFilter d name =
     (if \<not> is_dir d (Join [root, name]) then None
      else if nameFilter \<noteq> [] \<and> nameFilter \<noteq> name then None
      else case Resolve root (v4BlobRel name) of
        Inl _ \<Rightarrow> None
      | Inr blobPath \<Rightarrow> if os_Stat d blobPath
          then Some \<lparr>ai_Name = name, ai_Size = length (blob_of d blobPath), ai_CreatedAt = modTime blobPath\<rparr> else None)"

definition v4ListArtifacts :: "(string \<Rightarrow> string) \<Rightarrow> string \<Rightarrow> listArtifactsRequest option \<Rightarrow> disk \<Rightarrow> artifact_response" where
  "v4ListArtifacts modTime root body d =
     (let nameFilter = (case body of None \<Rightarrow> [] | Some req \<Rightarrow> la_NameFilter req) in
      if list_ex (is_file d) (path_prefixes root) then Failed 500 (''open '' @ root @ '': not a directory'')
      else (let entries = (case os_ReadDir d root of None \<Rightarrow> [] | Some ns \<Rightarrow> ns)
            in Artifacts \<lparr>lo_Artifacts = List.map_filter (list_entry modTime root nameFilter d) entries\<rparr>))"

definition v4GetSignedArtifactURL :: "string \<Rightarrow> getSignedArtifactURLRequest option \<Rightarrow> artifact_response" where
  "v4GetSignedArtifactURL host body = (case body of
     None \<Rightarrow> Failed 400 ''invalid request body''
   | Some req \<Rightarrow> SignedURL \<lparr>go_SignedURL =
       ''http://'' @ host @ v4RouteBase @ ''/DownloadArtifact?artifactName='' @ QueryEscape (gs_Name req)\<rparr>)"

definition v4DownloadArtifact :: "request \<Rightarrow> string \<Rightarrow> string \<Rightarrow> disk \<Rightarrow> artifact_response" where
  "v4DownloadArtifact r root name d = (case Resolve root (v4BlobRel name) of
     Inl e \<Rightarrow> Failed 500 e
   | Inr path \<Rightarrow> if os_Stat d path then SentFile (ServeFile r path d) else Missing)"

definition v4DeleteArtifact :: "string \<Rightarrow> deleteArtifactRequest option \<Rightarrow> disk \<Rightarrow> artifact_response \<times> disk" where
  "v4DeleteArtifact root body d = (case body of
     None \<Rightarrow> (Failed 400 ''invalid request body'', d)
   | Some req \<Rightarrow>
       (Deleted \<lparr>do_OK = True, do_ArtifactID = artifactNameToID (da_Name req)\<rparr>,
        case Resolve root (v4BlobRel (da_Name req)) of Inl _ \<Rightarrow> d | Inr path \<Rightarrow> os_RemoveAll (Dir path) d))"

subsection \<open>Paths stay below the root\<close>

lemma dotdot_prefix:
  assumes "slash \<notin> set s"
  shows "HasPrefix (s @ slash # r) ''../'' \<longleftrightarrow> s = ''..''"
proof -
  consider "s = []" | a where "s = [a]" | a b where "s = [a, b]" | a b c q where "s = a # b # c # q"
    by (metis remdups_adj.cases)
  then show ?thesis using assms by cases (auto simp del: One_nat_def)
qed

lemma Clean_relative_escape:
  assumes "clean_list False segs"
  shows "(render False segs = ''..'' \<or> HasPrefix (render False segs) ''../'') \<longleftrightarrow> (\<exists>ss. segs = ''..'' # ss)"
proof (cases segs)
  case Nil
  then show ?thesis by (simp add: render_def)
next
  case (Cons s ss)
  have ns: "slash \<notin> set s" using clean_list_no_slash[OF assms] Cons by simp
  have r: "render False (s # ss) = str_join (s # ss) [slash]" by (simp add: render_def)
  have "(str_join (s # ss) [slash] = ''..'' \<or> HasPrefix (str_join (s # ss) [slash]) ''../'') \<longleftrightarrow> s = ''..''"
  proof (cases "ss = []")
    case True
    have "\<not> HasPrefix s ''../''"
    proof
      assume "HasPrefix s ''../''"
      then obtain q where "s = ''../'' @ q" unfolding HasPrefix_iff by blast
      with ns show False by simp
    qed
    with True show ?thesis by simp
  next
    case False
    then have j: "str_join (s # ss) [slash] = s @ slash # str_join ss [slash]" by (simp add: str_join_Cons)
    have "s @ slash # r \<noteq> ''..''" for r
    proof
      assume "s @ slash # r = ''..''"
      then have "slash \<in> set ''..''" by (metis in_set_conv_decomp)
      then show False by simp
    qed
    then show ?thesis unfolding j dotdot_prefix[OF ns] by blast
  qed
  then show ?thesis unfolding Cons r by simp
qed

lemma Clean_cases:
  obtains segs where "clean_list (is_rooted p) segs" "Clean p = render (is_rooted p) segs"
proof (cases "p = []")
  case True
  have "Clean p = render (is_rooted p) []" using True by (simp add: Clean_def is_rooted_def render_def)
  moreover have "clean_list (is_rooted p) []" by (simp add: plain_list_clean)
  ultimately show ?thesis using that by blast
next
  case False
  with Clean_segs that show ?thesis by blast
qed

lemma clean_list_plain:
  assumes "clean_list False segs" "\<not> (\<exists>ss. segs = ''..'' # ss)"
  shows "list_all plain_seg segs"
proof -
  from assms(1) obtain n ss where s: "segs = replicate n ''..'' @ ss" "list_all plain_seg ss"
    by (auto simp: clean_list_def)
  with assms(2) have "n = 0" by (cases n) auto
  with s show ?thesis by simp
qed

lemma Resolve_segs:
  assumes "clean_root root" "Resolve root rel = Inr path"
  shows "\<exists>R S. list_all plain_seg R \<and> list_all plain_seg S \<and> root = render True R \<and> path = render True (R @ S)"
proof -
  obtain R where R: "list_all plain_seg R" "root = render True R" using clean_root_segs[OF assms(1)] .
  obtain segs where s: "clean_list (is_rooted rel) segs" "Clean rel = render (is_rooted rel) segs"
    using Clean_cases .
  have ok: "\<not> (Clean rel = ''..'' \<or> HasPrefix (Clean rel) ''../'')" and path: "path = Join [root, Clean rel]"
    using assms(2) by (auto simp: Resolve_def Let_def split: if_splits)
  have S: "list_all plain_seg segs"
  proof (cases "is_rooted rel")
    case True
    with s(1) show ?thesis by (simp add: clean_list_rooted)
  next
    case False
    then have c: "clean_list False segs" and e: "Clean rel = render False segs" using s by simp_all
    from ok[unfolded e] have "\<not> (\<exists>ss. segs = ''..'' # ss)" unfolding Clean_relative_escape[OF c] .
    then show ?thesis by (rule clean_list_plain[OF c])
  qed
  have "path = render True (R @ segs)" unfolding path R(2) s(2) by (rule Join_below[OF R(1) S])
  with R S show ?thesis by (intro exI[of _ R] exI[of _ segs]) simp
qed

text \<open>C39: Path safety. Over a store whose root is an absolute, cleaned directory, \<open>Resolve\<close> either rejects the
  relative path or answers the root extended by plain segments: never the root's parent, a sibling, or a
  path with a \<open>..\<close> left in it.\<close>

theorem Resolve_stays_below_root:
  assumes "clean_root root" "Resolve root rel = Inr path"
  shows "\<exists>R S. list_all plain_seg R \<and> list_all plain_seg S \<and> root = render True R \<and> path = render True (R @ S)"
  using Resolve_segs[OF assms] .

theorem Resolve_stays_below_root_witness:
  "\<exists>R S. list_all plain_seg R \<and> list_all plain_seg S \<and> ''/art'' = render True R \<and> ''/art/1/a'' = render True (R @ S)"
proof -
  have c: "clean_root ''/art''" by code_simp
  have r: "Resolve ''/art'' ''1/b/../a'' = Inr ''/art/1/a''" by code_simp
  show ?thesis using Resolve_stays_below_root[OF c r] .
qed

subsection \<open>Uploads and downloads\<close>

text \<open>A relative path names a blob that can be written: no directory has its name, and no file is where one of
  its parent directories would be.\<close>

definition artifact_ready :: "string \<Rightarrow> string \<Rightarrow> disk \<Rightarrow> bool" where
  "artifact_ready root rel d \<longleftrightarrow> clean_root root \<and> (case Resolve root rel of
     Inl _ \<Rightarrow> False
   | Inr path \<Rightarrow> path \<noteq> [slash] \<and> \<not> is_dir d path \<and> \<not> list_ex (is_file d) (path_prefixes (Dir path)))"

definition artifact_blob :: "string \<Rightarrow> string \<Rightarrow> disk \<Rightarrow> string" where
  "artifact_blob root rel d = (case Resolve root rel of Inl _ \<Rightarrow> [] | Inr path \<Rightarrow> blob_of d path)"

lemma artifact_ready_segs:
  assumes "artifact_ready root rel d"
  obtains S s where "Resolve root rel = Inr (render True (S @ [s]))" "list_all plain_seg (S @ [s])"
    "\<not> is_dir d (render True (S @ [s]))" "\<not> list_ex (is_file d) (path_prefixes (render True S))"
proof -
  from assms obtain path where p: "Resolve root rel = Inr path" "path \<noteq> [slash]" "\<not> is_dir d path"
      "\<not> list_ex (is_file d) (path_prefixes (Dir path))" and cr: "clean_root root"
    unfolding artifact_ready_def by (cases "Resolve root rel") auto
  from Resolve_segs[OF cr p(1)] obtain R S where
    s: "list_all plain_seg R" "list_all plain_seg S" "path = render True (R @ S)" by blast
  have "R @ S \<noteq> []" using p(2) s(3) by (auto simp: render_def)
  then obtain T t where T: "R @ S = T @ [t]" by (metis append_butlast_last_id)
  have pl: "list_all plain_seg (T @ [t])" unfolding T[symmetric] using s by simp
  show ?thesis
    using p(3,4) that[OF _ pl] unfolding p(1) s(3) T Dir_render[OF pl] by blast
qed

text \<open>What one write does to the disk.\<close>

lemma WriteAt_ok:
  assumes "artifact_ready root rel d" "0 \<le> off" "Resolve root rel = Inr path"
  shows "\<exists>ds. WriteAt root rel off b d =
    (Inr (), \<lparr>disk_files = mput path (write_at (nat off) b (blob_of d path)) (disk_files d), disk_dirs = ds\<rparr>) \<and>
    path \<notin> set ds"
proof -
  from assms(1) obtain S s where r: "Resolve root rel = Inr (render True (S @ [s]))" "list_all plain_seg (S @ [s])"
    "\<not> is_dir d (render True (S @ [s]))" "\<not> list_ex (is_file d) (path_prefixes (render True S))"
    by (rule artifact_ready_segs)
  have path: "path = render True (S @ [s])" using r(1) assms(3) by simp
  have D: "Dir path = render True S" unfolding path by (rule Dir_render[OF r(2)])
  define ds where "ds = disk_dirs d @ filter (\<lambda>q. \<not> is_dir d q) (path_prefixes (render True S))"
  have M: "os_MkdirAll (Dir path) d = Inr (d\<lparr>disk_dirs := ds\<rparr>)"
    using r(4) by (simp add: os_MkdirAll_def D ds_def)
  have "path \<notin> set ds" using r(3) file_not_above[OF r(2)] by (simp add: ds_def path is_dir_def)
  moreover have "Dir path \<in> set ds"
    unfolding D ds_def using path_prefixes_self[of S] r(2) by (simp add: is_dir_def)
  ultimately have "writable path (d\<lparr>disk_dirs := ds\<rparr>)" by (simp add: writable_def is_dir_def)
  from os_OpenWriteAt_ok[OF this assms(2)] have
    "WriteAt root rel off b d = (Inr (), \<lparr>disk_files = mput path (write_at (nat off) b (blob_of d path)) (disk_files d), disk_dirs = ds\<rparr>)"
    by (simp add: WriteAt_def assms(3) M blob_of_def)
  with \<open>path \<notin> set ds\<close> show ?thesis by blast
qed

lemma WriteAt_ready:
  assumes "artifact_ready root rel d" "0 \<le> off"
  shows "artifact_ready root rel (snd (WriteAt root rel off b d))"
    "fst (WriteAt root rel off b d) = Inr ()"
    "artifact_blob root rel (snd (WriteAt root rel off b d)) = write_at (nat off) b (artifact_blob root rel d)"
proof -
  from assms(1) obtain S s where r: "Resolve root rel = Inr (render True (S @ [s]))" "list_all plain_seg (S @ [s])"
    "\<not> is_dir d (render True (S @ [s]))" "\<not> list_ex (is_file d) (path_prefixes (render True S))"
    by (rule artifact_ready_segs)
  let ?p = "render True (S @ [s])"
  from WriteAt_ok[OF assms r(1), of b] obtain ds where w: "WriteAt root rel off b d =
      (Inr (), \<lparr>disk_files = mput ?p (write_at (nat off) b (blob_of d ?p)) (disk_files d), disk_dirs = ds\<rparr>)"
    "?p \<notin> set ds" by blast
  then show "fst (WriteAt root rel off b d) = Inr ()" by simp
  show "artifact_blob root rel (snd (WriteAt root rel off b d)) = write_at (nat off) b (artifact_blob root rel d)"
    by (simp add: w(1) artifact_blob_def r(1) blob_of_def)
  have nf: "q \<noteq> ?p" if "q \<in> set (path_prefixes (render True S))" for q
    using file_not_above[OF r(2)] that by blast
  have "is_file (snd (WriteAt root rel off b d)) q = is_file d q" if "q \<in> set (path_prefixes (render True S))" for q
    using nf[OF that] by (simp add: w(1) is_file_def)
  then have "\<not> list_ex (is_file (snd (WriteAt root rel off b d))) (path_prefixes (render True S))"
    using r(4) by (simp add: list_ex_iff)
  moreover have "?p \<noteq> [slash]" "clean_root root" using assms(1) by (auto simp: artifact_ready_def r(1))
  moreover have "\<not> is_dir (snd (WriteAt root rel off b d)) ?p" using w by (simp add: is_dir_def)
  ultimately show "artifact_ready root rel (snd (WriteAt root rel off b d))"
    by (simp add: artifact_ready_def r(1) Dir_render[OF r(2)])
qed

interpretation artifact: blob_writer "artifact_ready root rel" "artifact_blob root rel"
    "\<lambda>off b d. snd (WriteAt root rel (int off) b d)" for root rel
  by unfold_locales (simp_all add: WriteAt_ready)

lemma range_start_nonneg: "0 \<le> range_start h"
  by (auto simp: range_start_def Let_def split: option.split intro: parse_int64_nonneg[OF _ splitn2_head])

lemma serve_blob:
  assumes "Resolve root rel = Inr path" "artifact_blob root rel d = c" "c \<noteq> []"
  shows "os_Stat d path" "direct_url r \<Longrightarrow> ServeFile r path d = FileContent c"
proof -
  have f: "os_ReadFile d path = Some c"
    using assms by (auto simp: artifact_blob_def blob_of_def os_ReadFile_def split: option.splits)
  then show "os_Stat d path" by (simp add: os_Stat_def is_file_def os_ReadFile_def)
  show "direct_url r \<Longrightarrow> ServeFile r path d = FileContent c" by (rule ServeFile_direct[OF _ f])
qed

definition v3_upload_all :: "string \<Rightarrow> string \<Rightarrow> string \<Rightarrow> (string \<times> string) list \<Rightarrow> disk \<Rightarrow> disk" where
  "v3_upload_all root runID itemPath reqs d =
     fold (\<lambda>(h, b) d. snd (v3Upload root runID itemPath [] h b d)) reqs d"

lemma v3Upload_eq:
  assumes "artifact_ready root (Join [runID, itemPath]) d" "itemPath \<noteq> []"
  shows "v3Upload root runID itemPath [] h b d =
    (Acknowledged \<lparr>rm_Message = ''success''\<rparr>, snd (WriteAt root (Join [runID, itemPath]) (int (nat (range_start h))) b d))"
  using WriteAt_ready(2)[OF assms(1) range_start_nonneg, of h b] assms(2) range_start_nonneg[of h]
  by (auto simp: v3Upload_def Let_def split: prod.split sum.split)

lemma v3_upload_all_eq:
  assumes "artifact_ready root (Join [runID, itemPath]) d" "itemPath \<noteq> []"
  shows "v3_upload_all root runID itemPath reqs d = artifact.put_all root (Join [runID, itemPath])
     (map (\<lambda>(h, b). (nat (range_start h), b)) reqs) d"
  using assms(1)
proof (induction reqs arbitrary: d)
  case Nil
  then show ?case by (simp add: v3_upload_all_def artifact.put_all_def)
next
  case (Cons r reqs)
  obtain h b where r: "r = (h, b)" by (cases r)
  note IH = Cons.IH[OF artifact.put_ready[OF Cons.prems], of "nat (range_start h)" b]
  have "v3_upload_all root runID itemPath (r # reqs) d =
      v3_upload_all root runID itemPath reqs (snd (WriteAt root (Join [runID, itemPath]) (int (nat (range_start h))) b d))"
    unfolding r v3_upload_all_def using v3Upload_eq[OF Cons.prems assms(2), of h b] by simp
  also note IH
  finally show ?case by (simp add: r artifact.put_all_def)
qed

text \<open>V3 round trip. Uploading a new artifact file in chunks, each with its \<open>Content-Range\<close>, in any order
  and with any overlap as long as no byte is left out, and downloading the same path afterwards serves
  exactly the content.\<close>

theorem v3_upload_download:
  assumes "itemPath \<noteq> []" "artifact_ready root (Join [runID, itemPath]) d"
    and "\<not> Exists root (Join [runID, itemPath]) d"
    and "content \<noteq> []" "list_all (chunk_of content) (map (\<lambda>(h, b). (nat (range_start h), b)) reqs)"
    and "chunks_cover content (map (\<lambda>(h, b). (nat (range_start h), b)) reqs)"
    and "direct_url r"
  shows "v3DownloadArtifact r root (Join [runID, itemPath]) (v3_upload_all root runID itemPath reqs d) =
    SentFile (FileContent content)"
proof -
  let ?rel = "Join [runID, itemPath]"
  obtain path where path: "Resolve root ?rel = Inr path"
    using assms(2) by (auto simp: artifact_ready_def split: sum.splits)
  have "artifact_blob root ?rel d = []"
    using assms(3) by (auto simp: Exists_def path os_Stat_def is_file_def artifact_blob_def blob_of_def)
  from artifact.reassembles[OF assms(2) this assms(5,6)]
  have "artifact_blob root ?rel (v3_upload_all root runID itemPath reqs d) = content"
    unfolding v3_upload_all_eq[OF assms(2,1)] .
  from serve_blob[OF path this assms(4)] assms(7) show ?thesis by (simp add: v3DownloadArtifact_def path)
qed

definition sample_get :: "string \<Rightarrow> string \<Rightarrow> request" where
  "sample_get path q = \<lparr>rq_method = ''GET'', rq_host = ''localhost'', rq_path = path, rq_query = q, rq_headers = [], rq_body = []\<rparr>"

definition sample_store :: disk where
  "sample_store = \<lparr>disk_files = [], disk_dirs = [''/'', ''/art'']\<rparr>"

theorem v3_upload_download_witness:
  "v3DownloadArtifact (sample_get ''/artifact/1/a/b'' []) ''/art'' ''1/a/b'' (v3_upload_all ''/art'' ''1'' ''a/b''
      [(''bytes 1-2/*'', ''yz''), (''bytes 0-0/*'', ''x'')] sample_store) = SentFile (FileContent ''xyz'')"
proof -
  let ?m = "map (\<lambda>(h, b). (nat (range_start h), b)) [(''bytes 1-2/*'', ''yz''), (''bytes 0-0/*'', ''x'')]"
  have j: "Join [''1'', ''a/b''] = ''1/a/b''" by code_simp
  have r: "artifact_ready ''/art'' (Join [''1'', ''a/b'']) sample_store" by code_simp
  have e: "\<not> Exists ''/art'' (Join [''1'', ''a/b'']) sample_store" by code_simp
  have ch: "list_all (chunk_of ''xyz'') ?m" by code_simp
  have cv: "chunks_cover ''xyz'' ?m" by code_simp
  have ne: "''a/b'' \<noteq> []" "''xyz'' \<noteq> []" by simp_all
  have g: "direct_url (sample_get ''/artifact/1/a/b'' [])" by code_simp
  show ?thesis using v3_upload_download[OF ne(1) r e ne(2) ch cv g] unfolding j .
qed

lemma v4UploadArtifact_eq:
  assumes "artifact_ready root (v4BlobRel name) d" "name \<noteq> []" "compParam \<noteq> ''blocklist''"
  shows "v4UploadArtifact root name compParam b d = (Created, snd (WriteAt root (v4BlobRel name) (int 0) b d))"
  using WriteAt_ready(2)[OF assms(1), of 0 b] assms(2,3)
  by (auto simp: v4UploadArtifact_def split: prod.split sum.split)

lemma write_at_0_twice: "write_at 0 b2 (write_at 0 b1 []) = b2 @ drop (length b2) b1"
  by (auto simp: write_at_def)

text \<open>C40: The v4 upload of an artifact. One block then the block list serve the block; but every block is written
  at offset 0 without truncation, so of an artifact uploaded in two blocks the second overlays the first,
  where the block protocol promises their concatenation.\<close>

theorem v4_blocks_overlay:
  assumes "name \<noteq> []" "artifact_ready root (v4BlobRel name) d" "\<not> Exists root (v4BlobRel name) d" "b1 \<noteq> []"
    and "d1 = snd (v4UploadArtifact root name ''block'' b1 d)"
    and "d2 = snd (v4UploadArtifact root name ''block'' b2 d1)" "direct_url r"
  shows "v4DownloadArtifact r root name (snd (v4UploadArtifact root name ''blocklist'' m d1)) = SentFile (FileContent b1) \<and>
    v4DownloadArtifact r root name (snd (v4UploadArtifact root name ''blocklist'' m d2)) =
      SentFile (FileContent (b2 @ drop (length b2) b1))"
proof -
  let ?rel = "v4BlobRel name"
  obtain path where path: "Resolve root ?rel = Inr path"
    using assms(2) by (auto simp: artifact_ready_def split: sum.splits)
  have e: "artifact_blob root ?rel d = []"
    using assms(3) by (auto simp: Exists_def path os_Stat_def is_file_def artifact_blob_def blob_of_def)
  have nb: "''block'' \<noteq> ''blocklist''" by simp
  have d1: "d1 = snd (WriteAt root ?rel (int 0) b1 d)" using v4UploadArtifact_eq[OF assms(2,1) nb] assms(5) by simp
  have r1: "artifact_ready root ?rel d1" unfolding d1 by (rule artifact.put_ready[OF assms(2)])
  have d2: "d2 = snd (WriteAt root ?rel (int 0) b2 d1)" using v4UploadArtifact_eq[OF r1 assms(1) nb] assms(6) by simp
  have a1: "artifact_blob root ?rel d1 = write_at 0 b1 []" unfolding d1 artifact.put_blob[OF assms(2)] e ..
  have a2: "artifact_blob root ?rel d2 = b2 @ drop (length b2) b1"
    unfolding d2 artifact.put_blob[OF r1] a1 by (rule write_at_0_twice)
  have "write_at 0 b1 [] = b1" by (simp add: write_at_def)
  with a1 have a1: "artifact_blob root ?rel d1 = b1" by simp
  have "b2 @ drop (length b2) b1 \<noteq> []" using assms(4) by auto
  from serve_blob[OF path a2 this] serve_blob[OF path a1 assms(4)] show ?thesis
    using assms(1,7) by (simp add: v4DownloadArtifact_def v4UploadArtifact_def path)
qed

theorem v4_blocks_overlay_witness:
  "v4DownloadArtifact (sample_get (v4RouteBase @ ''/DownloadArtifact'') ''artifactName=a'') ''/art'' ''a''
    (snd (v4UploadArtifact ''/art'' ''a'' ''blocklist'' []
     (snd (v4UploadArtifact ''/art'' ''a'' ''block'' ''de'' (snd (v4UploadArtifact ''/art'' ''a'' ''block'' ''abc'' sample_store)))))) =
    SentFile (FileContent ''dec'')"
proof -
  have r: "artifact_ready ''/art'' (v4BlobRel ''a'') sample_store" by code_simp
  have e: "\<not> Exists ''/art'' (v4BlobRel ''a'') sample_store" by code_simp
  have ne: "''a'' \<noteq> []" "''abc'' \<noteq> []" by simp_all
  have s: "''de'' @ drop (length ''de'') ''abc'' = ''dec''" by simp
  have g: "direct_url (sample_get (v4RouteBase @ ''/DownloadArtifact'') ''artifactName=a'')" by code_simp
  show ?thesis using conjunct2[OF v4_blocks_overlay[OF ne(1) r e ne(2) refl refl g, of "[]" "''de''"]] unfolding s .
qed

subsection \<open>Deletion\<close>

lemma below_Dir_root:
  assumes "list_all plain_seg T"
  shows "below (Dir (render True T)) (render True T)"
proof (cases T rule: rev_cases)
  case Nil
  have "Dir (render True []) = render True []" by code_simp
  then show ?thesis using Nil by (simp add: below_def)
next
  case (snoc S s)
  with assms below_Dir show ?thesis by blast
qed

text \<open>A deleted v4 artifact is gone: whatever the disk held, downloading its name afterwards answers that
  nothing is there.\<close>

theorem v4_delete_then_missing:
  assumes "clean_root root" "Resolve root (v4BlobRel name) = Inr path"
  shows "v4DownloadArtifact r root name (snd (v4DeleteArtifact root (Some \<lparr>da_Name = name\<rparr>) d)) = Missing"
proof -
  from Resolve_segs[OF assms] obtain R S where s: "list_all plain_seg R" "list_all plain_seg S" "path = render True (R @ S)"
    by blast
  then have "below (Dir path) path" using below_Dir_root[of "R @ S"] by simp
  then have "\<not> os_Stat (os_RemoveAll (Dir path) d) path" by (simp add: os_Stat_def disk_simps)
  then show ?thesis by (simp add: v4DeleteArtifact_def v4DownloadArtifact_def assms(2))
qed

theorem v4_delete_then_missing_witness:
  "v4DownloadArtifact (sample_get (v4RouteBase @ ''/DownloadArtifact'') ''artifactName=a'') ''/art'' ''a''
    (snd (v4DeleteArtifact ''/art'' (Some \<lparr>da_Name = ''a''\<rparr>)
     (snd (v4UploadArtifact ''/art'' ''a'' [] ''zip'' sample_store)))) = Missing"
proof -
  have c: "clean_root ''/art''" by code_simp
  have r: "Resolve ''/art'' (v4BlobRel ''a'') = Inr ''/art/a/a.zip''" by code_simp
  show ?thesis using v4_delete_then_missing[OF c r] .
qed

text \<open>Deleting the artifact with the empty name removes the whole store, its root directory included:
  its blob path is \<open>.zip\<close> directly in the root, whose parent is the root itself.\<close>

theorem v4_delete_empty_name_wipes_store:
  assumes "clean_root root"
  shows "below root p \<Longrightarrow> \<not> os_Stat (snd (v4DeleteArtifact root (Some \<lparr>da_Name = []\<rparr>) d)) p"
proof -
  assume p: "below root p"
  obtain R where R: "list_all plain_seg R" "root = render True R" using clean_root_segs[OF assms] .
  have b: "v4BlobRel [] = render False [''.zip'']" by code_simp
  have z: "list_all plain_seg [''.zip'']" by code_simp
  have cl: "Clean (render False [''.zip'']) = render False [''.zip'']"
    by (rule Clean_render[OF plain_list_clean[OF z]])
  have ne: "\<not> (render False [''.zip''] = ''..'' \<or> HasPrefix (render False [''.zip'']) ''../'')" by code_simp
  have J: "Join [root, render False [''.zip'']] = render True (R @ [''.zip''])"
    unfolding R(2) by (rule Join_below[OF R(1) z])
  have "Resolve root (v4BlobRel []) = Inr (render True (R @ [''.zip'']))"
    using ne by (simp only: Resolve_def Let_def b cl J if_False)
  moreover have "Dir (render True (R @ [''.zip''])) = root"
    unfolding R(2) by (rule Dir_render) (use R(1) z in simp)
  ultimately show ?thesis using p by (simp add: v4DeleteArtifact_def os_Stat_def disk_simps)
qed

theorem v4_delete_empty_name_wipes_store_witness:
  "\<not> os_Stat (snd (v4DeleteArtifact ''/art'' (Some \<lparr>da_Name = []\<rparr>) (snd (v4UploadArtifact ''/art'' ''a'' [] ''zip'' sample_store))))
     ''/art/a/a.zip''"
proof -
  have c: "clean_root ''/art''" by code_simp
  have p: "below ''/art'' ''/art/a/a.zip''" by code_simp
  show ?thesis by (rule v4_delete_empty_name_wipes_store[OF c p])
qed

end
