(* ===== verification/Artifact_Server.thy ===== *)
theory Artifact_Server
  imports Artifact_Store
begin

text \<open>
  The artifact server as its clients see it: \<open>NewTempStore\<close> (\<open>artifactserver/storage.go\<close>), the routes of both
  protocols (\<open>v3.go\<close>, \<open>v4.go\<close>), \<open>Start\<close>, \<open>Port\<close> and \<open>Stop\<close> (\<open>server.go\<close>), and the life of an artifact over HTTP, its
  client following the URLs it is given while other clients make other requests.
\<close>

subsection \<open>storage.go\<close>

text \<open>\<open>os.MkdirTemp\<close> and the machine's disk are arguments.\<close>

definition NewTempStore :: "(string \<Rightarrow> 'w \<Rightarrow> (string + string) \<times> 'w) \<Rightarrow> (string \<Rightarrow> 'w \<Rightarrow> (string + unit) \<times> 'w) \<Rightarrow>
    'w \<Rightarrow> (string + string) \<times> 'w" where
  "NewTempStore mkdirTemp openStore w = (case mkdirTemp ''mirror-artifacts-'' w of
     (Inl e, w1) \<Rightarrow> (Inl (''create artifact store temp dir: '' @ e), w1)
   | (Inr root, w1) \<Rightarrow> (case openStore root w1 of (Inl e, w2) \<Rightarrow> (Inl e, w2) | (Inr _, w2) \<Rightarrow> (Inr root, w2)))"

subsection \<open>Routes\<close>

datatype artifact_route =
  V3Reserve | V3Upload | V3Finalize | V3List | V3DownloadList | V3DownloadArtifact
| V4CreateArtifact | V4UploadArtifact | V4FinalizeArtifact | V4ListArtifacts | V4GetSignedArtifactURL
| V4DownloadArtifact | V4DeleteArtifact

definition registerV3Routes :: "artifact_route route list" where
  "registerV3Routes =
     [HandleFunc ''POST /_apis/pipelines/workflows/{runId}/artifacts'' V3Reserve,
      HandleFunc ''PUT /upload/{runId}'' V3Upload,
      HandleFunc ''PATCH /_apis/pipelines/workflows/{runId}/artifacts'' V3Finalize,
      HandleFunc ''GET /_apis/pipelines/workflows/{runId}/artifacts'' V3List,
      HandleFunc ''GET /download/{container}'' V3DownloadList,
      HandleFunc ''GET /artifact/{path...}'' V3DownloadArtifact]"

definition registerV4Routes :: "artifact_route route list" where
  "registerV4Routes =
     [HandleFunc (''POST '' @ v4RouteBase @ ''/CreateArtifact'') V4CreateArtifact,
      HandleFunc (''PUT '' @ v4RouteBase @ ''/UploadArtifact'') V4UploadArtifact,
      HandleFunc (''POST '' @ v4RouteBase @ ''/FinalizeArtifact'') V4FinalizeArtifact,
      HandleFunc (''POST '' @ v4RouteBase @ ''/ListArtifacts'') V4ListArtifacts,
      HandleFunc (''POST '' @ v4RouteBase @ ''/GetSignedArtifactURL'') V4GetSignedArtifactURL,
      HandleFunc (''GET '' @ v4RouteBase @ ''/DownloadArtifact'') V4DownloadArtifact,
      HandleFunc (''POST '' @ v4RouteBase @ ''/DeleteArtifact'') V4DeleteArtifact]"

definition artifact_routes :: "artifact_route route list" where
  "artifact_routes = registerV3Routes @ registerV4Routes"

text \<open>The JSON decoder, the root of the store and the modification times of its files.\<close>

record artifact_env =
  ae_root :: string
  ae_modTime :: "string \<Rightarrow> string"
  ae_create :: "string \<Rightarrow> createArtifactRequest option"
  ae_finalize :: "string \<Rightarrow> finalizeArtifactRequest option"
  ae_list :: "string \<Rightarrow> listArtifactsRequest option"
  ae_getURL :: "string \<Rightarrow> getSignedArtifactURLRequest option"
  ae_delete :: "string \<Rightarrow> deleteArtifactRequest option"

definition run_artifact_route :: "artifact_env \<Rightarrow> request \<Rightarrow> artifact_route \<Rightarrow> string smap \<Rightarrow> disk \<Rightarrow>
    artifact_response \<times> disk" where
  "run_artifact_route v r route vals d = (case route of
     V3Reserve \<Rightarrow> (v3Reserve (rq_host r) (PathValue vals ''runId''), d)
   | V3Upload \<Rightarrow> v3Upload (ae_root v) (PathValue vals ''runId'') (query_get r ''itemPath'')
       (header_get r ''Content-Encoding'') (header_get r ''Content-Range'') (rq_body r) d
   | V3Finalize \<Rightarrow> (v3Finalize, d)
   | V3List \<Rightarrow> (v3List (rq_host r) (ae_root v) (PathValue vals ''runId'') d, d)
   | V3DownloadList \<Rightarrow> (v3DownloadList (rq_host r) (ae_root v) (PathValue vals ''container'') (query_get r ''itemPath'') d, d)
   | V3DownloadArtifact \<Rightarrow> (v3DownloadArtifact r (ae_root v) (PathValue vals ''path'') d, d)
   | V4CreateArtifact \<Rightarrow> (v4CreateArtifact (rq_host r) (ae_create v (rq_body r)), d)
   | V4UploadArtifact \<Rightarrow> v4UploadArtifact (ae_root v) (query_get r ''artifactName'') (query_get r ''comp'') (rq_body r) d
   | V4FinalizeArtifact \<Rightarrow> (v4FinalizeArtifact (ae_finalize v (rq_body r)), d)
   | V4ListArtifacts \<Rightarrow> (v4ListArtifacts (ae_modTime v) (ae_root v) (ae_list v (rq_body r)) d, d)
   | V4GetSignedArtifactURL \<Rightarrow> (v4GetSignedArtifactURL (rq_host r) (ae_getURL v (rq_body r)), d)
   | V4DownloadArtifact \<Rightarrow> (v4DownloadArtifact r (ae_root v) (query_get r ''artifactName'') d, d)
   | V4DeleteArtifact \<Rightarrow> v4DeleteArtifact (ae_root v) (ae_delete v (rq_body r)) d)"

definition artifact_mux :: "artifact_env \<Rightarrow> request \<Rightarrow> disk \<Rightarrow> artifact_response mux_answer \<times> disk" where
  "artifact_mux v r d = (case find_handler artifact_routes r of
     Handled route vals \<Rightarrow> (case run_artifact_route v r route vals d of (x, d1) \<Rightarrow> (Answered x, d1))
   | Redirected loc \<Rightarrow> (MovedPermanently loc, d)
   | NotAllowed ms \<Rightarrow> (MethodNotAllowed ms, d)
   | NoRoute \<Rightarrow> (PageNotFound, d))"

subsection \<open>server.go\<close>

definition StartArtifacts :: "('w \<Rightarrow> (string + int) \<times> 'w) \<Rightarrow> 'w \<Rightarrow> (string + server) \<times> 'w" where
  "StartArtifacts listen = listen_and_serve ''artifact'' listen"

definition ArtifactPort :: "server \<Rightarrow> int" where
  "ArtifactPort srv = srv_port srv"

definition StopArtifacts :: "(server \<Rightarrow> 'w \<Rightarrow> 'w) \<Rightarrow> server \<Rightarrow> 'w \<Rightarrow> 'w" where
  "StopArtifacts shutdown srv = shutdown srv"

subsection \<open>What a request can change\<close>

text \<open>The file a request writes, and the directory it removes.\<close>

definition written_file :: "artifact_env \<Rightarrow> request \<Rightarrow> string option" where
  "written_file v r = (case find_handler artifact_routes r of
     Handled V3Upload vals \<Rightarrow>
       (let rel0 = Join [PathValue vals ''runId'', query_get r ''itemPath''];
            rel = (if header_get r ''Content-Encoding'' = ''gzip'' then rel0 @ ''.gz__'' else rel0)
        in case Resolve (ae_root v) rel of Inl _ \<Rightarrow> None | Inr p \<Rightarrow> Some p)
   | Handled V4UploadArtifact vals \<Rightarrow>
       (if query_get r ''comp'' = ''blocklist'' then None else case Resolve (ae_root v) (v4BlobRel (query_get r ''artifactName'')) of
          Inl _ \<Rightarrow> None | Inr p \<Rightarrow> Some p)
   | _ \<Rightarrow> None)"

definition removed_dir :: "artifact_env \<Rightarrow> request \<Rightarrow> string option" where
  "removed_dir v r = (case find_handler artifact_routes r of
     Handled V4DeleteArtifact vals \<Rightarrow> (case ae_delete v (rq_body r) of None \<Rightarrow> None
       | Some q \<Rightarrow> (case Resolve (ae_root v) (v4BlobRel (da_Name q)) of Inl _ \<Rightarrow> None | Inr p \<Rightarrow> Some (Dir p)))
   | _ \<Rightarrow> None)"

definition touches :: "artifact_env \<Rightarrow> string \<Rightarrow> request \<Rightarrow> bool" where
  "touches v p r \<longleftrightarrow> written_file v r = Some p \<or> (case removed_dir v r of None \<Rightarrow> False | Some q \<Rightarrow> below q p)"

lemma os_ReadFile_RemoveAll: "\<not> below q p \<Longrightarrow> os_ReadFile (os_RemoveAll q d) p = os_ReadFile d p"
proof -
  assume "\<not> below q p"
  then have "mget (filter (\<lambda>kv. \<not> below q (fst kv)) m) p = mget m p" for m :: "string smap" by (induction m) auto
  then show ?thesis by (simp add: os_ReadFile_def os_RemoveAll_def)
qed

lemma WriteAt_other:
  assumes "case Resolve root rel of Inl _ \<Rightarrow> True | Inr q \<Rightarrow> q \<noteq> p"
  shows "os_ReadFile (snd (WriteAt root rel off b d)) p = os_ReadFile d p"
proof (cases "Resolve root rel")
  case (Inl e)
  then show ?thesis by (simp add: WriteAt_def)
next
  case (Inr q)
  then have q: "q \<noteq> p" using assms by simp
  have o: "os_ReadFile (snd (os_OpenWriteAt q off b d')) p = os_ReadFile d' p" for d'
    using q by (simp add: os_OpenWriteAt_def os_ReadFile_def)
  show ?thesis
  proof (cases "os_MkdirAll (Dir q) d")
    case (Inl e)
    then show ?thesis by (simp add: WriteAt_def Inr)
  next
    case (Inr d')
    then have "os_ReadFile d' p = os_ReadFile d p" by (auto simp: os_MkdirAll_def os_ReadFile_def split: if_splits)
    with o[of d'] show ?thesis
      by (cases "os_OpenWriteAt q off b d'") (simp add: WriteAt_def \<open>Resolve root rel = Inr q\<close> Inr split: sum.split)
  qed
qed

text \<open>A request leaves every file it does not touch as it is.\<close>

lemma untouched:
  assumes "\<not> touches v p r"
  shows "os_ReadFile (snd (artifact_mux v r d)) p = os_ReadFile d p"
proof (cases "find_handler artifact_routes r")
  case (Handled route vals)
  have "os_ReadFile (snd (run_artifact_route v r route vals d)) p = os_ReadFile d p"
  proof (cases route)
    case V3Upload
    define rel where "rel = (let rel0 = Join [PathValue vals ''runId'', query_get r ''itemPath''] in
      if header_get r ''Content-Encoding'' = ''gzip'' then rel0 @ ''.gz__'' else rel0)"
    have "case Resolve (ae_root v) rel of Inl _ \<Rightarrow> True | Inr q \<Rightarrow> q \<noteq> p"
      using assms by (auto simp: touches_def written_file_def Handled V3Upload rel_def Let_def split: sum.splits)
    from WriteAt_other[OF this] V3Upload show ?thesis
      by (auto simp: run_artifact_route_def v3Upload_def rel_def Let_def split: prod.split sum.split) (metis snd_conv)+
  next
    case V4UploadArtifact
    show ?thesis
    proof (cases "query_get r ''comp'' = ''blocklist''")
      case True
      then show ?thesis using V4UploadArtifact by (simp add: run_artifact_route_def v4UploadArtifact_def)
    next
      case False
      then have "case Resolve (ae_root v) (v4BlobRel (query_get r ''artifactName'')) of Inl _ \<Rightarrow> True | Inr q \<Rightarrow> q \<noteq> p"
        using assms by (auto simp: touches_def written_file_def Handled V4UploadArtifact split: sum.splits)
      from WriteAt_other[OF this] V4UploadArtifact show ?thesis
        by (auto simp: run_artifact_route_def v4UploadArtifact_def split: prod.split sum.split) (metis snd_conv)+
    qed
  next
    case V4DeleteArtifact
    then show ?thesis using assms
      by (auto simp: run_artifact_route_def v4DeleteArtifact_def touches_def removed_dir_def Handled os_ReadFile_RemoveAll
          split: option.splits sum.splits)
  qed (simp_all add: run_artifact_route_def)
  then show ?thesis by (simp add: artifact_mux_def Handled split: prod.split) (metis snd_conv)
qed (simp_all add: artifact_mux_def)

subsection \<open>Requests stay below the root\<close>

lemma below_render: "below (render True R) (render True (R @ S))"
proof (cases "S = []")
  case False
  show ?thesis
  proof (cases "R = []")
    case True
    then show ?thesis by (simp add: render_def below_def under_def)
  next
    case R: False
    have "str_join (R @ S) [slash] = str_join R [slash] @ [slash] @ str_join S [slash]"
      using R
    proof (induction R)
      case (Cons a R)
      then show ?case using False by (cases "R = []") (simp_all add: str_join_Cons)
    qed simp
    then have "render True (R @ S) = (render True R @ [slash]) @ str_join S [slash]" by (simp add: render_def)
    then have "HasPrefix (render True (R @ S)) (render True R @ [slash])" unfolding HasPrefix_iff by blast
    moreover have "HasPrefix (render True (R @ S)) [slash]" by (simp add: render_def)
    ultimately show ?thesis by (simp add: below_def under_def)
  qed
qed (simp add: below_def)

lemma below_trans:
  assumes "below a b" "below b c"
  shows "below a c"
proof (cases "b = a \<or> c = b")
  case True
  then show ?thesis using assms by auto
next
  case False
  then have p: "HasPrefix b (under a)" "HasPrefix c (under b)" using assms by (auto simp: below_def)
  then obtain s r where s: "b = under a @ s" "c = under b @ r" unfolding HasPrefix_iff by blast
  have "\<exists>r'. c = under a @ r'"
  proof (cases "b = [slash]")
    case True
    then show ?thesis using s by (cases "under a") (auto simp: under_def)
  next
    case False
    then have "c = under a @ (s @ slash # r)" using s by (simp add: under_def)
    then show ?thesis by blast
  qed
  then show ?thesis by (simp add: below_def HasPrefix_iff)
qed

lemma Resolve_below: "clean_root root \<Longrightarrow> Resolve root rel = Inr p \<Longrightarrow> below root p"
  using Resolve_segs below_render by metis

text \<open>The blob of a v4 artifact is never the root itself, so deleting it never leaves the root.\<close>

lemma Clean_snoc:
  assumes "p \<noteq> []" "str_split slash p = xs @ [w]" "plain_seg w"
  shows "\<exists>ys. clean_list (is_rooted p) (ys @ [w]) \<and> Clean p = render (is_rooted p) (ys @ [w])"
proof -
  have "clean_segs (is_rooted p) (xs @ [w]) = clean_segs (is_rooted p) xs @ [w]"
    using assms(3) by (simp add: clean_segs_def clean_seg_def plain_seg_def)
  moreover have "clean_list (is_rooted p) (clean_segs (is_rooted p) (str_split slash p))"
    by (rule clean_segs_clean) (use str_split_no_sep in blast)
  ultimately show ?thesis using assms(1,2) by (auto simp: Clean_def)
qed

lemma v4_path:
  assumes "clean_root root" "Resolve root (v4BlobRel name) = Inr p"
  shows "\<exists>R T w. list_all plain_seg ((R @ T) @ [w]) \<and> root = render True R \<and> p = render True ((R @ T) @ [w])"
proof -
  obtain R where R: "list_all plain_seg R" "root = render True R" using clean_root_segs[OF assms(1)] .
  define q where "q = str_join (filter (\<lambda>e. e \<noteq> []) [name, name @ ''.zip'']) [slash]"
  define w where "w = last (str_split slash name) @ ''.zip''"
  have q: "q \<noteq> []" by (auto simp: q_def)
  have sz: "str_split slash (s @ ''.zip'') = butlast (str_split slash s) @ [last (str_split slash s) @ ''.zip'']" for s
  proof (induction s)
    case (Cons c s)
    then show ?case by (cases "str_split slash s") (auto split: list.splits)
  qed simp
  have "\<exists>xs. str_split slash q = xs @ [w]"
  proof (cases "name = []")
    case True
    then show ?thesis using sz[of "[]"] by (simp add: q_def w_def)
  next
    case False
    then have "q = name @ slash # (name @ ''.zip'')" by (simp add: q_def)
    then show ?thesis by (simp only: str_split_joined sz w_def append_assoc[symmetric]) blast
  qed
  then obtain xs where xs: "str_split slash q = xs @ [w]" by blast
  have "slash \<notin> set (last (str_split slash name))" using str_split_no_sep[OF last_in_set[OF str_split_not_Nil]] .
  moreover have "length w \<ge> 4" by (simp add: w_def)
  ultimately have w: "plain_seg w" by (auto simp: plain_seg_def w_def)
  from Clean_snoc[OF q xs w] obtain ys where ys: "clean_list (is_rooted q) (ys @ [w])" "Clean q = render (is_rooted q) (ys @ [w])"
    by blast
  have "v4BlobRel name = Clean q" by (simp add: v4BlobRel_def Join_def q_def Let_def)
  then have cl: "Clean (v4BlobRel name) = render (is_rooted q) (ys @ [w])" by (simp add: ys(2) Clean_render[OF ys(1)])
  have ok: "\<not> (Clean (v4BlobRel name) = ''..'' \<or> HasPrefix (Clean (v4BlobRel name)) ''../'')"
    and path: "p = Join [root, Clean (v4BlobRel name)]"
    using assms(2) by (auto simp: Resolve_def Let_def split: if_splits)
  have S: "list_all plain_seg (ys @ [w])"
  proof (cases "is_rooted q")
    case True
    with ys(1) show ?thesis using clean_list_rooted[of "ys @ [w]"] by simp
  next
    case False
    then have c: "clean_list False (ys @ [w])" using ys(1) by simp
    with ok cl False Clean_relative_escape[OF c] show ?thesis by (intro clean_list_plain[OF c]) simp
  qed
  have "p = render True (R @ (ys @ [w]))" unfolding path cl R(2) by (rule Join_below[OF R(1) S])
  with R S show ?thesis by (metis append_assoc list_all_append)
qed

lemma removed_below:
  assumes "clean_root (ae_root v)" "removed_dir v r = Some q"
  shows "below (ae_root v) q"
proof -
  obtain name p where p: "Resolve (ae_root v) (v4BlobRel name) = Inr p" "q = Dir p"
    using assms(2) by (auto simp: removed_dir_def split: routed.splits artifact_route.splits option.splits sum.splits)
  from v4_path[OF assms(1) p(1)] obtain R T w where
    s: "list_all plain_seg ((R @ T) @ [w])" "ae_root v = render True R" "p = render True ((R @ T) @ [w])" by blast
  show ?thesis unfolding p(2) s(3) Dir_render[OF s(1)] s(2) by (rule below_render)
qed

lemma written_below:
  assumes "clean_root (ae_root v)" "written_file v r = Some p"
  shows "below (ae_root v) p"
  using assms(2) Resolve_below[OF assms(1)]
  by (auto simp: written_file_def Let_def split: routed.splits artifact_route.splits sum.splits if_splits)

lemma outside_untouched:
  assumes "clean_root (ae_root v)" "\<not> below (ae_root v) p"
  shows "\<not> touches v p r"
  using assms written_below[OF assms(1), of r p] removed_below[OF assms(1), of r] below_trans
  by (auto simp: touches_def split: option.splits)

lemma untouched_all:
  "list_all (\<lambda>r. \<not> touches v p r) rs \<Longrightarrow> os_ReadFile (snd (serve_all (artifact_mux v) rs d)) p = os_ReadFile d p"
  by (induction rs arbitrary: d) (simp_all add: serve_all_Cons untouched)

text \<open>C34: Confinement. Under every sequence of requests, whatever paths, encoded segments and names they hold, the
  artifact server leaves every file outside its root directory exactly as it was: none is written, none is
  removed.\<close>

theorem artifact_requests_confined:
  assumes "clean_root (ae_root v)" "\<not> below (ae_root v) p"
  shows "os_ReadFile (snd (serve_all (artifact_mux v) rs d)) p = os_ReadFile d p"
  by (rule untouched_all) (simp add: list_all_iff outside_untouched[OF assms])

subsection \<open>The v4 protocol over HTTP\<close>

lemma v4_handler:
  assumes "rq_path r = v4RouteBase @ ''/'' @ s" "plain_seg s"
    and "match_path (map (\<lambda>r. (r, rt_segs r)) (filter (\<lambda>rt. rt_method rt = rq_method r) artifact_routes))
      [''twirp'', ''github.actions.results.api.v1.ArtifactService'', s] [] = Some (rt, [])" "\<not> is_multi (last (rt_segs rt))"
  shows "find_handler artifact_routes r = Handled (rt_handler rt) []"
proof -
  have p: "rq_path r = path_of [''twirp'', ''github.actions.results.api.v1.ArtifactService'', s]"
    unfolding assms(1) v4RouteBase_def by (simp add: path_of_def)
  have "list_all plain_seg [''twirp'', ''github.actions.results.api.v1.ArtifactService'']" by code_simp
  then have pl: "list_all plain_seg [''twirp'', ''github.actions.results.api.v1.ArtifactService'', s]" using assms(2) by simp
  from find_handler_hit[OF pl _ p assms(3,4)] show ?thesis by simp
qed

lemma v4_handlers:
  "rq_method r = ''POST'' \<Longrightarrow> rq_path r = v4RouteBase @ ''/CreateArtifact'' \<Longrightarrow> find_handler artifact_routes r = Handled V4CreateArtifact []"
  "rq_method r = ''PUT'' \<Longrightarrow> rq_path r = v4RouteBase @ ''/UploadArtifact'' \<Longrightarrow> find_handler artifact_routes r = Handled V4UploadArtifact []"
  "rq_method r = ''POST'' \<Longrightarrow> rq_path r = v4RouteBase @ ''/GetSignedArtifactURL'' \<Longrightarrow>
    find_handler artifact_routes r = Handled V4GetSignedArtifactURL []"
  "rq_method r = ''GET'' \<Longrightarrow> rq_path r = v4RouteBase @ ''/DownloadArtifact'' \<Longrightarrow> find_handler artifact_routes r = Handled V4DownloadArtifact []"
proof -
  note code = v4_handler[of r "''CreateArtifact''"] v4_handler[of r "''UploadArtifact''"]
    v4_handler[of r "''GetSignedArtifactURL''"] v4_handler[of r "''DownloadArtifact''"]
  have pl: "plain_seg ''CreateArtifact''" "plain_seg ''UploadArtifact''" "plain_seg ''GetSignedArtifactURL''" "plain_seg ''DownloadArtifact''"
    by code_simp+
  let ?m = "\<lambda>meth s. match_path (map (\<lambda>r. (r, rt_segs r)) (filter (\<lambda>rt. rt_method rt = meth) artifact_routes))
      [''twirp'', ''github.actions.results.api.v1.ArtifactService'', s] []"
  let ?rt = "\<lambda>meth s h. \<lparr>rt_method = meth, rt_segs = [Lit ''twirp'', Lit ''github.actions.results.api.v1.ArtifactService'', Lit s],
      rt_handler = h\<rparr>"
  have m: "?m ''POST'' ''CreateArtifact'' = Some (?rt ''POST'' ''CreateArtifact'' V4CreateArtifact, [])"
    "?m ''PUT'' ''UploadArtifact'' = Some (?rt ''PUT'' ''UploadArtifact'' V4UploadArtifact, [])"
    "?m ''POST'' ''GetSignedArtifactURL'' = Some (?rt ''POST'' ''GetSignedArtifactURL'' V4GetSignedArtifactURL, [])"
    "?m ''GET'' ''DownloadArtifact'' = Some (?rt ''GET'' ''DownloadArtifact'' V4DownloadArtifact, [])"
    by code_simp+
  show "rq_method r = ''POST'' \<Longrightarrow> rq_path r = v4RouteBase @ ''/CreateArtifact'' \<Longrightarrow> find_handler artifact_routes r = Handled V4CreateArtifact []"
    using code(1)[OF _ pl(1)] m(1) by (simp add: is_multi_def)
  show "rq_method r = ''PUT'' \<Longrightarrow> rq_path r = v4RouteBase @ ''/UploadArtifact'' \<Longrightarrow> find_handler artifact_routes r = Handled V4UploadArtifact []"
    using code(2)[OF _ pl(2)] m(2) by (simp add: is_multi_def)
  show "rq_method r = ''POST'' \<Longrightarrow> rq_path r = v4RouteBase @ ''/GetSignedArtifactURL'' \<Longrightarrow>
      find_handler artifact_routes r = Handled V4GetSignedArtifactURL []"
    using code(3)[OF _ pl(3)] m(3) by (simp add: is_multi_def)
  show "rq_method r = ''GET'' \<Longrightarrow> rq_path r = v4RouteBase @ ''/DownloadArtifact'' \<Longrightarrow>
      find_handler artifact_routes r = Handled V4DownloadArtifact []"
    using code(4)[OF _ pl(4)] m(4) by (simp add: is_multi_def)
qed

lemma artifactName_param: "parse_param (''artifactName='' @ QueryEscape n) = Some (''artifactName'', n)"
proof -
  have "list_all (\<lambda>c. is_lower c \<or> is_upper c) ''artifactName''" by code_simp
  from parse_param_escaped[OF this] show ?thesis by simp
qed

lemma artifact_query:
  "rq_query r = ''artifactName='' @ QueryEscape n \<Longrightarrow> query_get r ''artifactName'' = n"
  "rq_query r = ''artifactName='' @ QueryEscape n @ ''&comp='' @ k \<Longrightarrow> k \<in> {''block'', ''blocklist''} \<Longrightarrow>
    query_get r ''artifactName'' = n \<and> query_get r ''comp'' = k"
proof -
  have amp: "CHR ''&'' \<notin> set (''artifactName='' @ QueryEscape n)" using QueryEscape_no(1) by simp
  note one = ParseQuery_one[OF artifactName_param amp] and cons = ParseQuery_Cons[OF artifactName_param amp]
  show "rq_query r = ''artifactName='' @ QueryEscape n \<Longrightarrow> query_get r ''artifactName'' = n"
    by (simp add: query_get_def one[simplified])
  have c: "ParseQuery (''comp='' @ k) = [(''comp'', k)]" if "k \<in> {''block'', ''blocklist''}"
  proof -
    have "ParseQuery ''comp=block'' = [(''comp'', ''block'')]" "ParseQuery ''comp=blocklist'' = [(''comp'', ''blocklist'')]"
      by code_simp+
    with that show ?thesis by auto
  qed
  assume q: "rq_query r = ''artifactName='' @ QueryEscape n @ ''&comp='' @ k" and k: "k \<in> {''block'', ''blocklist''}"
  have "ParseQuery (rq_query r) = (''artifactName'', n) # ParseQuery (''comp='' @ k)"
    unfolding q using cons[of "''comp='' @ k"] by simp
  then have "ParseQuery (rq_query r) = [(''artifactName'', n), (''comp'', k)]" unfolding c[OF k] .
  then show "query_get r ''artifactName'' = n \<and> query_get r ''comp'' = k" by (simp add: query_get_def)
qed

lemma signed_url_parts:
  assumes "slash \<notin> set host" "s \<in> {''/UploadArtifact'', ''/DownloadArtifact''}" "CHR ''#'' \<notin> set k"
    and "url_parts (''http://'' @ host @ v4RouteBase @ s @ ''?artifactName='' @ QueryEscape n @ k) = (h, path, query)"
  shows "path = v4RouteBase @ s" "query = ''artifactName='' @ QueryEscape n @ k"
proof -
  have b: "hd (v4RouteBase @ s) = slash" "v4RouteBase @ s \<noteq> []" by (simp_all add: v4RouteBase_def)
  have "CHR ''#'' \<notin> set (v4RouteBase @ ''/UploadArtifact'')" "CHR ''#'' \<notin> set (v4RouteBase @ ''/DownloadArtifact'')"
    "CHR ''?'' \<notin> set (v4RouteBase @ ''/UploadArtifact'')" "CHR ''?'' \<notin> set (v4RouteBase @ ''/DownloadArtifact'')" by code_simp+
  then have c: "CHR ''#'' \<notin> set (v4RouteBase @ s)" "CHR ''?'' \<notin> set (v4RouteBase @ s)" using assms(2) by auto
  have q: "CHR ''#'' \<notin> set (''artifactName='' @ QueryEscape n @ k)" using QueryEscape_no(3) assms(3) by simp
  have "''http://'' @ host @ v4RouteBase @ s @ ''?artifactName='' @ QueryEscape n @ k =
      ''http://'' @ host @ (v4RouteBase @ s) @ ''?'' @ (''artifactName='' @ QueryEscape n @ k)" by simp
  with url_parts_url(1)[OF assms(1) b c q] assms(4)
  show "path = v4RouteBase @ s" "query = ''artifactName='' @ QueryEscape n @ k" by simp_all
qed

lemma v4_put:
  assumes "rq_method r = ''PUT''" "rq_path r = v4RouteBase @ ''/UploadArtifact''"
    and "rq_query r = ''artifactName='' @ QueryEscape name @ ''&comp=block''" "name \<noteq> []" "rq_body r \<noteq> []"
    and "artifact_ready (ae_root v) (v4BlobRel name) d" "\<not> Exists (ae_root v) (v4BlobRel name) d"
    and "Resolve (ae_root v) (v4BlobRel name) = Inr path"
  shows "os_ReadFile (snd (artifact_mux v r d)) path = Some (rq_body r)"
proof -
  let ?rel = "v4BlobRel name"
  have "rq_query r = ''artifactName='' @ QueryEscape name @ ''&comp='' @ ''block''" using assms(3) by simp
  from artifact_query(2)[OF this] have q: "query_get r ''artifactName'' = name" "query_get r ''comp'' = ''block''" by simp_all
  have u: "snd (artifact_mux v r d) = snd (WriteAt (ae_root v) ?rel (int 0) (rq_body r) d)"
    using v4UploadArtifact_eq[OF assms(6,4), of "''block''" "rq_body r"]
    by (simp add: artifact_mux_def v4_handlers(2)[OF assms(1,2)] run_artifact_route_def q)
  have "artifact_blob (ae_root v) ?rel d = []"
    using assms(7,8) by (auto simp: Exists_def os_Stat_def is_file_def artifact_blob_def blob_of_def)
  then have "artifact_blob (ae_root v) ?rel (snd (artifact_mux v r d)) = rq_body r"
    unfolding u artifact.put_blob[OF assms(6)] by (simp add: write_at_def)
  then show ?thesis using assms(5,8) by (auto simp: artifact_blob_def blob_of_def os_ReadFile_def split: option.splits)
qed

lemma v4_get:
  assumes "rq_method r = ''GET''" "rq_path r = v4RouteBase @ ''/DownloadArtifact''" "rq_query r = ''artifactName='' @ QueryEscape name"
    and "Resolve (ae_root v) (v4BlobRel name) = Inr path" "os_ReadFile d path = Some content"
  shows "artifact_mux v r d = (Answered (SentFile (FileContent content)), d)"
proof -
  have "direct_url (sample_get (v4RouteBase @ ''/DownloadArtifact'') [])" by code_simp
  then have u: "direct_url r" using assms(2) by (simp add: direct_url_def url_path_def sample_get_def)
  have "os_Stat d path" using assms(5) by (simp add: os_Stat_def is_file_def os_ReadFile_def)
  then show ?thesis
    by (simp add: artifact_mux_def v4_handlers(4)[OF assms(1,2)] run_artifact_route_def artifact_query(1)[OF assms(3)]
        v4DownloadArtifact_def assms(4) ServeFile_direct[OF u assms(5)])
qed

text \<open>C35: The life of a v4 artifact over HTTP. For every artifact name, whatever bytes it holds, a client that asks for
  an upload URL, puts its content to exactly that URL as one block and then the block list, later asks for a
  download URL and gets exactly that URL, receives the content; in between, any number of requests of other
  clients that neither write that blob nor delete a directory above it change nothing.\<close>

theorem v4_http_round_trip:
  assumes "Resolve (ae_root v) (v4BlobRel name) = Inr path"
    and "artifact_ready (ae_root v) (v4BlobRel name) d" "\<not> Exists (ae_root v) (v4BlobRel name) d"
    and "name \<noteq> []" "content \<noteq> []" "slash \<notin> set (rq_host r1)" "slash \<notin> set (rq_host r4)"
    and "rq_method r1 = ''POST''" "rq_path r1 = v4RouteBase @ ''/CreateArtifact''" "ae_create v (rq_body r1) = Some q1" "ca_Name q1 = name"
    and "fst (artifact_mux v r1 d) = Answered (CreatedArtifact c)"
    and "rq_method r2 = ''PUT''" "url_parts (co_SignedUploadURL c @ ''&comp=block'') = (h2, rq_path r2, rq_query r2)" "rq_body r2 = content"
    and "rq_method r3 = ''PUT''" "url_parts (co_SignedUploadURL c @ ''&comp=blocklist'') = (h3, rq_path r3, rq_query r3)"
    and "rq_method r4 = ''POST''" "rq_path r4 = v4RouteBase @ ''/GetSignedArtifactURL''"
    and "ae_getURL v (rq_body r4) = Some q4" "gs_Name q4 = name"
    and "fst (artifact_mux v r4 d') = Answered (SignedURL u)"
    and "rq_method r5 = ''GET''" "url_parts (go_SignedURL u) = (h5, rq_path r5, rq_query r5)"
    and "list_all (\<lambda>r. \<not> touches v path r) (rs1 @ rs2)"
  shows "last (fst (serve_all (artifact_mux v) ([r1, r2] @ rs1 @ [r3] @ rs2 @ [r4, r5]) d)) =
    Answered (SentFile (FileContent content))"
proof -
  have c: "co_SignedUploadURL c = ''http://'' @ rq_host r1 @ v4RouteBase @ ''/UploadArtifact?artifactName='' @ QueryEscape name"
    using assms(12) by (auto simp: artifact_mux_def v4_handlers(1)[OF assms(8,9)] run_artifact_route_def v4CreateArtifact_def assms(10,11))
  have u: "go_SignedURL u = ''http://'' @ rq_host r4 @ v4RouteBase @ ''/DownloadArtifact?artifactName='' @ QueryEscape name"
    using assms(22) by (auto simp: artifact_mux_def v4_handlers(3)[OF assms(18,19)] run_artifact_route_def v4GetSignedArtifactURL_def assms(20,21))
  have d1: "snd (artifact_mux v r1 d) = d"
    by (simp add: artifact_mux_def v4_handlers(1)[OF assms(8,9)] run_artifact_route_def)
  note p2 = signed_url_parts[OF assms(6), of "''/UploadArtifact''" "''&comp=block''" name h2 "rq_path r2" "rq_query r2"]
  note p3 = signed_url_parts[OF assms(6), of "''/UploadArtifact''" "''&comp=blocklist''" name h3 "rq_path r3" "rq_query r3"]
  note p5 = signed_url_parts[OF assms(7), of "''/DownloadArtifact''" "[]" name h5 "rq_path r5" "rq_query r5"]
  have r2: "rq_path r2 = v4RouteBase @ ''/UploadArtifact''" "rq_query r2 = ''artifactName='' @ QueryEscape name @ ''&comp=block''"
    using p2 assms(14) by (simp_all add: c)
  have r3: "rq_path r3 = v4RouteBase @ ''/UploadArtifact''" "rq_query r3 = ''artifactName='' @ QueryEscape name @ ''&comp='' @ ''blocklist''"
    using p3 assms(17) by (simp_all add: c)
  have r5: "rq_path r5 = v4RouteBase @ ''/DownloadArtifact''" "rq_query r5 = ''artifactName='' @ QueryEscape name"
    using p5 assms(24) by (simp_all add: u)
  define d2 where "d2 = snd (artifact_mux v r2 d)"
  have f2: "os_ReadFile d2 path = Some content"
    using v4_put[OF assms(13) r2 assms(4) _ assms(2,3,1)] assms(5,15) by (simp add: d2_def)
  have "\<not> touches v path r3" using artifact_query(2)[OF r3(2)]
    by (simp add: touches_def written_file_def removed_dir_def v4_handlers(2)[OF assms(16) r3(1)])
  moreover have "\<not> touches v path r4"
    by (simp add: touches_def written_file_def removed_dir_def v4_handlers(3)[OF assms(18,19)])
  ultimately have "list_all (\<lambda>r. \<not> touches v path r) (rs1 @ [r3] @ rs2 @ [r4])" using assms(25) by simp
  from untouched_all[OF this, of d2] f2
  have f5: "os_ReadFile (snd (serve_all (artifact_mux v) (rs1 @ [r3] @ rs2 @ [r4]) d2)) path = Some content" by simp
  have "[r1, r2] @ rs1 @ [r3] @ rs2 @ [r4, r5] = r1 # r2 # (rs1 @ [r3] @ rs2 @ [r4]) @ [r5]" by simp
  then have "fst (serve_all (artifact_mux v) ([r1, r2] @ rs1 @ [r3] @ rs2 @ [r4, r5]) d) =
      fst (artifact_mux v r1 d) # fst (artifact_mux v r2 d) # fst (serve_all (artifact_mux v) (rs1 @ [r3] @ rs2 @ [r4]) d2) @
      [fst (artifact_mux v r5 (snd (serve_all (artifact_mux v) (rs1 @ [r3] @ rs2 @ [r4]) d2)))]"
    by (simp only: serve_all_Cons serve_all_append d1 fst_conv snd_conv d2_def[symmetric] split: prod.split) (simp add: serve_all_Cons)
  then show ?thesis using v4_get[OF assms(23) r5 assms(1) f5] by simp
qed

subsection \<open>Relative paths of plain segments\<close>

definition rel_of :: "string list \<Rightarrow> string" where
  "rel_of segs = str_join segs [slash]"

lemma rel_of_render: "segs \<noteq> [] \<Longrightarrow> rel_of segs = render False segs"
  by (simp add: rel_of_def render_def)

lemma rel_of_append: "a \<noteq> [] \<Longrightarrow> b \<noteq> [] \<Longrightarrow> rel_of (a @ b) = rel_of a @ slash # rel_of b"
proof (induction a)
  case (Cons x a)
  then show ?case by (cases "a = []") (simp_all add: rel_of_def str_join_Cons)
qed simp

lemma rel_of_not_Nil: "list_all plain_seg segs \<Longrightarrow> segs \<noteq> [] \<Longrightarrow> rel_of segs \<noteq> []"
  using is_rooted_render(2)[OF plain_list_clean[of segs False]] by (simp add: rel_of_render)

lemma Clean_rel_of: "list_all plain_seg segs \<Longrightarrow> segs \<noteq> [] \<Longrightarrow> Clean (rel_of segs) = rel_of segs"
  using Clean_render[OF plain_list_clean[of segs False]] by (simp add: rel_of_render)

lemma Join_rel_of:
  assumes "list_all plain_seg (a @ b)" "a \<noteq> []" "b \<noteq> []"
  shows "Join [rel_of a, rel_of b] = rel_of (a @ b)"
proof -
  have "list_all plain_seg a" "list_all plain_seg b" using assms(1) by simp_all
  then have "rel_of a \<noteq> []" "rel_of b \<noteq> []" using assms(2,3) rel_of_not_Nil by blast+
  then have "Join [rel_of a, rel_of b] = Clean (rel_of (a @ b))"
    by (simp add: Join_def rel_of_append[OF assms(2,3)])
  with Clean_rel_of[OF assms(1)] assms(2) show ?thesis by simp
qed

lemma Resolve_rel_of:
  assumes "list_all plain_seg R" "list_all plain_seg segs" "segs \<noteq> []"
  shows "Resolve (render True R) (rel_of segs) = Inr (render True (R @ segs))"
proof -
  have c: "Clean (rel_of segs) = render False segs" using Clean_rel_of[OF assms(2,3)] rel_of_render[OF assms(3)] by simp
  have "\<not> (\<exists>ss. segs = ''..'' # ss)" using assms(2) by (auto simp: plain_seg_def)
  then have "\<not> (render False segs = ''..'' \<or> HasPrefix (render False segs) ''../'')"
    unfolding Clean_relative_escape[OF plain_list_clean[OF assms(2)]] .
  then show ?thesis unfolding Resolve_def Let_def c Join_below[OF assms(1,2)] by simp
qed

lemma set_rel_of: "set (rel_of segs) \<subseteq> {slash} \<union> \<Union> (set ` set segs)"
  unfolding rel_of_def
proof (induction segs)
  case (Cons s ss)
  then show ?case by (cases "ss = []") (auto simp: str_join_Cons)
qed simp

lemma rel_of_no: "c \<noteq> slash \<Longrightarrow> \<forall>s \<in> set segs. c \<notin> set s \<Longrightarrow> c \<notin> set (rel_of segs)"
  using set_rel_of[of segs] by blast

subsection \<open>The v3 protocol over HTTP\<close>

text \<open>The downloads below \<open>/artifact/\<close>.\<close>

lemma count_slashes:
  assumes "list_all plain_seg segs" "segs \<noteq> []"
  shows "count_list (path_of segs) slash = length segs"
proof -
  have "count_list (str_join segs [slash]) slash + 1 = length segs" using assms
  proof (induction segs)
    case (Cons s ss)
    have "count_list s slash = 0" using Cons.prems by (simp add: plain_seg_def count_list_0_iff)
    with Cons show ?case by (cases "ss = []") (simp_all add: str_join_Cons)
  qed simp
  then show ?thesis by (simp add: path_of_def)
qed

lemma path_of_no_slash_end:
  assumes "list_all plain_seg segs" "segs \<noteq> []"
  shows "\<not> HasSuffix (path_of segs) ''/''"
proof
  assume "HasSuffix (path_of segs) ''/''"
  then obtain q where q: "path_of segs = q @ [slash]" unfolding HasSuffix_iff by blast
  have "str_split slash (path_of segs) = [] # segs"
    using split_render[OF plain_list_clean[OF assms(1), of True]] assms(2) by (simp add: path_of_render)
  moreover have "str_split slash (q @ slash # []) = str_split slash q @ [[]]" by (simp only: str_split_joined str_split.simps)
  ultimately have "last ([] # segs) = []" using q by (metis last_snoc)
  with assms show False by (cases segs rule: rev_cases) (simp_all add: plain_seg_def)
qed

lemma artifact_get_routes: "filter (\<lambda>rt. rt_method rt = ''GET'') artifact_routes =
  [\<lparr>rt_method = ''GET'', rt_segs = [Lit ''_apis'', Lit ''pipelines'', Lit ''workflows'', Wild ''runId'', Lit ''artifacts''], rt_handler = V3List\<rparr>,
   \<lparr>rt_method = ''GET'', rt_segs = [Lit ''download'', Wild ''container''], rt_handler = V3DownloadList\<rparr>,
   \<lparr>rt_method = ''GET'', rt_segs = [Lit ''artifact'', Multi ''path''], rt_handler = V3DownloadArtifact\<rparr>,
   \<lparr>rt_method = ''GET'', rt_segs = [Lit ''twirp'', Lit ''github.actions.results.api.v1.ArtifactService'', Lit ''DownloadArtifact''],
    rt_handler = V4DownloadArtifact\<rparr>]"
  by code_simp

lemma artifact_put_routes: "filter (\<lambda>rt. rt_method rt = ''PUT'') artifact_routes =
  [\<lparr>rt_method = ''PUT'', rt_segs = [Lit ''upload'', Wild ''runId''], rt_handler = V3Upload\<rparr>,
   \<lparr>rt_method = ''PUT'', rt_segs = [Lit ''twirp'', Lit ''github.actions.results.api.v1.ArtifactService'', Lit ''UploadArtifact''],
    rt_handler = V4UploadArtifact\<rparr>]"
  by code_simp

lemma artifact_handler:
  assumes "rq_method r = ''GET''" "rq_path r = path_of (''artifact'' # segs)" "list_all plain_seg segs" "segs \<noteq> []"
    and "\<forall>s \<in> set segs. CHR ''%'' \<notin> set s"
  shows "find_handler artifact_routes r = Handled V3DownloadArtifact [(''path'', rel_of segs)]"
proof -
  let ?rt = "\<lparr>rt_method = ''GET'', rt_segs = [Lit ''artifact'', Multi ''path''], rt_handler = V3DownloadArtifact\<rparr>"
  let ?p = "path_of (''artifact'' # segs)"
  have pl: "list_all plain_seg (''artifact'' # segs)" using assms(3) by (simp add: plain_seg_def)
  obtain s ss where s: "segs = s # ss" using assms(4) by (cases segs) auto
  have e: "pathUnescape ''artifact'' = ''artifact''" by code_simp
  have ps: "pathUnescape s = s" "s \<noteq> []" "s \<noteq> ''/''" using assms(3,5) by (auto simp: s plain_seg_def pathUnescape_plain)
  have pr: "pathUnescape (rel_of segs) = rel_of segs" using assms(5) by (intro pathUnescape_plain rel_of_no) auto
  have walk: "match_path (map (\<lambda>r. (r, rt_segs r)) (filter (\<lambda>rt. rt_method rt = ''GET'') artifact_routes)) (''artifact'' # segs @ t) [] =
      Some (?rt, [pathUnescape (str_join (segs @ t) [slash])])" for t
    unfolding artifact_get_routes
    by (simp add: s next_lit_def next_wild_def multi_route_def map_filter_simps e ps Let_def)
  have m: "tree_match artifact_routes ''GET'' ?p = Some (?rt, [rel_of segs])"
    using walk[of "[]"] path_of_segments[OF pl] pr
    by (simp add: tree_match_def match_method_def rel_of_def)
  have sp: "str_split slash (tl (?p @ ''/'')) = (''artifact'' # segs) @ [[]]"
  proof -
    have "tl (?p @ ''/'') = tl ?p @ slash # []" by (simp add: path_of_def)
    then show ?thesis using path_of_segments[OF pl] by (simp only: str_split_joined str_split.simps list.distinct simp_thms)
  qed
  have m2: "tree_match artifact_routes ''GET'' (?p @ ''/'') = Some (?rt, [pathUnescape (str_join (segs @ [[]]) [slash])])"
    using walk[of "[[]]"] by (simp add: tree_match_def match_method_def sp)
  have "count_list (?p @ ''/'') slash = length segs + 2" using count_slashes[OF pl] by simp
  then have "\<not> exactMatch (tree_match artifact_routes ''GET'' (?p @ ''/'')) (?p @ ''/'')"
    unfolding m2 using assms(4) by (simp add: exactMatch_def is_multi_def)
  then show ?thesis
    by (simp add: find_handler_def Let_def assms(1,2) cleanPath_path_of[OF pl] m)
qed

text \<open>A segment that a URL shows as it is: nothing that is decoded, ends a path, or separates one for \<open>ServeFile\<close>.\<close>

definition url_seg :: "string \<Rightarrow> bool" where
  "url_seg s \<longleftrightarrow> plain_seg s \<and> CHR ''%'' \<notin> set s \<and> CHR ''?'' \<notin> set s \<and> CHR ''#'' \<notin> set s \<and> CHR 0x5C \<notin> set s"

lemma url_seg_plain: "list_all url_seg segs \<Longrightarrow> list_all plain_seg segs"
  by (simp add: list_all_iff url_seg_def)

lemma url_seg_no:
  assumes "list_all url_seg segs"
  shows "\<forall>s \<in> set segs. CHR ''%'' \<notin> set s" "\<forall>s \<in> set segs. CHR ''?'' \<notin> set s" "\<forall>s \<in> set segs. CHR ''#'' \<notin> set s"
    "\<forall>s \<in> set segs. CHR 0x5C \<notin> set s"
  using assms by (simp_all add: list_all_iff url_seg_def)

lemma v3_handlers:
  assumes "url_seg runId"
  shows "rq_method r = ''PUT'' \<Longrightarrow> rq_path r = path_of [''upload'', runId] \<Longrightarrow>
      find_handler artifact_routes r = Handled V3Upload [(''runId'', runId)]"
    "rq_method r = ''GET'' \<Longrightarrow> rq_path r = path_of [''download'', runId] \<Longrightarrow>
      find_handler artifact_routes r = Handled V3DownloadList [(''container'', runId)]"
    "rq_method r = ''POST'' \<Longrightarrow> rq_path r = path_of [''_apis'', ''pipelines'', ''workflows'', runId, ''artifacts''] \<Longrightarrow>
      find_handler artifact_routes r = Handled V3Reserve [(''runId'', runId)]"
proof -
  have e: "pathUnescape runId = runId" "runId \<noteq> ''/''" "runId \<noteq> []" "plain_seg runId"
    using assms by (auto simp: url_seg_def plain_seg_def pathUnescape_plain)
  have c: "pathUnescape ''upload'' = ''upload''" "pathUnescape ''download'' = ''download''" "pathUnescape ''_apis'' = ''_apis''"
    "pathUnescape ''pipelines'' = ''pipelines''" "pathUnescape ''workflows'' = ''workflows''" "pathUnescape ''artifacts'' = ''artifacts''"
    by code_simp+
  have pl: "list_all plain_seg [''upload'', runId]" "list_all plain_seg [''download'', runId]"
    "list_all plain_seg [''_apis'', ''pipelines'', ''workflows'', runId, ''artifacts'']"
    using e(4) by (simp_all add: plain_seg_def)
  note sim = next_lit_def next_wild_def multi_route_def map_filter_simps e(1-3) c Let_def
  { assume a: "rq_method r = ''PUT''" "rq_path r = path_of [''upload'', runId]"
    have "match_path (map (\<lambda>r. (r, rt_segs r)) (filter (\<lambda>rt. rt_method rt = rq_method r) artifact_routes)) [''upload'', runId] [] =
        Some (\<lparr>rt_method = ''PUT'', rt_segs = [Lit ''upload'', Wild ''runId''], rt_handler = V3Upload\<rparr>, [runId])"
      unfolding a artifact_put_routes by (simp add: sim)
    from find_handler_hit[OF pl(1) _ a(2) this]
    show "find_handler artifact_routes r = Handled V3Upload [(''runId'', runId)]" by (simp add: is_multi_def) }
  { assume a: "rq_method r = ''GET''" "rq_path r = path_of [''download'', runId]"
    have "match_path (map (\<lambda>r. (r, rt_segs r)) (filter (\<lambda>rt. rt_method rt = rq_method r) artifact_routes)) [''download'', runId] [] =
        Some (\<lparr>rt_method = ''GET'', rt_segs = [Lit ''download'', Wild ''container''], rt_handler = V3DownloadList\<rparr>, [runId])"
      unfolding a artifact_get_routes by (simp add: sim)
    from find_handler_hit[OF pl(2) _ a(2) this]
    show "find_handler artifact_routes r = Handled V3DownloadList [(''container'', runId)]" by (simp add: is_multi_def) }
  { assume a: "rq_method r = ''POST''" "rq_path r = path_of [''_apis'', ''pipelines'', ''workflows'', runId, ''artifacts'']"
    have pr: "filter (\<lambda>rt. rt_method rt = ''POST'') artifact_routes =
        \<lparr>rt_method = ''POST'', rt_segs = [Lit ''_apis'', Lit ''pipelines'', Lit ''workflows'', Wild ''runId'', Lit ''artifacts''],
          rt_handler = V3Reserve\<rparr> # filter (\<lambda>rt. rt_method rt = ''POST'') registerV4Routes"
      "filter (\<lambda>rt. rt_method rt = ''POST'') registerV4Routes = map (\<lambda>(s, h).
        \<lparr>rt_method = ''POST'', rt_segs = [Lit ''twirp'', Lit ''github.actions.results.api.v1.ArtifactService'', Lit s], rt_handler = h\<rparr>)
        [(''CreateArtifact'', V4CreateArtifact), (''FinalizeArtifact'', V4FinalizeArtifact), (''ListArtifacts'', V4ListArtifacts),
         (''GetSignedArtifactURL'', V4GetSignedArtifactURL), (''DeleteArtifact'', V4DeleteArtifact)]"
      by code_simp+
    have "match_path (map (\<lambda>r. (r, rt_segs r)) (filter (\<lambda>rt. rt_method rt = rq_method r) artifact_routes))
        [''_apis'', ''pipelines'', ''workflows'', runId, ''artifacts''] [] = Some (\<lparr>rt_method = ''POST'',
          rt_segs = [Lit ''_apis'', Lit ''pipelines'', Lit ''workflows'', Wild ''runId'', Lit ''artifacts''], rt_handler = V3Reserve\<rparr>, [runId])"
      unfolding a pr by (simp add: sim)
    from find_handler_hit[OF pl(3) _ a(2) this]
    show "find_handler artifact_routes r = Handled V3Reserve [(''runId'', runId)]" by (simp add: is_multi_def) }
qed

text \<open>A chunk put to the reserved URL, and what a sequence of them does.\<close>

definition put_to :: "string \<Rightarrow> string \<Rightarrow> request \<Rightarrow> bool" where
  "put_to url item r \<longleftrightarrow> rq_method r = ''PUT'' \<and> header_get r ''Content-Encoding'' = [] \<and>
     (case url_parts (url @ ''?itemPath='' @ QueryEscape item) of (h, path, query) \<Rightarrow> rq_path r = path \<and> rq_query r = query)"

definition chunk_requests :: "request list \<Rightarrow> (string \<times> string) list" where
  "chunk_requests rs = map (\<lambda>r. (header_get r ''Content-Range'', rq_body r)) rs"

lemma itemPath_query: "rq_query r = ''itemPath='' @ QueryEscape n \<Longrightarrow> query_get r ''itemPath'' = n"
proof -
  have "list_all (\<lambda>c. is_lower c \<or> is_upper c) ''itemPath''" by code_simp
  from parse_param_escaped[OF this] have p: "parse_param (''itemPath='' @ QueryEscape n) = Some (''itemPath'', n)" by simp
  have "CHR ''&'' \<notin> set (''itemPath='' @ QueryEscape n)" using QueryEscape_no(1) by simp
  from ParseQuery_one[OF p this] show "rq_query r = ''itemPath='' @ QueryEscape n \<Longrightarrow> query_get r ''itemPath'' = n"
    by (simp add: query_get_def)
qed

lemma put_to_parts:
  assumes "put_to (''http://'' @ host @ ''/upload/'' @ runId) item r" "url_seg runId" "slash \<notin> set host"
  shows "find_handler artifact_routes r = Handled V3Upload [(''runId'', runId)]" "query_get r ''itemPath'' = item"
    "header_get r ''Content-Encoding'' = []"
proof -
  let ?p = "path_of [''upload'', runId]"
  have p: "?p = ''/upload/'' @ runId" by (simp add: path_of_def)
  have c: "CHR ''#'' \<notin> set ?p" "CHR ''?'' \<notin> set ?p" "hd ?p = slash" "?p \<noteq> []" using assms(2) by (auto simp: p url_seg_def)
  have "CHR ''#'' \<notin> set (''itemPath='' @ QueryEscape item)" using QueryEscape_no(3) by simp
  from url_parts_url(1)[OF assms(3) c(3,4,1,2) this] assms(1)
  have r: "rq_method r = ''PUT''" "rq_path r = ?p" "rq_query r = ''itemPath='' @ QueryEscape item"
    "header_get r ''Content-Encoding'' = []"
    by (simp_all add: put_to_def p)
  show "find_handler artifact_routes r = Handled V3Upload [(''runId'', runId)]" by (rule v3_handlers(1)[OF assms(2) r(1,2)])
  show "query_get r ''itemPath'' = item" by (rule itemPath_query[OF r(3)])
  show "header_get r ''Content-Encoding'' = []" by (rule r(4))
qed

lemma put_all_chunks:
  assumes "list_all (put_to (''http://'' @ host @ ''/upload/'' @ runId) item) rs" "url_seg runId" "slash \<notin> set host"
  shows "snd (serve_all (artifact_mux v) rs d) = v3_upload_all (ae_root v) runId item (chunk_requests rs) d"
  using assms(1)
proof (induction rs arbitrary: d)
  case Nil
  then show ?case by (simp add: v3_upload_all_def chunk_requests_def)
next
  case (Cons r rs)
  have "put_to (''http://'' @ host @ ''/upload/'' @ runId) item r" using Cons.prems by simp
  note p = put_to_parts[OF this assms(2,3)]
  have "snd (artifact_mux v r d) = snd (v3Upload (ae_root v) runId item [] (header_get r ''Content-Range'') (rq_body r) d)"
    by (simp add: artifact_mux_def p run_artifact_route_def PathValue_def split: prod.split)
  with Cons show ?case by (simp add: serve_all_Cons v3_upload_all_def chunk_requests_def)
qed

lemma HasSuffix_last_seg:
  assumes "HasSuffix (rel_of segs) w" "slash \<notin> set w" "segs \<noteq> []"
  shows "HasSuffix (last segs) w"
proof (cases segs rule: rev_cases)
  case Nil
  with assms(3) show ?thesis by simp
next
  case (snoc ss s)
  show ?thesis
  proof (cases "ss = []")
    case True
    then show ?thesis using assms(1) by (simp add: snoc rel_of_def)
  next
    case False
    then have "rel_of segs = rel_of ss @ slash # s" by (simp add: snoc rel_of_def str_join_snoc)
    with assms(1) obtain r where r: "rel_of ss @ slash # s = r @ w" by (auto simp: HasSuffix_iff)
    consider u where "rel_of ss = r @ u" "u @ slash # s = w" | u where "rel_of ss @ u = r" "slash # s = u @ w"
      using r unfolding append_eq_append_conv2 by blast
    then show ?thesis
    proof cases
      case 1
      then have "slash \<in> set w" by (metis in_set_conv_decomp)
      with assms(2) show ?thesis by simp
    next
      case 2
      have "u \<noteq> []"
      proof
        assume "u = []"
        with 2(2) have "w = slash # s" by simp
        with assms(2) show False by simp
      qed
      then obtain u' where "s = u' @ w" using 2(2) by (cases u) auto
      then show ?thesis by (auto simp: snoc HasSuffix_iff)
    qed
  qed
qed

lemma artifact_url_direct:
  assumes "rq_path r = path_of segs" "list_all url_seg segs" "segs \<noteq> []" "last segs \<noteq> ''index.html''"
  shows "direct_url r"
proof -
  note pl = url_seg_plain[OF assms(2)]
  note no = url_seg_no[OF assms(2)]
  have s: "path_of segs = slash # rel_of segs" by (simp add: path_of_def rel_of_def)
  have u: "url_path r = path_of segs"
    using rel_of_no[OF _ no(1)] by (simp add: url_path_def assms(1) s pathUnescape_plain)
  have sp: "str_split slash (path_of segs) = [] # segs"
    using split_render[OF plain_list_clean[OF pl, of True]] assms(3) by (simp add: path_of_render)
  have "CHR 0x5C \<notin> set (path_of segs)" using rel_of_no[OF _ no(4)] by (simp add: s)
  then have "map (\<lambda>c. if c = CHR 0x5C then slash else c) (path_of segs) = path_of segs" by (intro map_idI) auto
  then have "containsDotDot (path_of segs) \<longleftrightarrow> ''..'' \<in> set ([] # segs)" by (simp only: containsDotDot_def sp)
  moreover have "''..'' \<notin> set segs" using pl by (auto simp: list_all_iff plain_seg_def)
  moreover have "\<not> HasSuffix (path_of segs) ''/index.html''"
  proof
    assume "HasSuffix (path_of segs) ''/index.html''"
    then obtain q where q: "path_of segs = q @ slash # ''index.html''" unfolding HasSuffix_iff by auto
    have i: "str_split slash ''index.html'' = [''index.html'']" by code_simp
    have "[] # segs = str_split slash q @ [''index.html'']" using sp unfolding q str_split_joined i by simp
    then have "last ([] # segs) = ''index.html''" by simp
    with assms(3,4) show False by simp
  qed
  ultimately show ?thesis by (simp add: direct_url_def u)
qed

lemma v3_location:
  assumes "clean_root (ae_root v)" "list_all url_seg segs" "segs \<noteq> []" "last segs \<noteq> ''index.html''"
    and "Resolve (ae_root v) (rel_of segs) = Inr p" "os_ReadFile d p = Some content"
    and "rq_method r = ''GET''" "slash \<notin> set host"
    and "url_parts (''http://'' @ host @ ''/artifact/'' @ rel_of segs) = (h, rq_path r, rq_query r)"
  shows "fst (artifact_mux v r d) = Answered (SentFile (FileContent content))"
proof -
  let ?p = "path_of (''artifact'' # segs)"
  have p: "?p = ''/artifact/'' @ rel_of segs" using assms(3) by (simp add: path_of_def rel_of_def str_join_Cons)
  note no = url_seg_no[OF assms(2)]
  have c: "CHR ''#'' \<notin> set ?p" "CHR ''?'' \<notin> set ?p" "hd ?p = slash" "?p \<noteq> []"
    unfolding p using rel_of_no[OF _ no(3)] rel_of_no[OF _ no(2)] by simp_all
  have u: "rq_path r = ?p"
    using url_parts_url(2)[OF assms(8) c(3,4,1,2), of "[]"] assms(9) by (simp add: p)
  have us: "list_all url_seg (''artifact'' # segs)" using assms(2) by (simp add: url_seg_def plain_seg_def)
  have dir: "direct_url r" by (rule artifact_url_direct[OF u us]) (use assms(3,4) in simp_all)
  have "os_Stat d p" using assms(6) by (simp add: os_Stat_def is_file_def os_ReadFile_def)
  then show ?thesis
    by (simp add: artifact_mux_def artifact_handler[OF assms(7) u url_seg_plain[OF assms(2)] assms(3) no(1)]
        run_artifact_route_def PathValue_def v3DownloadArtifact_def assms(5) ServeFile_direct[OF dir assms(6)])
qed

lemma v3_listed:
  assumes "list_all plain_seg R" "ae_root v = render True R" "list_all plain_seg (runId # name # rest)" "rest \<noteq> []"
    and "\<not> HasSuffix (last rest) ''.gz__''"
    and "artifact_ready (ae_root v) (rel_of (runId # name # rest)) d"
    and "os_ReadFile d (render True (R @ runId # name # rest)) = Some content"
  shows "\<exists>items. v3DownloadList host (ae_root v) runId name d = ContainerItems items \<and>
    \<lparr>it_Path = rel_of (name # rest), it_ItemType = ''file'',
     it_ContentLocation = ''http://'' @ host @ ''/artifact/'' @ rel_of (runId # name # rest)\<rparr> \<in> set (ir_Value items)"
proof -
  let ?dir = "render True (R @ [runId, name])" and ?path = "render True (R @ runId # name # rest)"
  have r1: "rel_of [runId] = runId" "rel_of [name] = name" by (simp_all add: rel_of_def)
  have pl: "list_all plain_seg ([runId] @ [name])" "list_all plain_seg ([runId, name] @ rest)" "list_all plain_seg ([name] @ rest)"
    using assms(3) by simp_all
  have base: "Join [runId, name] = rel_of [runId, name]" using Join_rel_of[OF pl(1)] by (simp add: r1)
  have nn: "name \<noteq> []" using assms(3) by (simp add: plain_seg_def)
  have rs: "Resolve (ae_root v) (rel_of [runId, name]) = Inr ?dir"
    unfolding assms(2) using Resolve_rel_of[OF assms(1), of "[runId, name]"] pl(1) by simp
  have rp: "Resolve (ae_root v) (rel_of (runId # name # rest)) = Inr ?path"
    unfolding assms(2) using Resolve_rel_of[OF assms(1) assms(3)] by simp
  have snoc: "R @ runId # name # rest = (R @ runId # name # butlast rest) @ [last rest]" using assms(4) by simp
  have pls: "list_all plain_seg ((R @ runId # name # butlast rest) @ [last rest])" unfolding snoc[symmetric] using assms(1,3) by simp
  have D: "Dir ?path = render True (R @ runId # name # butlast rest)" unfolding snoc by (rule Dir_render[OF pls])
  have plD: "list_all plain_seg (R @ runId # name # butlast rest)" using pls by simp
  have "?dir = render True (take (length R + 2) (R @ runId # name # butlast rest))" by simp
  moreover have "length R + 2 \<in> set [0..<Suc (length (R @ runId # name # butlast rest))]"
    unfolding set_upt atLeastLessThan_iff by simp
  ultimately have "?dir \<in> set (path_prefixes (Dir ?path))" unfolding D path_prefixes_render[OF plD] set_map by blast
  moreover have "\<not> list_ex (is_file d) (path_prefixes (Dir ?path))" using assms(6) by (simp add: artifact_ready_def rp)
  ultimately have nf: "\<not> is_file d ?dir" by (auto simp: list_ex_iff)
  have cat: "R @ runId # name # rest = (R @ [runId, name]) @ rest" by simp
  have pu: "?path = under ?dir @ rel_of rest"
  proof -
    have "?path = slash # rel_of ((R @ [runId, name]) @ rest)" by (simp add: render_def rel_of_def)
    also have "\<dots> = (slash # rel_of (R @ [runId, name])) @ slash # rel_of rest"
      using assms(4) by (subst rel_of_append) simp_all
    also have "slash # rel_of (R @ [runId, name]) = ?dir" by (simp add: render_def rel_of_def)
    also have "?dir @ slash # rel_of rest = under ?dir @ rel_of rest"
    proof -
      have "rel_of (R @ [runId, name]) \<noteq> []" by (rule rel_of_not_Nil) (use assms(1,3) in simp_all)
      then have "?dir \<noteq> [slash]" by (simp add: render_def rel_of_def)
      then show ?thesis by (simp add: under_def)
    qed
    finally show ?thesis .
  qed
  have "?path \<in> set (map fst (disk_files d))" using map_of_SomeD[OF assms(7)[unfolded os_ReadFile_def]] by force
  then have inW: "?path \<in> set (WalkDir_files d ?dir)" using nf pu by (simp add: WalkDir_files_def)
  have ne: "?path \<noteq> ?dir" using pu rel_of_not_Nil[of rest] assms(3,4) by (auto simp: under_def split: if_splits)
  have rel: "rel_to ?dir ?path = rel_of rest" using ne by (simp add: rel_to_def) (simp add: pu)
  have "\<not> HasSuffix (rel_of rest) ''.gz__''"
    using HasSuffix_last_seg[of rest "''.gz__''"] assms(4,5) by auto
  then have dn: "TrimSuffix (rel_of rest) ''.gz__'' = rel_of rest" by (simp add: TrimSuffix_def)
  have j: "Join [name, rel_of rest] = rel_of (name # rest)" "Join [rel_of [runId, name], rel_of rest] = rel_of (runId # name # rest)"
    using Join_rel_of[OF pl(3)] Join_rel_of[OF pl(2)] assms(4) by (simp_all add: r1)
  define item where "item = (\<lambda>path. let rel = rel_to ?dir path; displayName = TrimSuffix rel ''.gz__'' in
      \<lparr>it_Path = Join [name, displayName], it_ItemType = ''file'',
       it_ContentLocation = ''http://'' @ host @ ''/artifact/'' @ Join [rel_of [runId, name], rel]\<rparr>)"
  have L: "v3DownloadList host (ae_root v) runId name d = ContainerItems \<lparr>ir_Value = map item (WalkDir_files d ?dir)\<rparr>"
    unfolding v3DownloadList_def Let_def using nn by (simp add: base rs item_def Let_def)
  have "item ?path = \<lparr>it_Path = rel_of (name # rest), it_ItemType = ''file'',
     it_ContentLocation = ''http://'' @ host @ ''/artifact/'' @ rel_of (runId # name # rest)\<rparr>"
    by (simp add: item_def rel dn j Let_def)
  with inW L show ?thesis by (metis containerItemResponse.select_convs(1) image_eqI list.set_map)
qed

text \<open>C36: The life of a v3 artifact over HTTP. A client reserves a container, puts the chunks of a new file to the URL it
  was given, each with its \<open>Content-Range\<close>, in any order and with any overlap as long as no byte is left out,
  and lists the artifact: the listing has an item with the file's path, and getting the location it names serves
  exactly the content, provided that no segment holds a byte that the location does not escape and the file's
  name is not \<open>index.html\<close> (which \<open>ServeFile\<close> redirects) and does not end in \<open>.gz__\<close> (which the listing cuts off).\<close>

theorem v3_http_round_trip:
  assumes "clean_root (ae_root v)" "list_all url_seg (runId # name # rest)" "rest \<noteq> []"
    and "last rest \<noteq> ''index.html''" "\<not> HasSuffix (last rest) ''.gz__''"
    and "artifact_ready (ae_root v) (rel_of (runId # name # rest)) d" "\<not> Exists (ae_root v) (rel_of (runId # name # rest)) d"
    and "rq_method r1 = ''POST''" "rq_path r1 = ''/_apis/pipelines/workflows/'' @ runId @ ''/artifacts''" "slash \<notin> set (rq_host r1)"
    and "fst (artifact_mux v r1 d) = Answered (UploadURL u)"
    and "list_all (put_to (fc_FileContainerResourceURL u) (rel_of (name # rest))) rs" "content \<noteq> []"
    and "list_all (chunk_of content) (map (\<lambda>(h, b). (nat (range_start h), b)) (chunk_requests rs))"
    and "chunks_cover content (map (\<lambda>(h, b). (nat (range_start h), b)) (chunk_requests rs))"
    and "d1 = snd (serve_all (artifact_mux v) (r1 # rs) d)"
    and "rq_method r2 = ''GET''" "rq_path r2 = ''/download/'' @ runId" "rq_query r2 = ''itemPath='' @ QueryEscape name"
    and "slash \<notin> set (rq_host r2)"
  shows "\<exists>items item. fst (artifact_mux v r2 d1) = Answered (ContainerItems items) \<and> item \<in> set (ir_Value items) \<and>
    it_Path item = rel_of (name # rest) \<and>
    (\<forall>r3 h. rq_method r3 = ''GET'' \<and> url_parts (it_ContentLocation item) = (h, rq_path r3, rq_query r3) \<longrightarrow>
       fst (artifact_mux v r3 d1) = Answered (SentFile (FileContent content)))"
proof -
  have run: "url_seg runId" and pl: "list_all plain_seg (runId # name # rest)" using assms(2) url_seg_plain[OF assms(2)] by simp_all
  have h1: "find_handler artifact_routes r1 = Handled V3Reserve [(''runId'', runId)]"
    by (rule v3_handlers(3)[OF run assms(8)]) (simp add: assms(9) path_of_def)
  have u: "fc_FileContainerResourceURL u = ''http://'' @ rq_host r1 @ ''/upload/'' @ runId"
    using assms(11) by (auto simp: artifact_mux_def h1 run_artifact_route_def v3Reserve_def PathValue_def)
  have j: "Join [runId, rel_of (name # rest)] = rel_of (runId # name # rest)"
    using Join_rel_of[of "[runId]" "name # rest"] pl by (simp add: rel_of_def)
  have item: "rel_of (name # rest) \<noteq> []" using pl by (intro rel_of_not_Nil) simp_all
  have "snd (artifact_mux v r1 d) = d" by (simp add: artifact_mux_def h1 run_artifact_route_def)
  then have d1: "d1 = v3_upload_all (ae_root v) runId (rel_of (name # rest)) (chunk_requests rs) d"
    using put_all_chunks[OF assms(12)[unfolded u] run assms(10)] by (simp add: assms(16) serve_all_Cons)
  note up = v3_upload_all_eq[of "ae_root v" runId "rel_of (name # rest)" d "chunk_requests rs", unfolded j, OF assms(6) item]
  obtain R where R: "list_all plain_seg R" "ae_root v = render True R" using clean_root_segs[OF assms(1)] .
  let ?path = "render True (R @ runId # name # rest)"
  have rp: "Resolve (ae_root v) (rel_of (runId # name # rest)) = Inr ?path"
    unfolding R(2) using Resolve_rel_of[OF R(1) pl] by simp
  have "artifact_blob (ae_root v) (rel_of (runId # name # rest)) d = []"
    using assms(7) by (auto simp: Exists_def rp os_Stat_def is_file_def artifact_blob_def blob_of_def)
  from artifact.reassembles[OF assms(6) this assms(14,15)]
  have "artifact_blob (ae_root v) (rel_of (runId # name # rest)) d1 = content" unfolding d1 up .
  then have f: "os_ReadFile d1 ?path = Some content"
    using assms(13) by (auto simp: artifact_blob_def rp blob_of_def os_ReadFile_def split: option.splits)
  have ready: "artifact_ready (ae_root v) (rel_of (runId # name # rest)) d1"
    unfolding d1 up by (rule artifact.put_all_ready[OF assms(6)])
  have h2: "find_handler artifact_routes r2 = Handled V3DownloadList [(''container'', runId)]"
    by (rule v3_handlers(2)[OF run assms(17)]) (simp add: assms(18) path_of_def)
  have q2: "query_get r2 ''itemPath'' = name" by (rule itemPath_query[OF assms(19)])
  from v3_listed[OF R pl assms(3,5) ready f, of "rq_host r2"] obtain items where
    items: "v3DownloadList (rq_host r2) (ae_root v) runId name d1 = ContainerItems items"
      "\<lparr>it_Path = rel_of (name # rest), it_ItemType = ''file'',
        it_ContentLocation = ''http://'' @ rq_host r2 @ ''/artifact/'' @ rel_of (runId # name # rest)\<rparr> \<in> set (ir_Value items)" by blast
  have "fst (artifact_mux v r2 d1) = Answered (ContainerItems items)"
    by (simp add: artifact_mux_def h2 run_artifact_route_def PathValue_def q2 items(1))
  moreover have "fst (artifact_mux v r3 d1) = Answered (SentFile (FileContent content))"
    if "rq_method r3 = ''GET''" "url_parts (''http://'' @ rq_host r2 @ ''/artifact/'' @ rel_of (runId # name # rest)) = (h, rq_path r3, rq_query r3)"
    for r3 h
    by (rule v3_location[OF assms(1,2) _ _ rp f that(1) assms(20) that(2)]) (use assms(3,4) in simp_all)
  ultimately show ?thesis using items(2)
    by (intro exI[of _ items] exI[of _ "\<lparr>it_Path = rel_of (name # rest), it_ItemType = ''file'',
        it_ContentLocation = ''http://'' @ rq_host r2 @ ''/artifact/'' @ rel_of (runId # name # rest)\<rparr>"]) auto
qed

subsection \<open>Concrete runs\<close>

definition sample_env :: artifact_env where
  "sample_env = \<lparr>ae_root = ''/art'', ae_modTime = (\<lambda>_. []),
     ae_create = (\<lambda>b. Some \<lparr>ca_WorkflowRunBackendId = [], ca_WorkflowJobRunBackendId = [], ca_Name = b, ca_Version = 4\<rparr>),
     ae_finalize = (\<lambda>b. Some \<lparr>fa_Name = b, fa_Size = 0\<rparr>), ae_list = (\<lambda>b. Some \<lparr>la_NameFilter = b\<rparr>),
     ae_getURL = (\<lambda>b. Some \<lparr>gs_Name = b\<rparr>), ae_delete = (\<lambda>b. Some \<lparr>da_Name = b\<rparr>)\<rparr>"

definition a_request :: "string \<Rightarrow> string \<Rightarrow> string \<Rightarrow> string smap \<Rightarrow> string \<Rightarrow> request" where
  "a_request meth path query headers body = \<lparr>rq_method = meth, rq_host = ''h:1'', rq_path = path, rq_query = query,
     rq_headers = headers, rq_body = body\<rparr>"

theorem artifact_requests_confined_witness:
  "os_ReadFile (snd (serve_all (artifact_mux sample_env)
      [a_request ''PUT'' ''/upload/..%2F..'' ''itemPath=..%2Fetc%2Fpasswd'' [] ''x'', a_request ''POST'' (v4RouteBase @ ''/DeleteArtifact'') [] [] ''..'']
      \<lparr>disk_files = [(''/etc/passwd'', ''root'')], disk_dirs = [''/'', ''/etc'', ''/art'']\<rparr>)) ''/etc/passwd'' =
   os_ReadFile \<lparr>disk_files = [(''/etc/passwd'', ''root'')], disk_dirs = [''/'', ''/etc'', ''/art'']\<rparr> ''/etc/passwd''"
proof -
  have c: "clean_root (ae_root sample_env)" by code_simp
  have b: "\<not> below (ae_root sample_env) ''/etc/passwd''" by code_simp
  show ?thesis by (rule artifact_requests_confined[OF c b])
qed

theorem v4_http_round_trip_witness:
  "last (fst (serve_all (artifact_mux sample_env)
     ([a_request ''POST'' (v4RouteBase @ ''/CreateArtifact'') [] [] ''a b'',
       a_request ''PUT'' (v4RouteBase @ ''/UploadArtifact'') ''artifactName=a+b&comp=block'' [] ''zip''] @
      [a_request ''POST'' (v4RouteBase @ ''/DeleteArtifact'') [] [] ''a''] @
      [a_request ''PUT'' (v4RouteBase @ ''/UploadArtifact'') ''artifactName=a+b&comp=blocklist'' [] ''<xml>''] @ [] @
      [a_request ''POST'' (v4RouteBase @ ''/GetSignedArtifactURL'') [] [] ''a b'',
       a_request ''GET'' (v4RouteBase @ ''/DownloadArtifact'') ''artifactName=a+b'' [] []]) sample_store)) =
    Answered (SentFile (FileContent ''zip''))"
proof -
  let ?v = sample_env
  let ?r1 = "a_request ''POST'' (v4RouteBase @ ''/CreateArtifact'') [] [] ''a b''"
  let ?r2 = "a_request ''PUT'' (v4RouteBase @ ''/UploadArtifact'') ''artifactName=a+b&comp=block'' [] ''zip''"
  let ?r3 = "a_request ''PUT'' (v4RouteBase @ ''/UploadArtifact'') ''artifactName=a+b&comp=blocklist'' [] ''<xml>''"
  let ?r4 = "a_request ''POST'' (v4RouteBase @ ''/GetSignedArtifactURL'') [] [] ''a b''"
  let ?r5 = "a_request ''GET'' (v4RouteBase @ ''/DownloadArtifact'') ''artifactName=a+b'' [] []"
  let ?del = "a_request ''POST'' (v4RouteBase @ ''/DeleteArtifact'') [] [] ''a''"
  let ?q1 = "\<lparr>ca_WorkflowRunBackendId = [], ca_WorkflowJobRunBackendId = [], ca_Name = ''a b'', ca_Version = 4\<rparr>"
  let ?u1 = "''http://h:1'' @ v4RouteBase @ ''/UploadArtifact?artifactName=a+b''"
  let ?u4 = "''http://h:1'' @ v4RouteBase @ ''/DownloadArtifact?artifactName=a+b''"
  have p: "Resolve (ae_root ?v) (v4BlobRel ''a b'') = Inr ''/art/a b/a b.zip''" by code_simp
  have r: "artifact_ready (ae_root ?v) (v4BlobRel ''a b'') sample_store" by code_simp
  have e: "\<not> Exists (ae_root ?v) (v4BlobRel ''a b'') sample_store" by code_simp
  have ne: "''a b'' \<noteq> []" "''zip'' \<noteq> []" by simp_all
  have s: "slash \<notin> set (rq_host ?r1)" "slash \<notin> set (rq_host ?r4)" by code_simp+
  have m: "rq_method ?r1 = ''POST''" "rq_path ?r1 = v4RouteBase @ ''/CreateArtifact''" "rq_method ?r2 = ''PUT''" "rq_body ?r2 = ''zip''"
    "rq_method ?r3 = ''PUT''" "rq_method ?r4 = ''POST''" "rq_path ?r4 = v4RouteBase @ ''/GetSignedArtifactURL''" "rq_method ?r5 = ''GET''"
    by (simp_all add: a_request_def)
  have q: "ae_create ?v (rq_body ?r1) = Some ?q1" "ca_Name ?q1 = ''a b''" "ae_getURL ?v (rq_body ?r4) = Some \<lparr>gs_Name = ''a b''\<rparr>"
    "gs_Name \<lparr>gs_Name = ''a b''\<rparr> = ''a b''" by (simp_all add: a_request_def sample_env_def)
  have c: "fst (artifact_mux ?v ?r1 sample_store) = Answered (CreatedArtifact \<lparr>co_OK = True, co_SignedUploadURL = ?u1\<rparr>)" by code_simp
  have u: "fst (artifact_mux ?v ?r4 sample_store) = Answered (SignedURL \<lparr>go_SignedURL = ?u4\<rparr>)" by code_simp
  have t2: "url_parts (co_SignedUploadURL \<lparr>co_OK = True, co_SignedUploadURL = ?u1\<rparr> @ ''&comp=block'') = (''h:1'', rq_path ?r2, rq_query ?r2)"
    by code_simp
  have t3: "url_parts (co_SignedUploadURL \<lparr>co_OK = True, co_SignedUploadURL = ?u1\<rparr> @ ''&comp=blocklist'') = (''h:1'', rq_path ?r3, rq_query ?r3)"
    by code_simp
  have t5: "url_parts (go_SignedURL \<lparr>go_SignedURL = ?u4\<rparr>) = (''h:1'', rq_path ?r5, rq_query ?r5)" by code_simp
  have nt: "list_all (\<lambda>r. \<not> touches ?v ''/art/a b/a b.zip'' r) ([?del] @ [])" by code_simp
  show ?thesis
    by (rule v4_http_round_trip[OF p r e ne s m(1,2) q(1,2) c m(3) t2 m(4) m(5) t3 m(6,7) q(3,4) u m(8) t5 nt])
qed

theorem v3_http_round_trip_witness:
  "\<exists>items item. fst (artifact_mux sample_env (a_request ''GET'' ''/download/1'' ''itemPath=a'' [] [])
      (snd (serve_all (artifact_mux sample_env)
        [a_request ''POST'' ''/_apis/pipelines/workflows/1/artifacts'' [] [] [],
         a_request ''PUT'' ''/upload/1'' ''itemPath=a%2Ff'' [(''Content-Range'', ''bytes 1-1/*'')] ''y'',
         a_request ''PUT'' ''/upload/1'' ''itemPath=a%2Ff'' [(''Content-Range'', ''bytes 0-0/*'')] ''x''] sample_store))) =
      Answered (ContainerItems items) \<and> item \<in> set (ir_Value items) \<and> it_Path item = ''a/f''"
proof -
  let ?v = sample_env
  let ?r1 = "a_request ''POST'' ''/_apis/pipelines/workflows/1/artifacts'' [] [] []"
  let ?rs = "[a_request ''PUT'' ''/upload/1'' ''itemPath=a%2Ff'' [(''Content-Range'', ''bytes 1-1/*'')] ''y'',
         a_request ''PUT'' ''/upload/1'' ''itemPath=a%2Ff'' [(''Content-Range'', ''bytes 0-0/*'')] ''x'']"
  let ?r2 = "a_request ''GET'' ''/download/1'' ''itemPath=a'' [] []"
  let ?m = "map (\<lambda>(h, b). (nat (range_start h), b)) (chunk_requests ?rs)"
  have c: "clean_root (ae_root ?v)" by code_simp
  have s: "list_all url_seg (''1'' # ''a'' # [''f''])" by code_simp
  have ne: "[''f''] \<noteq> []" "last [''f''] \<noteq> ''index.html''" "''xy'' \<noteq> []" by simp_all
  have gz: "\<not> HasSuffix (last [''f'']) ''.gz__''" by code_simp
  have r: "artifact_ready (ae_root ?v) (rel_of (''1'' # ''a'' # [''f''])) sample_store" by code_simp
  have e: "\<not> Exists (ae_root ?v) (rel_of (''1'' # ''a'' # [''f''])) sample_store" by code_simp
  have m: "rq_method ?r1 = ''POST''" "rq_path ?r1 = ''/_apis/pipelines/workflows/'' @ ''1'' @ ''/artifacts''"
    "rq_method ?r2 = ''GET''" "rq_path ?r2 = ''/download/'' @ ''1''" by (simp_all add: a_request_def)
  have q: "rq_query ?r2 = ''itemPath='' @ QueryEscape ''a''" by code_simp
  have h: "slash \<notin> set (rq_host ?r1)" "slash \<notin> set (rq_host ?r2)" by code_simp+
  have u: "fst (artifact_mux ?v ?r1 sample_store) = Answered (UploadURL \<lparr>fc_FileContainerResourceURL = ''http://h:1/upload/1''\<rparr>)"
    by code_simp
  have p: "list_all (put_to (fc_FileContainerResourceURL \<lparr>fc_FileContainerResourceURL = ''http://h:1/upload/1''\<rparr>)
      (rel_of (''a'' # [''f'']))) ?rs" by code_simp
  have ch: "list_all (chunk_of ''xy'') ?m" "chunks_cover ''xy'' ?m" by code_simp+
  have j: "rel_of (''a'' # [''f'']) = ''a/f''" by code_simp
  from v3_http_round_trip[OF c s ne(1,2) gz r e m(1,2) h(1) u p ne(3) ch refl m(3,4) q h(2)] show ?thesis
    unfolding j by blast
qed

text \<open>Where a location is not escaped: a question mark in a file's name ends the path the client asks for.\<close>

lemma v3_location_not_escaped:
  "let d = snd (serve_all (artifact_mux sample_env) [a_request ''PUT'' ''/upload/1'' ''itemPath=a%2Fb%3Fc'' [] ''x''] sample_store);
       location = ''http://h:1/artifact/1/a/b?c''
   in (case fst (artifact_mux sample_env (a_request ''GET'' ''/download/1'' ''itemPath=a'' [] []) d) of
         Answered (ContainerItems items) \<Rightarrow> map it_ContentLocation (ir_Value items) = [location] | _ \<Rightarrow> False) \<and>
      (case url_parts location of (h, path, query) \<Rightarrow> fst (artifact_mux sample_env (a_request ''GET'' path query [] []) d) = Answered Missing)"
  by code_simp

end
