(* ===== verification/Cli.thy ===== *)
theory Cli
  imports Workflow_Run Flags Cache_Server Artifact_Server
begin

text \<open>
  The command line (\<open>cmd/mirror/main.go\<close>) and the synthetic event payloads
  (\<open>internal/engine/event_payloads.go\<close>). What \<open>runCommand\<close> writes to its two output streams is a list; an
  error it prints before returning 1 is the error result of its effect. What only this file asks of the machine
  is the record \<open>cli\<close>: the files the two servers keep are a \<open>disk\<close> inside the machine's state, listening and shutting
  down are operations on that state.
\<close>

subsection \<open>event\_payloads.go\<close>

text \<open>JSON text with \<open>~\<close> for the double quote and \<open>|\<close> for a line break; the payloads have neither.\<close>

definition json_text :: "string \<Rightarrow> string" where
  "json_text s = map (\<lambda>c. if c = CHR ''~'' then CHR 0x22 else if c = CHR ''|'' then newline else c) s"

definition zeroSHA :: string where
  "zeroSHA = replicate 40 (CHR ''0'')"

definition DefaultEventPayload :: "string \<Rightarrow> string" where
  "DefaultEventPayload eventName =
     (if eventName = ''push'' then json_text
       (''{|  ~ref~: ~refs/heads/main~,|  ~before~: ~'' @ zeroSHA @ ''~,|  ~after~: ~'' @ zeroSHA @
        ''~,|  ~repository~: {~full_name~: ~local/mirror-gha~, ~default_branch~: ~main~},'' @
        ''|  ~pusher~: {~name~: ~local~, ~email~: ~local@example.com~},'' @
        ''|  ~head_commit~: {~id~: ~'' @ zeroSHA @ ''~, ~message~: ~local test run~, ~author~: {~name~: ~local~}}|}'')
      else if eventName = ''pull_request'' then json_text
       (''{|  ~action~: ~opened~,|  ~number~: 1,|  ~pull_request~: {|    ~number~: 1,'' @
        ''|    ~title~: ~Local test pull request~,|    ~state~: ~open~,|    ~draft~: false,|    ~merged~: false,'' @
        ''|    ~head~: {~ref~: ~feature-branch~, ~sha~: ~'' @ zeroSHA @ ''~},|    ~base~: {~ref~: ~main~, ~sha~: ~'' @ zeroSHA @
        ''~},|    ~user~: {~login~: ~local~}|  },|  ~repository~: {~full_name~: ~local/mirror-gha~}|}'')
      else if eventName = ''workflow_dispatch'' then json_text
        ''{~inputs~: {}, ~ref~: ~refs/heads/main~, ~repository~: {~full_name~: ~local/mirror-gha~}}''
      else if eventName = ''workflow_call'' then json_text ''{~inputs~: {}}''
      else if eventName = ''repository_dispatch'' then json_text
        ''{~action~: ~mirror-local-event~, ~client_payload~: {}, ~repository~: {~full_name~: ~local/mirror-gha~}}''
      else if eventName = ''workflow_run'' then json_text
       (''{|  ~action~: ~completed~,|  ~workflow_run~: {|    ~id~: 1,|    ~name~: ~local test run~,'' @
        ''|    ~head_branch~: ~main~,|    ~head_sha~: ~'' @ zeroSHA @ ''~,|    ~status~: ~completed~,'' @
        ''|    ~conclusion~: ~success~,|    ~event~: ~push~|  }|}'')
      else ''{}'')"

subsection \<open>Flags and tokens\<close>

definition parseVarFlags :: "string list \<Rightarrow> string smap" where
  "parseVarFlags vals = fold (\<lambda>v vars. case str_cut v ''='' of (name, val, _) \<Rightarrow> mput name val vars) vals []"

definition var_line :: "string \<Rightarrow> string smap \<Rightarrow> string smap" where
  "var_line raw vars = (let line = TrimSpace raw in
     if line = [] \<or> HasPrefix line ''#'' then vars
     else case str_cut line ''='' of (name, val, _) \<Rightarrow> mput name val vars)"

definition parseVarFile :: "'w host \<Rightarrow> string \<Rightarrow> ('w, string smap) io" where
  "parseVarFile h path w = (case h_read h path w of
     NotExist \<Rightarrow> (Inr [], w)
   | ReadFailed e \<Rightarrow> (Inl (Wrapped (''read var file '' @ path) (Message e)), w)
   | Content data \<Rightarrow> (Inr (fold var_line (str_split newline data) []), w))"

fun parse_overrides :: "string list \<Rightarrow> string smap \<Rightarrow> string + string smap" where
  "parse_overrides [] m = Inr m"
| "parse_overrides (v # vs) m = (case str_cut v ''='' of (key, path, found) \<Rightarrow>
     if \<not> found then Inl (''--local-repository '' @ v @ '' must be in the form owner/repo[@ref]=local/path'')
     else parse_overrides vs (mput key path m))"

definition parseLocalRepositoryOverrides :: "string list \<Rightarrow> string + string smap" where
  "parseLocalRepositoryOverrides vals = parse_overrides vals []"

text \<open>\<open>base64.RawURLEncoding\<close>.\<close>

definition b64_char :: "nat \<Rightarrow> char" where
  "b64_char n = (''ABCDEFGHIJKLMNOPQRSTUVWXYZabcdefghijklmnopqrstuvwxyz0123456789-_'') ! (n mod 64)"

fun raw_url_encode :: "nat list \<Rightarrow> string" where
  "raw_url_encode (a # b # c # r) =
     [b64_char (a div 4), b64_char (a mod 4 * 16 + b div 16), b64_char (b mod 16 * 4 + c div 64), b64_char (c mod 64)] @
     raw_url_encode r"
| "raw_url_encode [a, b] = [b64_char (a div 4), b64_char (a mod 4 * 16 + b div 16), b64_char (b mod 16 * 4)]"
| "raw_url_encode [a] = [b64_char (a div 4), b64_char (a mod 4 * 16)]"
| "raw_url_encode [] = []"

definition fakeRuntimeToken :: string where
  "fakeRuntimeToken =
     raw_url_encode (map of_char (json_text ''{~alg~:~none~,~typ~:~JWT~}'')) @ ''.'' @
     raw_url_encode (map of_char (json_text ''{~scp~:~Actions.Results:1:1~,~exp~:9999999999}'')) @ ''.mirror-gha-local-signature''"

definition fakeGitHubToken :: string where
  "fakeGitHubToken = ''ghs_mirror_gha_local_placeholder_token''"

subsection \<open>Listing\<close>

datatype cli_error =
  ExecError exec_error
| ParseRejected parse_error
| OnRejected on_error
| ListRejected string matrix_error
| GraphRejected topo_error
| RunFailed run_error
| FlagRejected flag_error                      \<comment> \<open>with the usage\<close>
| UsageShown

text \<open>What is printed: to either stream, or an error on the error stream.\<close>

datatype printed = ToStdout string | ToStderr string | ErrorLine cli_error

type_synonym report = "printed list \<times> int"

definition job_line :: "string \<Rightarrow> Job \<Rightarrow> combination \<Rightarrow> printed" where
  "job_line name job combo = ToStdout (name @ MatrixSuffix combo @ [CHR 0x09] @ ''runs-on='' @ job_runs_on job @
     (if job_needs job = [] then [] else [CHR 0x09] @ ''needs='' @ str_join (job_needs job) '','') @ [newline])"

fun list_lines :: "Workflow \<Rightarrow> string list \<Rightarrow> report" where
  "list_lines wfl [] = ([], 0)"
| "list_lines wfl (name # names) = (case ExpandMatrix (job_strategy (wf_job wfl name)) of
     Inl e \<Rightarrow> ([ErrorLine (ListRejected name e)], 1)
   | Inr combos \<Rightarrow> (case list_lines wfl names of (out, code) \<Rightarrow>
       (map (job_line name (wf_job wfl name)) combos @ out, code)))"

definition listJobs :: "Workflow \<Rightarrow> report" where
  "listJobs wfl = list_lines wfl (sort (map fst (wf_jobs wfl)))"

definition graph_lines :: "Workflow \<Rightarrow> string \<Rightarrow> printed list" where
  "graph_lines wfl name = ToStdout (name @ [newline]) #
     map (\<lambda>dep. ToStdout (''  needs: '' @ dep @ [newline])) (job_needs (wf_job wfl name))"

definition printGraph :: "Workflow \<Rightarrow> report" where
  "printGraph wfl = (case TopoSortJobs (wf_jobs wfl) of
     Inl e \<Rightarrow> ([ErrorLine (GraphRejected e)], 1)
   | Inr names \<Rightarrow> (concat (map (graph_lines wfl) names), 0))"

subsection \<open>Running\<close>

record runMode =
  m_list :: bool
  m_graph :: bool
  m_dry_run :: bool
  m_workdir :: string
  m_overrides :: "string smap"
  m_vars :: "string smap"
  m_debug :: bool
  m_event_path :: string
  m_event_name :: string

text \<open>The flags of \<open>mirror run\<close>. A repeatable flag appends.\<close>

type_synonym stringSliceFlag = "string list"

definition stringSliceFlag_String :: "stringSliceFlag \<Rightarrow> string" where
  "stringSliceFlag_String s = str_join s '',''"

definition stringSliceFlag_Set :: "string \<Rightarrow> stringSliceFlag \<Rightarrow> stringSliceFlag" where
  "stringSliceFlag_Set v s = s @ [v]"

record run_flags =
  fl_mode :: runMode
  fl_local_repos :: stringSliceFlag
  fl_vars :: stringSliceFlag
  fl_var_file :: string

definition default_flags :: run_flags where
  "default_flags = \<lparr>fl_mode = \<lparr>m_list = False, m_graph = False, m_dry_run = False, m_workdir = [], m_overrides = [],
      m_vars = [], m_debug = False, m_event_path = [], m_event_name = []\<rparr>,
     fl_local_repos = [], fl_vars = [], fl_var_file = ''.vars''\<rparr>"

definition run_flag_set :: "run_flags flag smap" where
  "run_flag_set =
     [(''list'', BoolFlag (\<lambda>b. fl_mode_update (m_list_update (\<lambda>_. b)))),
      (''graph'', BoolFlag (\<lambda>b. fl_mode_update (m_graph_update (\<lambda>_. b)))),
      (''dryrun'', BoolFlag (\<lambda>b. fl_mode_update (m_dry_run_update (\<lambda>_. b)))),
      (''workdir'', ValueFlag (\<lambda>v. fl_mode_update (m_workdir_update (\<lambda>_. v)))),
      (''local-repository'', ValueFlag (\<lambda>v. fl_local_repos_update (stringSliceFlag_Set v))),
      (''var'', ValueFlag (\<lambda>v. fl_vars_update (stringSliceFlag_Set v))),
      (''var-file'', ValueFlag (\<lambda>v. fl_var_file_update (\<lambda>_. v))),
      (''debug'', BoolFlag (\<lambda>b. fl_mode_update (m_debug_update (\<lambda>_. b)))),
      (''event-path'', ValueFlag (\<lambda>v. fl_mode_update (m_event_path_update (\<lambda>_. v)))),
      (''event-name'', ValueFlag (\<lambda>v. fl_mode_update (m_event_name_update (\<lambda>_. v))))]"

record build_info =
  bi_version :: string
  bi_commit :: string
  bi_date :: string
  bi_builtBy :: string

definition source_build :: build_info where
  "source_build = \<lparr>bi_version = ''dev'', bi_commit = ''none'', bi_date = ''unknown'', bi_builtBy = ''source''\<rparr>"

record 'w cli =
  cl_host :: "'w host"
  cl_schedule :: schedule
  cl_build :: build_info
  cl_unmarshal :: "string \<Rightarrow> yaml_error + Workflow"
  cl_unmarshal_index :: "string \<Rightarrow> string + CacheEntry list"
  cl_getwd :: "'w \<Rightarrow> string + string"
  cl_abs :: "string \<Rightarrow> 'w \<Rightarrow> string + string"
  cl_write_file :: "string \<Rightarrow> string \<Rightarrow> 'w \<Rightarrow> (string + unit) \<times> 'w"
  cl_disk :: "'w \<Rightarrow> disk"
  cl_set_disk :: "disk \<Rightarrow> 'w \<Rightarrow> 'w"
  cl_listen :: "'w \<Rightarrow> (string + int) \<times> 'w"
  cl_shutdown :: "server \<Rightarrow> 'w \<Rightarrow> 'w"

definition on_disk :: "'w cli \<Rightarrow> (disk \<Rightarrow> 'a \<times> disk) \<Rightarrow> 'w \<Rightarrow> 'a \<times> 'w" where
  "on_disk c f w = (case f (cl_disk c w) of (x, d) \<Rightarrow> (x, cl_set_disk c d w))"

text \<open>A \<open>defer\<close>.\<close>

definition io_finally :: "('w, 'a) io \<Rightarrow> ('w \<Rightarrow> 'w) \<Rightarrow> ('w, 'a) io" where
  "io_finally m cleanup w = (case m w of (r, w1) \<Rightarrow> (r, cleanup w1))"

definition event_name :: "runMode \<Rightarrow> Workflow \<Rightarrow> on_error + string" where
  "event_name mode wfl = (if m_event_name mode \<noteq> [] then Inr (m_event_name mode)
     else bind_res (OnEventNames wfl) (\<lambda>names. Inr (case names of [n] \<Rightarrow> n | _ \<Rightarrow> ''push'')))"

definition workspace_dir :: "'w cli \<Rightarrow> runMode \<Rightarrow> ('w, string) io" where
  "workspace_dir c mode =
     io_bind (if m_workdir mode \<noteq> [] then io_ret (m_workdir mode)
       else (\<lambda>w. io_res (\<lambda>e. Wrapped ''resolve current directory'' (Message e)) (cl_getwd c w) w)) (\<lambda>dir w.
     io_res (\<lambda>e. Wrapped ''resolve workspace directory'' (Message e)) (cl_abs c dir w) w)"

text \<open>Dry runs still check that the runner is supported.\<close>

definition cli_backend :: "'w host \<Rightarrow> bool \<Rightarrow> 'w selector" where
  "cli_backend h dry runsOn = (case SelectBackend (h_goos h) runsOn of
     Inl e \<Rightarrow> Inl e | Inr b \<Rightarrow> Inr (if dry then DryRunBackend h else backend_of h b))"

definition base_env :: "runMode \<Rightarrow> string smap" where
  "base_env mode = (let env = [(''GITHUB_TOKEN'', fakeGitHubToken)] in
     if m_debug mode then mput ''ACTIONS_STEP_DEBUG'' ''true'' env else env)"

definition event_json :: "'w cli \<Rightarrow> runMode \<Rightarrow> string \<Rightarrow> ('w, string) io" where
  "event_json c mode eventName = (if m_event_path mode \<noteq> []
     then io_wrap ''read event path'' (read_file (cl_host c) (m_event_path mode))
     else io_ret (DefaultEventPayload eventName))"

definition server_url :: "int \<Rightarrow> string" where
  "server_url port = ''http://host.docker.internal:'' @ itoa port @ ''/''"

text \<open>\<open>StoreRoot\<close> (\<open>cacheserver/server.go\<close>).\<close>

definition StoreRoot :: "'w host \<Rightarrow> string + string" where
  "StoreRoot h = (case CacheRoot h of Inl e \<Rightarrow> Inl e | Inr root \<Rightarrow> Inr (Join [root, ''action-cache'']))"

definition open_artifacts :: "'w cli \<Rightarrow> string \<Rightarrow> 'w \<Rightarrow> (string + unit) \<times> 'w" where
  "open_artifacts c root = on_disk c (\<lambda>d. case OpenArtifactStore root d of Inl e \<Rightarrow> (Inl e, d) | Inr d1 \<Rightarrow> (Inr (), d1))"

definition server_env :: "server \<Rightarrow> server \<Rightarrow> string smap \<Rightarrow> string smap" where
  "server_env cacheSrv artifactSrv env =
     mput ''ACTIONS_RESULTS_URL'' (server_url (ArtifactPort artifactSrv))
       (mput ''ACTIONS_RUNTIME_URL'' (server_url (ArtifactPort artifactSrv))
         (mput ''ACTIONS_RUNTIME_TOKEN'' fakeRuntimeToken (mput ''ACTIONS_CACHE_URL'' (server_url (Port cacheSrv)) env)))"

text \<open>The servers run unless the run is dry, and are stopped on every path.\<close>

definition with_artifacts :: "'w cli \<Rightarrow> server \<Rightarrow> string smap \<Rightarrow> (string smap \<Rightarrow> ('w, report) io) \<Rightarrow> ('w, report) io" where
  "with_artifacts c cacheSrv env body =
     io_bind (io_wrap ''create artifact store'' (io_op (NewTempStore (h_mkdir_temp (cl_host c) []) (open_artifacts c)))) (\<lambda>root.
     io_bind (io_wrap ''start artifact server'' (io_op (StartArtifacts (cl_listen c)))) (\<lambda>artifactSrv.
     io_finally (io_bind (body (server_env cacheSrv artifactSrv env)) (\<lambda>(out, code).
         io_ret (out @ [ToStdout (''artifacts stored at: '' @ root @ [newline])], code)))
       (StopArtifacts (cl_shutdown c) artifactSrv)))"

definition with_servers :: "'w cli \<Rightarrow> bool \<Rightarrow> string smap \<Rightarrow> (string smap \<Rightarrow> ('w, report) io) \<Rightarrow> ('w, report) io" where
  "with_servers c dry env body = (if dry then body env
     else io_bind (io_res (\<lambda>e. Wrapped ''resolve cache store root'' (Message e)) (StoreRoot (cl_host c))) (\<lambda>storeRoot.
     io_bind (io_wrap ''open cache store'' (io_op (on_disk c (OpenStore (cl_unmarshal_index c) storeRoot)))) (\<lambda>_.
     io_bind (io_wrap ''start cache server'' (io_op (Start (cl_listen c)))) (\<lambda>cacheSrv.
     io_finally (with_artifacts c cacheSrv env body) (Stop (cl_shutdown c) cacheSrv)))))"

definition step_lines :: "string \<Rightarrow> JobResult_step \<Rightarrow> printed list" where
  "step_lines name s = [ToStdout (''['' @ name @ ''] '' @ rep_name s @ '': '' @ rep_conclusion s @ [newline])] @
     (if rep_stdout s = [] then [] else [ToStdout (rep_stdout s)]) @
     (if rep_stderr s = [] then [] else [ToStderr (rep_stderr s)])"

definition run_report :: "WorkflowResult \<Rightarrow> report" where
  "run_report res =
     (concat (map (\<lambda>name. case mget (wr_jobs res) name of None \<Rightarrow> []
         | Some jr \<Rightarrow> concat (map (step_lines name) (jr_steps jr))) (wr_order res)),
      if list_ex (\<lambda>name. case mget (wr_jobs res) name of None \<Rightarrow> False | Some jr \<Rightarrow> jr_conclusion jr = ''failure'') (wr_order res)
      then 1 else 0)"

definition run_options :: "runMode \<Rightarrow> string \<Rightarrow> string \<Rightarrow> string \<Rightarrow> string smap \<Rightarrow> JobRunOptions" where
  "run_options mode workspaceDir eventName eventDir extraEnv =
     \<lparr>ro_needs = [], ro_matrix = [], ro_vars = m_vars mode, ro_workspace_dir = workspaceDir,
      ro_local_overrides = m_overrides mode, ro_extra_env = extraEnv, ro_job_id = [],
      ro_event_name = eventName, ro_event_json_dir = eventDir\<rparr>"

definition run_workflow :: "'w cli \<Rightarrow> runMode \<Rightarrow> Workflow \<Rightarrow> JobRunOptions \<Rightarrow> ('w, report) io" where
  "run_workflow c mode wfl opts w =
     (case RunWorkflow (cl_host c) (cl_schedule c) [] wfl (cli_backend (cl_host c) (m_dry_run mode)) opts w of
        (Inl e, w1) \<Rightarrow> (Inr ([ErrorLine (RunFailed e)], 1), w1)
      | (Inr res, w1) \<Rightarrow> (Inr (run_report res), w1))"

definition run_for_event :: "'w cli \<Rightarrow> runMode \<Rightarrow> Workflow \<Rightarrow> string \<Rightarrow> ('w, report) io" where
  "run_for_event c mode wfl eventName =
     io_bind (workspace_dir c mode) (\<lambda>workspaceDir.
     io_bind (event_json c mode eventName) (\<lambda>eventJSON.
     io_bind (io_wrap ''create event dir'' (io_op (h_mkdir_temp (cl_host c) [] ''mirror-event-''))) (\<lambda>eventDir.
     io_finally
       (io_bind (io_wrap ''write event.json'' (io_op (cl_write_file c (Join [eventDir, ''event.json'']) eventJSON))) (\<lambda>_.
        with_servers c (m_dry_run mode) (base_env mode) (\<lambda>extraEnv.
          run_workflow c mode wfl (run_options mode workspaceDir eventName eventDir extraEnv))))
       (\<lambda>w. snd (h_remove_all (cl_host c) eventDir w)))))"

definition or_error :: "('w, report) io \<Rightarrow> 'w \<Rightarrow> report \<times> 'w" where
  "or_error m w = (case m w of (Inl e, w1) \<Rightarrow> (([ErrorLine (ExecError e)], 1), w1) | (Inr r, w1) \<Rightarrow> (r, w1))"

definition runCommand :: "'w cli \<Rightarrow> string \<Rightarrow> runMode \<Rightarrow> 'w \<Rightarrow> report \<times> 'w" where
  "runCommand c path mode w = (case io_wrap ''read workflow'' (read_file (cl_host c) path) w of
     (Inl e, w1) \<Rightarrow> (([ErrorLine (ExecError e)], 1), w1)
   | (Inr data, w1) \<Rightarrow> (case Parse (cl_unmarshal c) data of
       Inl e \<Rightarrow> (([ErrorLine (ParseRejected e)], 1), w1)
     | Inr wfl \<Rightarrow>
        (if m_list mode then (listJobs wfl, w1)
         else if m_graph mode then (printGraph wfl, w1)
         else case event_name mode wfl of
           Inl e \<Rightarrow> (([ErrorLine (OnRejected e)], 1), w1)
         | Inr eventName \<Rightarrow> or_error (run_for_event c mode wfl eventName) w1)))"

definition runMain :: "'w cli \<Rightarrow> string list \<Rightarrow> 'w \<Rightarrow> report \<times> 'w" where
  "runMain c args w = (case parse_flags run_flag_set args default_flags of
     Inl e \<Rightarrow> (([ErrorLine (FlagRejected e)], 1), w)
   | Inr (fl, rest) \<Rightarrow> (case parseLocalRepositoryOverrides (fl_local_repos fl) of
       Inl e \<Rightarrow> (([ErrorLine (ExecError (Message e))], 1), w)
     | Inr overrides \<Rightarrow> (case parseVarFile (cl_host c) (fl_var_file fl) w of
         (Inl e, w1) \<Rightarrow> (([ErrorLine (ExecError e)], 1), w1)
       | (Inr vars, w1) \<Rightarrow> (case rest of
           [] \<Rightarrow> (([ErrorLine UsageShown], 1), w1)
         | path # _ \<Rightarrow> runCommand c path
             ((fl_mode fl)\<lparr>m_overrides := overrides, m_vars := merge vars (parseVarFlags (fl_vars fl))\<rparr>) w1))))"

definition printUsage :: printed where
  "printUsage = ToStdout (''usage: mirror <version|run|dashboard>'' @ [newline])"

text \<open>\<open>main\<close> with its arguments and its exit code.\<close>

definition main :: "'w cli \<Rightarrow> string list \<Rightarrow> 'w \<Rightarrow> report \<times> 'w" where
  "main c os_args w =
     (if length os_args < 2 then (([printUsage], 1), w)
      else if os_args ! 1 = ''version'' then
        (([ToStdout (''mirror '' @ bi_version (cl_build c) @ '' (commit '' @ bi_commit (cl_build c) @ '', built '' @
           bi_date (cl_build c) @ '' by '' @ bi_builtBy (cl_build c) @ '')'' @ [newline])], 0), w)
      else if os_args ! 1 = ''run'' then runMain c (drop 2 os_args) w
      else if os_args ! 1 = ''dashboard'' then
        (([ToStdout (''mirror dashboard: dashboard server not implemented yet'' @ [newline])], 0), w)
      else (([printUsage], 1), w))"

subsection \<open>The exit code\<close>

text \<open>C2: The exit code is 0 exactly when every job of the workflow succeeded: a job that was skipped never hides a
  failure, because what it needs goes back to a job that failed.\<close>

theorem exit_code_zero_iff_all_succeed:
  assumes "RunWorkflow h sch ctx wfl sel opts w = (Inr res, w')"
  shows "snd (run_report res) = 0 \<longleftrightarrow>
    (\<forall>name \<in> fst ` set (wf_jobs wfl). \<exists>jr. mget (wr_jobs res) name = Some jr \<and> jr_conclusion jr = ''success'')"
proof -
  let ?bad = "\<lambda>name. case mget (wr_jobs res) name of None \<Rightarrow> False | Some jr \<Rightarrow> jr_conclusion jr = ''failure''"
  have names: "set (wr_order res) = fst ` set (wf_jobs wfl)"
    using TopoSortJobs_Inr(2)[OF RunWorkflow_Inr(1)[OF assms]] .
  have "snd (run_report res) = 0 \<longleftrightarrow> (\<forall>name \<in> set (wr_order res). \<not> ?bad name)"
    by (auto simp: run_report_def list_ex_iff)
  also have "\<dots> \<longleftrightarrow> (\<forall>name \<in> set (wr_order res). \<exists>jr. mget (wr_jobs res) name = Some jr \<and> jr_conclusion jr = ''success'')"
  proof
    assume ok: "\<forall>name \<in> set (wr_order res). \<not> ?bad name"
    show "\<forall>name \<in> set (wr_order res). \<exists>jr. mget (wr_jobs res) name = Some jr \<and> jr_conclusion jr = ''success''"
    proof
      fix name assume "name \<in> set (wr_order res)"
      then obtain i where i: "i < length (wr_order res)" "wr_order res ! i = name" unfolding in_set_conv_nth by blast
      have "jr_conclusion jr \<noteq> ''failure''" if "n \<in> set (wr_order res)" "mget (wr_jobs res) n = Some jr" for n jr
        using ok that by fastforce
      from RunWorkflow_no_failure[OF assms this i(1)] i(2)
      show "\<exists>jr. mget (wr_jobs res) name = Some jr \<and> jr_conclusion jr = ''success''" by simp
    qed
  qed (force split: option.split)
  finally show ?thesis unfolding names .
qed

theorem exit_code_zero_iff_all_succeed_witness:
  "\<exists>res w'. RunWorkflow sample_host any_schedule [] build_then_deploy (\<lambda>_. Inr failing_backend) sample_options 0 = (Inr res, w') \<and>
    snd (run_report res) \<noteq> 0"
proof -
  let ?r = "RunWorkflow sample_host any_schedule [] build_then_deploy (\<lambda>_. Inr failing_backend) sample_options 0"
  obtain res where res: "fst ?r = Inr res" "mget (wr_jobs res) ''deploy'' = Some skipped_job"
    unfolding build_then_deploy_run by simp
  have run: "?r = (Inr res, snd ?r)" using res(1) by (metis prod.collapse)
  have "''deploy'' \<in> fst ` set (wf_jobs build_then_deploy)" by (simp add: build_then_deploy_def empty_workflow_def)
  with exit_code_zero_iff_all_succeed[OF run] res(2) have "snd (run_report res) \<noteq> 0" by (force simp: skipped_job_def)
  with run show ?thesis by blast
qed

subsection \<open>Flags\<close>

text \<open>The settings that lead from the defaults to given values.\<close>

definition switch_if :: "bool \<Rightarrow> string \<Rightarrow> setting list" where
  "switch_if b n = (if b then [Switch n] else [])"

definition run_settings :: "run_flags \<Rightarrow> setting list" where
  "run_settings fl = switch_if (m_list (fl_mode fl)) ''list'' @ switch_if (m_graph (fl_mode fl)) ''graph'' @
     switch_if (m_dry_run (fl_mode fl)) ''dryrun'' @ switch_if (m_debug (fl_mode fl)) ''debug'' @
     [Value ''workdir'' (m_workdir (fl_mode fl)), Value ''event-path'' (m_event_path (fl_mode fl)),
      Value ''event-name'' (m_event_name (fl_mode fl)), Value ''var-file'' (fl_var_file fl)] @
     map (Value ''local-repository'') (fl_local_repos fl) @ map (Value ''var'') (fl_vars fl)"

definition run_args :: "run_flags \<Rightarrow> string list" where
  "run_args fl = concat (map render_setting (run_settings fl))"

lemma run_flag_names:
  "list_all (\<lambda>n. name_ok n \<and> (case mget run_flag_set n of Some (BoolFlag _) \<Rightarrow> True | _ \<Rightarrow> False)) [''list'', ''graph'', ''dryrun'', ''debug'']"
  "list_all (\<lambda>n. name_ok n \<and> (case mget run_flag_set n of Some (ValueFlag _) \<Rightarrow> True | _ \<Rightarrow> False))
     [''workdir'', ''event-path'', ''event-name'', ''var-file'', ''local-repository'', ''var'']"
  by code_simp+

lemma run_settings_ok: "list_all (setting_ok run_flag_set) (run_settings fl)"
proof -
  have s: "setting_ok run_flag_set (Switch n)" if "n \<in> set [''list'', ''graph'', ''dryrun'', ''debug'']" for n
    using run_flag_names(1) that unfolding list_all_iff setting_ok_def setting.case by blast
  have v: "setting_ok run_flag_set (Value n v)"
    if "n \<in> set [''workdir'', ''event-path'', ''event-name'', ''var-file'', ''local-repository'', ''var'']" for n v
    using run_flag_names(2) that unfolding list_all_iff setting_ok_def setting.case by blast
  show ?thesis unfolding run_settings_def switch_if_def by (auto simp: list_all_iff s v)
qed

lemma apply_run_flags:
  "apply_setting run_flag_set (Switch ''list'') fl = fl_mode_update (m_list_update (\<lambda>_. True)) fl"
  "apply_setting run_flag_set (Switch ''graph'') fl = fl_mode_update (m_graph_update (\<lambda>_. True)) fl"
  "apply_setting run_flag_set (Switch ''dryrun'') fl = fl_mode_update (m_dry_run_update (\<lambda>_. True)) fl"
  "apply_setting run_flag_set (Switch ''debug'') fl = fl_mode_update (m_debug_update (\<lambda>_. True)) fl"
  "apply_setting run_flag_set (Value ''workdir'' v) fl = fl_mode_update (m_workdir_update (\<lambda>_. v)) fl"
  "apply_setting run_flag_set (Value ''event-path'' v) fl = fl_mode_update (m_event_path_update (\<lambda>_. v)) fl"
  "apply_setting run_flag_set (Value ''event-name'' v) fl = fl_mode_update (m_event_name_update (\<lambda>_. v)) fl"
  "apply_setting run_flag_set (Value ''var-file'' v) fl = fl_var_file_update (\<lambda>_. v) fl"
  "apply_setting run_flag_set (Value ''local-repository'' v) fl = fl_local_repos_update (stringSliceFlag_Set v) fl"
  "apply_setting run_flag_set (Value ''var'' v) fl = fl_vars_update (stringSliceFlag_Set v) fl"
  by (simp_all add: run_flag_set_def)

declare apply_setting.simps [simp del]

lemma fold_slices:
  "fold (apply_setting run_flag_set) (map (Value ''local-repository'') vs) fl = fl_local_repos_update (\<lambda>s. s @ vs) fl"
  "fold (apply_setting run_flag_set) (map (Value ''var'') vs) fl = fl_vars_update (\<lambda>s. s @ vs) fl"
  by (induction vs arbitrary: fl) (simp_all add: apply_run_flags stringSliceFlag_Set_def)

lemma fold_switch:
  "fold (apply_setting fs) (switch_if b n) fl = (if b then apply_setting fs (Switch n) fl else fl)"
  by (simp add: switch_if_def)

lemma parse_run_args:
  assumes "m_overrides (fl_mode fl) = []" "m_vars (fl_mode fl) = []" "\<not> is_flag path"
  shows "parse_flags run_flag_set (run_args fl @ path # rest) default_flags = Inr (fl, path # rest)"
proof -
  have "fold (apply_setting run_flag_set) (run_settings fl) default_flags = fl"
    using assms(1,2) unfolding run_settings_def fold_append comp_def fold_simps fold_slices fold_switch apply_run_flags
    by (cases fl; cases "fl_mode fl") (auto simp: default_flags_def intro!: run_flags.equality runMode.equality)
  then show ?thesis
    unfolding run_args_def parse_settings[OF run_settings_ok] by (simp add: parse_stops[OF assms(3)])
qed

text \<open>C37: Every combination of settings can be given on the command line and is read back: rendering the flags, then the
  workflow's path, parses to exactly these settings; whatever follows the path is left alone.\<close>

theorem run_flags_round_trip:
  assumes "m_overrides (fl_mode fl) = []" "m_vars (fl_mode fl) = []" "\<not> is_flag path"
  shows "parse_flags run_flag_set (run_args fl @ path # rest) default_flags = Inr (fl, path # rest)"
  by (rule parse_run_args[OF assms])

theorem run_flags_round_trip_witness:
  "parse_flags run_flag_set ([''--dryrun'', ''--workdir'', [], ''--event-path'', [], ''--event-name'', ''push'', ''--var-file'', ''.vars'',
      ''--var'', ''A=1'', ''--var'', ''B''] @ [''ci.yml'', ''--list'']) default_flags =
   Inr (default_flags\<lparr>fl_mode := (fl_mode default_flags)\<lparr>m_dry_run := True, m_event_name := ''push''\<rparr>, fl_vars := [''A=1'', ''B'']\<rparr>,
     [''ci.yml'', ''--list''])"
proof -
  let ?fl = "default_flags\<lparr>fl_mode := (fl_mode default_flags)\<lparr>m_dry_run := True, m_event_name := ''push''\<rparr>, fl_vars := [''A=1'', ''B'']\<rparr>"
  have a: "run_args ?fl = [''--dryrun'', ''--workdir'', [], ''--event-path'', [], ''--event-name'', ''push'', ''--var-file'', ''.vars'',
      ''--var'', ''A=1'', ''--var'', ''B'']" by code_simp
  have o: "m_overrides (fl_mode ?fl) = []" "m_vars (fl_mode ?fl) = []" by (simp_all add: default_flags_def)
  have p: "\<not> is_flag ''ci.yml''" by code_simp
  show ?thesis using run_flags_round_trip[OF o p, of "[''--list'']"] unfolding a .
qed

text \<open>A flag behind the path does nothing: \<open>mirror run ci.yml --dryrun\<close> runs the workflow for real.\<close>

theorem flags_after_path_ignored:
  assumes "m_overrides (fl_mode fl) = []" "m_vars (fl_mode fl) = []" "\<not> is_flag path"
  shows "main c (prog # ''run'' # run_args fl @ path # rest) w = main c (prog # ''run'' # run_args fl @ [path]) w"
  unfolding main_def runMain_def by (simp add: parse_run_args[OF assms] split: sum.split prod.split)

subsection \<open>The servers' lives\<close>

text \<open>C38: Every server that was started is stopped, the artifact server before the cache server, on every path through a run:
  whatever the workflow does and whichever of the steps in between fails, the machine listens afterwards on
  the ports it listened on before.\<close>

theorem started_servers_are_stopped:
  fixes live :: "'w \<Rightarrow> server list"
  assumes "\<And>w p w'. cl_listen c w = (Inr p, w') \<Longrightarrow> live w' = \<lparr>srv_port = p\<rparr> # live w"
    and "\<And>w e w'. cl_listen c w = (Inl e, w') \<Longrightarrow> live w' = live w"
    and "\<And>s l w. live w = s # l \<Longrightarrow> live (cl_shutdown c s w) = l"
    and "\<And>d w. live (cl_set_disk c d w) = live w" "\<And>p w. live (snd (h_mkdir_temp (cl_host c) [] p w)) = live w"
    and "\<And>env w. live (snd (body env w)) = live w"
  shows "live (snd (with_servers c dry env body w)) = live w"
proof -
  have mk: "live w2 = live w1" if "h_mkdir_temp (cl_host c) [] p w1 = (x, w2)" for p w1 x w2 using assms(5)[of p w1] that by simp
  have od: "live w2 = live w1" if "on_disk c f w1 = (x, w2)" for f :: "disk \<Rightarrow> 'a \<times> disk" and x w1 w2
    using that assms(4) by (auto simp: on_disk_def split: prod.splits)
  have oa: "live w2 = live w1" if "open_artifacts c root w1 = (x, w2)" for root x w1 w2
    using that assms(4) by (auto simp: open_artifacts_def on_disk_def split: prod.splits)
  have oc: "live w2 = live w1" if "on_disk c (OpenStore u root) w1 = (x, w2)" for u root x w1 w2
    using that assms(4) by (auto simp: on_disk_def split: prod.splits)
  have st: "live w2 = (case x of Inr srv \<Rightarrow> srv # live w1 | Inl _ \<Rightarrow> live w1)" if "listen_and_serve what (cl_listen c) w1 = (x, w2)" for what w1 x w2
    using that assms(1,2) by (auto simp: listen_and_serve_def split: prod.splits sum.splits)
  have bd: "live w2 = live w1" if "body e w1 = (x, w2)" for e w1 x w2 using assms(6)[of e w1] that by simp
  have art: "live (snd (with_artifacts c cacheSrv env body w1)) = live w1" for cacheSrv w1
  proof -
    have tmp: "live w2 = live w1" if "NewTempStore (h_mkdir_temp (cl_host c) []) (open_artifacts c) w1 = (x, w2)" for x w1 w2
      using that by (auto simp: NewTempStore_def split: prod.splits sum.splits dest!: mk oa)
    have inner: "live (snd (io_finally (io_bind (body e) (\<lambda>(out, code). io_ret (f out, code))) (StopArtifacts (cl_shutdown c) srv) w1)) = l"
      if "live w1 = srv # l" for e f srv w1 l
      using that by (auto simp: io_finally_def io_bind_def io_ret_def StopArtifacts_def split: prod.splits sum.splits
          dest!: bd intro!: assms(3))
    show ?thesis
      unfolding with_artifacts_def StartArtifacts_def
      by (auto simp: io_bind_def[of "io_wrap _ _"] io_wrap_def io_op_def split: prod.splits sum.splits dest!: tmp st intro!: inner)
  qed
  have inner: "live (snd (io_finally (with_artifacts c srv env body) (Stop (cl_shutdown c) srv) w1)) = l" if "live w1 = srv # l" for srv w1 l
    using art[of srv w1] that assms(3) by (auto simp: io_finally_def Stop_def split: prod.splits)
  show ?thesis
  proof (cases dry)
    case True
    then show ?thesis by (simp add: with_servers_def assms(6))
  next
    case False
    then show ?thesis
      unfolding with_servers_def Start_def
      by (auto simp: io_bind_def io_res_def io_wrap_def io_op_def split: prod.splits sum.splits dest!: oc st intro!: inner)
  qed
qed

text \<open>A machine whose state is the number of its servers, on the ports 0, 1, and so on.\<close>

definition port_list :: "int \<Rightarrow> server list" where
  "port_list w = rev (map (\<lambda>p. \<lparr>srv_port = p\<rparr>) [0..w - 1])"

definition sample_cli :: "int cli" where
  "sample_cli = \<lparr>cl_host = sample_host\<lparr>h_cache_dir := Inr ''/c'', h_mkdir_temp := \<lambda>_ _ w. (Inr ''/tmp/a'', w)\<rparr>, cl_schedule = any_schedule,
     cl_build = source_build, cl_unmarshal = (\<lambda>_. Inr empty_workflow), cl_unmarshal_index = (\<lambda>_. Inr []), cl_getwd = (\<lambda>_. Inr ''/w''),
     cl_abs = (\<lambda>p _. Inr p), cl_write_file = (\<lambda>_ _ w. (Inr (), w)), cl_disk = (\<lambda>_. sample_disk), cl_set_disk = (\<lambda>_ w. w),
     cl_listen = (\<lambda>w. if w < 0 then (Inl ''no port'', w) else (Inr w, w + 1)), cl_shutdown = (\<lambda>_ w. w - 1)\<rparr>"

theorem started_servers_are_stopped_witness:
  "port_list (snd (with_servers sample_cli False [] (\<lambda>_. io_fail (Message ''no workflow'')) 0)) = []"
proof -
  let ?body = "\<lambda>_ :: string smap. io_fail (Message ''no workflow'') :: (int, report) io"
  have l1: "port_list w' = \<lparr>srv_port = p\<rparr> # port_list w" if "cl_listen sample_cli w = (Inr p, w')" for w p w'
  proof -
    have w: "0 \<le> w" "p = w" "w' = w + 1" using that by (auto simp: sample_cli_def split: if_splits)
    then have "[0..w' - 1] = [0..w - 1] @ [w]" using upto_rec2[of 0 w] by simp
    with w show ?thesis by (simp add: port_list_def)
  qed
  have l2: "port_list w' = port_list w" if "cl_listen sample_cli w = (Inl e, w')" for w e w'
    using that by (auto simp: sample_cli_def split: if_splits)
  have l3: "port_list (cl_shutdown sample_cli s w) = l" if "port_list w = s # l" for s l w
  proof -
    have "0 < w" using that by (cases "0 < w") (simp_all add: port_list_def)
    then have "[0..w - 1] = [0..w - 1 - 1] @ [w - 1]" using upto_rec2[of 0 "w - 1"] by simp
    with that show ?thesis by (simp add: port_list_def sample_cli_def)
  qed
  have l4: "port_list (cl_set_disk sample_cli d w) = port_list w" for d w by (simp add: sample_cli_def)
  have l5: "port_list (snd (h_mkdir_temp (cl_host sample_cli) [] p w)) = port_list w" for p w by (simp add: sample_cli_def)
  have l6: "port_list (snd (?body env w)) = port_list w" for env w by (simp add: io_fail_def)
  have "port_list (snd (with_servers sample_cli False [] ?body 0)) = port_list 0"
    by (rule started_servers_are_stopped[where live = port_list, OF l1 l2 l3 l4 l5 l6])
  then show ?thesis by (simp add: port_list_def)
qed

end
