(* ===== verification/Dry_Run.thy ===== *)
theory Dry_Run
  imports Cli
begin

text \<open>
  What a dry run (\<open>mirror run --dryrun\<close>) does to the machine: the theorems about \<open>DryRunBackend\<close>
  (\<open>internal/runner/dryrun.go\<close>) under the whole of \<open>RunWorkflow\<close>. A run starts no process when it does not
  depend on \<open>h_run\<close>, what the machine's processes do.
\<close>

definition other_processes :: "(process \<Rightarrow> 'w \<Rightarrow> process_result \<times> 'w) \<Rightarrow> 'w host \<Rightarrow> 'w host" where
  "other_processes r h = h\<lparr>h_run := r\<rparr>"

named_theorems no_process \<open>operations that start no process\<close>

lemma other_processes_fields [no_process]:
  "h_eval (other_processes r h) = h_eval h" "h_read (other_processes r h) = h_read h"
  "h_create (other_processes r h) = h_create h" "h_mkdir_temp (other_processes r h) = h_mkdir_temp h"
  "h_remove_all (other_processes r h) = h_remove_all h" "h_goos (other_processes r h) = h_goos h"
  "h_json_object (other_processes r h) = h_json_object h"
  by (simp_all add: other_processes_def)

lemma exec_no_process [no_process]:
  "subst_expr (other_processes r h) = subst_expr h" "eval_bool (other_processes r h) = eval_bool h"
  "parse_kv_file (other_processes r h) = parse_kv_file h" "CreateFileSet (other_processes r h) = CreateFileSet h"
  "read_file (other_processes r h) = read_file h" "DryRunBackend (other_processes r h) = DryRunBackend h"
  by (simp_all add: fun_eq_iff subst_expr_def eval_bool_def parse_kv_file_def CreateFileSet_def read_file_def
      DryRunBackend_def dry_runner_job_def no_process)

lemma step_no_process [no_process]:
  "step_starts (other_processes r h) = step_starts h" "record_result (other_processes r h) = record_result h"
  "run_planned_step (other_processes r h) = run_planned_step h" "run_post (other_processes r h) = run_post h"
  "job_output_values (other_processes r h) = job_output_values h" "stage_event (other_processes r h) = stage_event h"
proof -
  show rr: "record_result (other_processes r h) = record_result h" by (intro ext) (unfold record_result_def no_process, rule refl)
  show "step_starts (other_processes r h) = step_starts h" by (intro ext) (unfold step_starts_def no_process, rule refl)
  show "run_planned_step (other_processes r h) = run_planned_step h"
    by (intro ext) (unfold run_planned_step_def rr no_process, rule refl)
  show "run_post (other_processes r h) = run_post h" by (intro ext) (unfold run_post_def no_process, rule refl)
  show "job_output_values (other_processes r h) = job_output_values h" by (intro ext) (unfold job_output_values_def no_process, rule refl)
  show "stage_event (other_processes r h) = stage_event h" by (intro ext) (unfold stage_event_def no_process, rule refl)
qed

text \<open>A step without \<open>uses:\<close> is a command, so it runs without preparing an action.\<close>

lemma runStep_command:
  assumes "step_uses step = []"
  shows "runStep h ctx p step sid = io_bind (step_starts h step sid) (\<lambda>go.
     if \<not> go then skip_step step sid
     else io_bind (io_wrap (''substitute expressions for step '' @ sid) (subst_expr h (step_run step)))
       (\<lambda>command. run_planned_step h ctx p step sid command empty_plan))"
proof -
  have b: "io_bind (io_bind m (\<lambda>command. io_ret (command, empty_plan))) f = io_bind m (\<lambda>command. f (command, empty_plan))"
    for m :: "('a exec_state, string) io" and f :: "string \<times> usesStepPlan \<Rightarrow> ('a exec_state, 'b) io"
    by (simp add: fun_eq_iff io_bind_def io_ret_def split: prod.split sum.split)
  have prep: "step_prepare h ctx p step sid =
      io_bind (io_wrap (''substitute expressions for step '' @ sid) (subst_expr h (step_run step))) (\<lambda>command. io_ret (command, empty_plan))"
    unfolding step_prepare_def using assms by simp
  have plan: "pl_composite empty_plan = None" by (simp add: empty_plan_def)
  show ?thesis unfolding runStep.simps prep b prod.case plan option.case by (rule refl)
qed

lemma runStep_no_process:
  "step_uses step = [] \<Longrightarrow> runStep (other_processes r h) ctx p step sid = runStep h ctx p step sid"
  unfolding runStep_command no_process by (rule refl)

lemma run_main_steps_no_process:
  "list_all (\<lambda>step. step_uses step = []) steps \<Longrightarrow>
     run_main_steps (other_processes r h) ctx p i steps = run_main_steps h ctx p i steps"
proof (induction steps arbitrary: i)
  case (Cons step steps)
  then have step: "step_uses step = []" and rest: "\<And>i. run_main_steps (other_processes r h) ctx p i steps = run_main_steps h ctx p i steps"
    by simp_all
  show ?case unfolding run_main_steps.simps runStep_no_process[OF step] rest by (rule refl)
qed simp

lemma RunJob_no_process:
  assumes "list_all (\<lambda>step. step_uses step = []) (job_steps job)"
  shows "RunJob (other_processes r h) ctx wfl job backend opts = RunJob h ctx wfl job backend opts"
  unfolding RunJob_def run_in_environment_def run_job_steps_def run_main_steps_no_process[OF assms] no_process by (rule refl)

definition commands_only :: "Workflow \<Rightarrow> bool" where
  "commands_only wfl \<longleftrightarrow> list_all (\<lambda>(name, job). list_all (\<lambda>step. step_uses step = []) (job_steps job)) (wf_jobs wfl)"

lemma commands_only_job: "commands_only wfl \<Longrightarrow> list_all (\<lambda>step. step_uses step = []) (job_steps (wf_job wfl name))"
  by (auto simp: commands_only_def wf_job_def empty_job_def list_all_iff split: option.split dest: map_of_SomeD)

lemma dry_selector [no_process]: "cli_backend (other_processes r h) True = cli_backend h True"
  by (simp add: fun_eq_iff cli_backend_def no_process split: sum.split)

lemma run_one_job_no_process:
  assumes "list_all (\<lambda>step. step_uses step = []) (job_steps job)"
  shows "run_one_job (other_processes r h) sch ctx wfl job sel opts name outcomes w = run_one_job h sch ctx wfl job sel opts name outcomes w"
proof -
  have e: "combo_exec (other_processes r h) ctx wfl job sel opts name outcomes = combo_exec h ctx wfl job sel opts name outcomes"
    by (intro ext) (unfold combo_exec_def RunJob_no_process[OF assms], rule refl)
  have g: "combo_group (other_processes r h) = combo_group h"
    by (intro ext) (unfold combo_group_def no_process, rule refl)
  show ?thesis unfolding run_one_job_def job_combos_def e g by (rule refl)
qed

lemma run_jobs_no_process:
  assumes "commands_only wfl"
  shows "run_jobs (other_processes r h) sch ctx wfl sel opts names outcomes jobs w =
     run_jobs h sch ctx wfl sel opts names outcomes jobs w"
  by (induction names arbitrary: outcomes jobs w)
    (simp_all add: run_one_job_no_process[OF commands_only_job[OF assms]] split: prod.split sum.split)

text \<open>C14: A dry run of commands starts no process: when no step of the workflow uses an action, the result of a dry
  run and its effect on the machine are the same whatever the machine's processes would do, for every
  schedule.\<close>

theorem dry_run_starts_no_process:
  assumes "commands_only wfl"
  shows "RunWorkflow (h\<lparr>h_run := r\<rparr>) sch ctx wfl (cli_backend (h\<lparr>h_run := r\<rparr>) True) opts w =
    RunWorkflow h sch ctx wfl (cli_backend h True) opts w"
  unfolding RunWorkflow_def other_processes_def [symmetric] run_jobs_no_process[OF assms] dry_selector by (rule refl)

theorem dry_run_starts_no_process_witness:
  "RunWorkflow (sample_host\<lparr>h_run := \<lambda>_ w. (NotRun ''no docker'', w)\<rparr>) any_schedule [] build_then_deploy
      (cli_backend (sample_host\<lparr>h_run := \<lambda>_ w. (NotRun ''no docker'', w)\<rparr>) True) sample_options 0 =
   RunWorkflow sample_host any_schedule [] build_then_deploy (cli_backend sample_host True) sample_options 0"
  by (rule dry_run_starts_no_process) code_simp

text \<open>With actions it is otherwise: preparing a Docker action asks the Docker daemon for the image and builds it, in
  a dry run too. The world counts the processes; the second machine has no Docker.\<close>

definition docker_action :: ActionMetadata where
  "docker_action = \<lparr>md_name = ''scan'', md_inputs = [], md_outputs = [], md_runs =
     \<lparr>runs_using = ''docker'', runs_main = [], runs_post = [], runs_post_if = [], runs_image = ''Dockerfile'',
      runs_entrypoint = [], runs_args = [], runs_env = [], runs_steps = []\<rparr>\<rparr>"

definition counting_host :: "int \<Rightarrow> int host" where
  "counting_host code = sample_host\<lparr>h_run := \<lambda>_ w. (Exited code [] [], w + 1)\<rparr>"

definition dry_params :: "int \<Rightarrow> int runStepParams" where
  "dry_params code = sample_params\<lparr>pm_runner := dry_runner_job (counting_host code) ''/f'' ''/w''\<rparr>"

theorem dry_run_builds_images:
  "x_world (snd (plan_docker (counting_host 0) [] (dry_params 0) ''s'' (sample_step [] [] ''./scan'') ''/w/scan'' docker_action []
     sample_state)) = 1"
  "isl (fst (plan_docker (counting_host 1) [] (dry_params 1) ''s'' (sample_step [] [] ''./scan'') ''/w/scan'' docker_action []
     sample_state))"
  by code_simp+

end
