(* ===== verification/Job_Theorems.thy ===== *)
theory Job_Theorems
  imports Executor
begin

text \<open>
  How a job goes (\<open>internal/engine/executor.go\<close>, \<open>uses_step.go\<close>, \<open>composite_step.go\<close>): which steps run, which
  post actions and in which order, that composite actions cannot recurse for ever, and what their steps see
  of their inputs.
\<close>

subsection \<open>Reports of steps\<close>

lemma io_ret_Inr: "io_ret x s = (Inr y, t) \<longleftrightarrow> x = y \<and> s = t"
  by (auto simp: io_ret_def)

lemma skip_step_report:
  "skip_step step sid st = (Inr (report, post), st') \<Longrightarrow>
     rep_id report = sid \<and> rep_conclusion report = ''skipped'' \<and> post = None"
  by (auto simp: skip_step_def io_bind_Inr io_ret_Inr)

lemma planned_step_report:
  assumes "run_planned_step h ctx p step sid cm plan st = (Inr (report, post), st')"
  shows "rep_id report = sid \<and> (\<forall>pp. post = Some pp \<longrightarrow> pp_step_id pp = sid)"
proof -
  from assms obtain fileSet r st1 where "record_result h step sid plan fileSet r st1 = (Inr (report, post), st')"
    unfolding run_planned_step_def io_bind_Inr by blast
  then obtain st2 where "report_step step sid r st2 = (Inr report, st')"
    "post = map_option (\<lambda>pa. \<lparr>pp_action = pa, pp_step_id = sid, pp_state_file = fs_state fileSet\<rparr>) (pl_post plan)"
    unfolding record_result_def by (auto simp: io_bind_Inr io_wrap_Inr io_ret_Inr)
  then show ?thesis by (auto simp: report_step_def Let_def split: prod.splits)
qed

lemma runStep_report:
  assumes "runStep h ctx p step sid st = (Inr (report, post), st')"
  shows "rep_id report = sid \<and> (\<forall>pp. post = Some pp \<longrightarrow> pp_step_id pp = sid)"
proof -
  from assms obtain go st1 where rest: "(if \<not> go then skip_step step sid
     else io_bind (step_prepare h ctx p step sid) (\<lambda>(command, plan). case pl_composite plan of
       Some cinv \<Rightarrow>
         io_bind (io_wrap (''composite step '' @ sid) (runCompositeSteps h ctx p cinv)) (\<lambda>(conclusion, outputs, stdout, stderr).
         io_bind (upd_ctx (set_outcome sid \<lparr>so_outcome = conclusion, so_outputs = outputs\<rparr>)) (\<lambda>_.
         io_ret (\<lparr>rep_id = sid, rep_name = step_name step, rep_conclusion = conclusion, rep_exit_code = 0,
           rep_stdout = stdout, rep_stderr = stderr\<rparr>, None)))
     | None \<Rightarrow> run_planned_step h ctx p step sid command plan)) st1 = (Inr (report, post), st')"
    unfolding runStep.simps io_bind_Inr by blast
  show ?thesis
  proof (cases go)
    case False
    with rest skip_step_report[of step sid st1] show ?thesis by simp
  next
    case True
    with rest obtain command plan st2 where
      "(case pl_composite plan of
         Some cinv \<Rightarrow>
           io_bind (io_wrap (''composite step '' @ sid) (runCompositeSteps h ctx p cinv)) (\<lambda>(conclusion, outputs, stdout, stderr).
           io_bind (upd_ctx (set_outcome sid \<lparr>so_outcome = conclusion, so_outputs = outputs\<rparr>)) (\<lambda>_.
           io_ret (\<lparr>rep_id = sid, rep_name = step_name step, rep_conclusion = conclusion, rep_exit_code = 0,
             rep_stdout = stdout, rep_stderr = stderr\<rparr>, None)))
       | None \<Rightarrow> run_planned_step h ctx p step sid command plan) st2 = (Inr (report, post), st')"
      by (auto simp: io_bind_Inr)
    then show ?thesis using planned_step_report by (fastforce simp: io_bind_Inr io_ret_Inr split: option.splits)
  qed
qed

subsection \<open>Which steps run\<close>

fun step_ids :: "nat \<Rightarrow> Step list \<Rightarrow> string list" where
  "step_ids i [] = []"
| "step_ids i (step # steps) = step_name_or i step # step_ids (Suc i) steps"

lemma run_main_steps_shape:
  assumes "run_main_steps h ctx p i steps st = (Inr (reports, posts, conclusion), st')"
  shows "map rep_id reports = take (length reports) (step_ids i steps) \<and>
    (\<forall>k. Suc k < length reports \<longrightarrow> \<not> stops_job (steps ! k) (reports ! k)) \<and>
    (conclusion = ''success'' \<and> length reports = length steps \<and>
       (\<forall>k < length reports. \<not> stops_job (steps ! k) (reports ! k)) \<or>
     conclusion = ''failure'' \<and> reports \<noteq> [] \<and> length reports \<le> length steps \<and>
       stops_job (steps ! (length reports - 1)) (last reports)) \<and>
    subseq (map pp_step_id posts) (map rep_id reports)"
  using assms
proof (induction steps arbitrary: i st reports posts conclusion)
  case Nil
  then show ?case by (simp add: io_ret_Inr)
next
  case (Cons step steps)
  from Cons.prems obtain report post st1 where step: "runStep h ctx p step (step_name_or i step) st = (Inr (report, post), st1)"
    and rest: "(let posts' = (case post of None \<Rightarrow> [] | Some pa \<Rightarrow> [pa]) in
      if stops_job step report then io_ret ([report], posts', ''failure'')
      else io_bind (run_main_steps h ctx p (Suc i) steps) (\<lambda>(reports, posts, conclusion).
        io_ret (report # reports, posts' @ posts, conclusion))) st1 = (Inr (reports, posts, conclusion), st')"
    by (auto simp: io_bind_Inr)
  define posts' where "posts' = (case post of None \<Rightarrow> [] | Some pa \<Rightarrow> [pa])"
  from runStep_report[OF step] have id: "rep_id report = step_name_or i step"
    "posts' = [] \<or> (\<exists>pp. posts' = [pp] \<and> pp_step_id pp = step_name_or i step)"
    by (auto simp: posts'_def split: option.split)
  show ?case
  proof (cases "stops_job step report")
    case True
    with rest id show ?thesis by (auto simp: Let_def io_ret_Inr posts'_def)
  next
    case False
    with rest obtain rs ps st2 where r: "run_main_steps h ctx p (Suc i) steps st1 = (Inr (rs, ps, conclusion), st')"
      "reports = report # rs" "posts = posts' @ ps"
      by (auto simp: Let_def io_bind_Inr io_ret_Inr posts'_def)
    from Cons.IH[OF r(1)] have IH: "map rep_id rs = take (length rs) (step_ids (Suc i) steps)"
      "\<And>k. Suc k < length rs \<Longrightarrow> \<not> stops_job (steps ! k) (rs ! k)"
      "conclusion = ''success'' \<and> length rs = length steps \<and> (\<forall>k < length rs. \<not> stops_job (steps ! k) (rs ! k)) \<or>
       conclusion = ''failure'' \<and> rs \<noteq> [] \<and> length rs \<le> length steps \<and> stops_job (steps ! (length rs - 1)) (last rs)"
      "subseq (map pp_step_id ps) (map rep_id rs)" by auto
    have "\<not> stops_job ((step # steps) ! k) (reports ! k)" if "Suc k < length reports" for k
      using that IH(2) False r(2) by (cases k) auto
    moreover have "subseq (map pp_step_id posts) (map rep_id reports)"
      using id IH(4) r(2,3) by auto
    moreover have "conclusion = ''success'' \<and> length reports = length (step # steps) \<and>
         (\<forall>k < length reports. \<not> stops_job ((step # steps) ! k) (reports ! k)) \<or>
       conclusion = ''failure'' \<and> reports \<noteq> [] \<and> length reports \<le> length (step # steps) \<and>
         stops_job ((step # steps) ! (length reports - 1)) (last reports)"
      using IH(3) False r(2) by (auto simp: nth_Cons split: nat.splits)
    ultimately show ?thesis using IH(1) id r(2) by simp
  qed
qed

lemma io_map_Inr: "io_map f xs s = (Inr ys, t) \<Longrightarrow> list_all2 (\<lambda>x y. \<exists>u v. f x u = (Inr y, v)) xs ys"
proof (induction xs arbitrary: s ys)
  case (Cons x xs)
  from Cons.prems obtain y u ys' where "f x s = (Inr y, u)" "io_map f xs u = (Inr ys', t)" "ys = y # ys'"
    by (auto simp: io_bind_Inr io_ret_Inr)
  with Cons.IH show ?case by auto
qed (simp add: io_ret_Inr)

lemma run_post_report:
  assumes "run_post h ctx p pa st = (Inr rs, st')"
  shows "rs = [] \<or> (\<exists>r. rs = [r] \<and> rep_id r = pp_step_id pa @ ''-post'')"
proof -
  from assms obtain runPost st1 where
    "(if \<not> runPost then io_ret []
     else io_bind (io_wrap (''parse state for step '' @ pp_step_id pa @ '' post'') (parse_kv_file h (pp_state_file pa))) (\<lambda>stateVals.
     io_bind (\<lambda>st. (Inr (post_environment p pa stateVals (x_ctx st)), st)) (\<lambda>env.
     io_bind (io_wrap (''create temp dir for step '' @ pp_step_id pa @ '' post'')
       (on_world (io_op (h_mkdir_temp h (rj_FilesRoot (pm_runner p)) ''post-'')))) (\<lambda>postFilesDir.
     io_bind (io_wrap (''create workflow command files for step '' @ pp_step_id pa @ '' post'') (on_world (CreateFileSet h postFilesDir))) (\<lambda>postFileSet.
     io_bind (io_wrap (''run post for step '' @ pp_step_id pa) (on_world (rj_Exec (pm_runner p) ctx
       \<lparr>sp_command = [], sp_args = pa_args (pp_action pa), sp_shell = [], sp_env = env,
        sp_working_directory = rj_WorkspacePath (pm_runner p), sp_files_dir = postFilesDir\<rparr>))) (\<lambda>r.
     io_bind (io_wrap (''parse env updates for step '' @ pp_step_id pa @ '' post'') (parse_kv_file h (fs_env postFileSet))) (\<lambda>envUpdates.
     io_bind (upd_ctx (add_env envUpdates)) (\<lambda>_. io_ret [post_report pa r])))))))) st1 = (Inr rs, st')"
    unfolding run_post_def io_bind_Inr by blast
  then have "rs = [] \<or> (\<exists>r. rs = [post_report pa r])"
    by (cases runPost) (auto simp: io_bind_Inr io_ret_Inr)
  then show ?thesis by (auto simp: post_report_def)
qed

lemma subseq_rev_rev: "subseq xs ys \<Longrightarrow> subseq (rev xs) (rev ys)"
proof (induction rule: list_emb.induct)
  case (list_emb_Cons xs ys y)
  then show ?case by (simp add: subseq_rev_drop_many)
next
  case (list_emb_Cons2 x y xs ys)
  then show ?case by (simp add: list_emb_append_mono)
qed simp

lemma post_reports_ids:
  "list_all2 (\<lambda>pa rs. rs = [] \<or> (\<exists>r. rs = [r] \<and> rep_id r = pp_step_id pa @ ''-post'')) pas rss \<Longrightarrow>
     subseq (map rep_id (concat rss)) (map (\<lambda>pa. pp_step_id pa @ ''-post'') pas)"
  by (induction pas rss rule: list_all2_induct) auto

lemma run_job_steps_parts:
  assumes "run_job_steps h ctx p job st = (Inr jr, st')"
  obtains main posts rss st1 where "run_main_steps h ctx p 0 (job_steps job) st = (Inr (main, posts, jr_conclusion jr), st1)"
    "jr_steps jr = main @ concat rss"
    "list_all2 (\<lambda>pa rs. rs = [] \<or> (\<exists>r. rs = [r] \<and> rep_id r = pp_step_id pa @ ''-post'')) (rev posts) rss"
proof -
  from assms obtain main posts conclusion st1 rss st2 st3 outputs where
    m: "run_main_steps h ctx p 0 (job_steps job) st = (Inr (main, posts, conclusion), st1)"
    and r: "io_map (run_post h ctx p) (rev posts) st1 = (Inr rss, st2)"
    and jr: "jr = \<lparr>jr_conclusion = conclusion, jr_steps = main @ concat rss, jr_outputs = outputs\<rparr>"
    unfolding run_job_steps_def by (auto simp: io_bind_Inr io_ret_Inr)
  have "list_all2 (\<lambda>pa rs. rs = [] \<or> (\<exists>r. rs = [r] \<and> rep_id r = pp_step_id pa @ ''-post'')) (rev posts) rss"
    using io_map_Inr[OF r] by (rule list_all2_mono) (use run_post_report in blast)
  with that m jr show ?thesis by simp
qed

text \<open>C4: What a job reports: the reports of its own steps, for a prefix of the steps and in order, then the post
  actions', in reverse order of their steps and each at most once. The job succeeds exactly when every step has
  run without an uncontinued failure; it fails exactly when the last step run failed, was not continued, and
  is the first to do so.\<close>

theorem job_report_layout:
  assumes "run_job_steps h ctx p job st = (Inr jr, st')"
  shows "\<exists>main posts. jr_steps jr = main @ posts \<and>
    map rep_id main = take (length main) (step_ids 0 (job_steps job)) \<and>
    (\<forall>k. Suc k < length main \<longrightarrow> \<not> stops_job (job_steps job ! k) (main ! k)) \<and>
    (jr_conclusion jr = ''success'' \<and> length main = length (job_steps job) \<and>
       (\<forall>k < length main. \<not> stops_job (job_steps job ! k) (main ! k)) \<or>
     jr_conclusion jr = ''failure'' \<and> main \<noteq> [] \<and> length main \<le> length (job_steps job) \<and>
       stops_job (job_steps job ! (length main - 1)) (last main)) \<and>
    subseq (map rep_id posts) (map (\<lambda>r. rep_id r @ ''-post'') (rev main))"
proof -
  from run_job_steps_parts[OF assms] obtain main posts rss st1 where
    m: "run_main_steps h ctx p 0 (job_steps job) st = (Inr (main, posts, jr_conclusion jr), st1)"
    and jr: "jr_steps jr = main @ concat rss"
    and ps: "list_all2 (\<lambda>pa rs. rs = [] \<or> (\<exists>r. rs = [r] \<and> rep_id r = pp_step_id pa @ ''-post'')) (rev posts) rss" .
  note shape = run_main_steps_shape[OF m]
  then have "subseq (rev (map pp_step_id posts)) (rev (map rep_id main))" by (intro subseq_rev_rev) blast
  then have "subseq (map pp_step_id (rev posts)) (map rep_id (rev main))" by (simp only: rev_map)
  then have "subseq (map (\<lambda>i. i @ ''-post'') (map pp_step_id (rev posts))) (map (\<lambda>i. i @ ''-post'') (map rep_id (rev main)))"
    by (rule subseq_map)
  then have "subseq (map (\<lambda>pa. pp_step_id pa @ ''-post'') (rev posts)) (map (\<lambda>r. rep_id r @ ''-post'') (rev main))"
    by (simp add: comp_def)
  from subseq_order.order_trans[OF post_reports_ids[OF ps] this] shape jr show ?thesis by blast
qed

subsection \<open>Composite actions\<close>

lemma isl_bind:
  assumes "\<And>x t. m s = (Inr x, t) \<Longrightarrow> isl (fst (f x t))"
  shows "isl (fst (io_bind m f s))"
  using assms by (cases "m s") (auto simp: io_bind_def split: sum.split)

lemma isl_wrap: "isl (fst (m s)) \<Longrightarrow> isl (fst (io_wrap msg m s))"
  by (cases "m s") (auto simp: io_wrap_def split: sum.split)

lemma isl_bind_first: "isl (fst (m s)) \<Longrightarrow> isl (fst (io_bind m f s))"
  by (rule isl_bind) simp

text \<open>A step that uses a local action whose metadata, at \<open>dir\<close>, make it a composite action.\<close>

definition uses_composite :: "'w host \<Rightarrow> string \<Rightarrow> Step \<Rightarrow> ActionMetadata \<Rightarrow> bool" where
  "uses_composite h workspace step md \<longleftrightarrow> step_run step = [] \<and> step_if step = [] \<and>
     (\<exists>ref data. ResolveUsesRef (step_uses step) = Inr ref \<and> ar_local ref \<and> \<not> ar_docker ref \<and>
        (\<forall>w. h_read h (Join [Join [workspace, ar_local_path ref], ''action.yml'']) w = Content data) \<and>
        h_yaml_action h data = Inr md) \<and> step_uses step \<noteq> [] \<and> runs_using (md_runs md) = ''composite''"

lemma uses_composite_plan:
  assumes "uses_composite h (pm_workspace_dir p) step md" "prepareUsesStep h ctx p sid step st = (Inr plan, st')"
  shows "\<exists>cinv. pl_composite plan = Some cinv \<and> ci_steps cinv = map nested_step (runs_steps (md_runs md))"
proof -
  from assms(1) obtain ref data where ref: "ResolveUsesRef (step_uses step) = Inr ref" "ar_local ref" "\<not> ar_docker ref"
    "\<And>w. h_read h (Join [Join [pm_workspace_dir p, ar_local_path ref], ''action.yml'']) w = Content data"
    "h_yaml_action h data = Inr md" "runs_using (md_runs md) = ''composite''"
    unfolding uses_composite_def by blast
  let ?dir = "Join [pm_workspace_dir p, ar_local_path ref]"
  have meta: "on_world (ParseMetadata h ?dir) u = (Inr md, u)" for u :: "'a exec_state"
    by (simp add: on_world_def ParseMetadata_def ref(4,5))
  have dir: "action_source_dir h p (step_uses step) ref cacheRoot = io_ret ?dir" for cacheRoot
    by (simp add: action_source_dir_def ref(2))
  from assms(2) ref(3) obtain withs cacheRoot st1 where
    "plan_action h ctx p sid step cacheRoot ?dir md withs st1 = (Inr plan, st')"
    unfolding prepareUsesStep_def by (auto simp: io_bind_Inr io_res_Inr io_wrap_Inr io_ret_Inr ref(1) dir meta)
  then obtain st2 where "plan_composite ctx p sid step (Join [pm_workspace_dir p, ar_local_path ref]) md withs st2 = (Inr plan, st')"
    unfolding plan_action_def Let_def ref(6) by auto
  then show ?thesis unfolding plan_composite_def by (auto simp: io_bind_Inr io_ret_Inr)
qed

lemma runStep_composite:
  assumes "uses_composite h (pm_workspace_dir p) step md"
    and nested: "\<And>cinv st. ci_steps cinv = map nested_step (runs_steps (md_runs md)) \<Longrightarrow>
      isl (fst (runCompositeSteps h ctx p cinv st))"
  shows "isl (fst (runStep h ctx p step sid st))"
proof -
  have u: "step_uses step \<noteq> []" "step_run step = []" "step_if step = []" using assms(1) by (auto simp: uses_composite_def)
  have go: "step_starts h step sid = io_ret True" using u by (simp add: step_starts_def)
  show ?thesis
    unfolding runStep.simps go
  proof (rule isl_bind, goal_cases)
    case (1 x t)
    then have "x" by (simp add: io_ret_Inr)
    then show ?case
      unfolding not_True_eq_False if_False
    proof (simp, intro isl_bind, goal_cases)
      case (1 y t')
      then obtain plan where plan: "y = ([], plan)" "prepareUsesStep h ctx p sid step t = (Inr plan, t')"
        using u(1) by (auto simp: step_prepare_def io_bind_Inr io_wrap_Inr io_ret_Inr)
      from uses_composite_plan[OF assms(1) plan(2)] obtain cinv where
        "pl_composite plan = Some cinv" "ci_steps cinv = map nested_step (runs_steps (md_runs md))" by blast
      with plan(1) nested show ?case by (simp add: isl_bind_first isl_wrap)
    qed
  qed
qed

lemma self_reference_cut:
  assumes "uses_composite h (pm_workspace_dir p) step md" "runs_steps (md_runs md) = a # rest"
    and self: "as_run a = []" "as_if a = []" "as_uses a = step_uses step"
  shows "isl (fst (runStep h ctx p step sid st))"
  using assms(1,5)
proof (induction "11 - pm_depth p" arbitrary: p step sid st rule: less_induct)
  case less
  show ?case
  proof (rule runStep_composite[OF less.prems(1)])
    fix cinv :: compositeInvocation and u :: "'a exec_state"
    assume steps: "ci_steps cinv = map nested_step (runs_steps (md_runs md))"
    show "isl (fst (runCompositeSteps h ctx p cinv u))"
    proof (cases "maxCompositeDepth < pm_depth p + 1")
      case True
      then show ?thesis by (simp add: runCompositeSteps.simps io_fail_def)
    next
      case False
      have again: "uses_composite h (pm_workspace_dir (child_params p)) (nested_step a) md"
        using less.prems self(1,2) by (simp add: uses_composite_def nested_step_def child_params_def)
      have "11 - pm_depth (child_params p) < 11 - pm_depth p"
        using False by (simp add: child_params_def maxCompositeDepth_def)
      from less.hyps[OF this again] less.prems(2)
      have step: "isl (fst (runStep h ctx (child_params p) (nested_step a) i v))" for i v by (simp add: nested_step_def)
      have "isl (fst (run_nested h ctx (child_params p) 0 (ci_steps cinv) v))" for v
        unfolding steps assms(2) list.map run_nested.simps by (intro isl_bind_first isl_wrap step)
      then have "isl (fst (in_child c (io_bind (run_nested h ctx (child_params p) 0 (ci_steps cinv)) f) u))" for c f
        unfolding in_child_def by (simp add: case_prod_beta isl_bind_first)
      then show ?thesis unfolding runCompositeSteps.simps if_not_P[OF False] .
    qed
  qed
qed

text \<open>On a machine where the files it needs can be copied, planning such a step succeeds.\<close>

definition can_copy :: "'w host \<Rightarrow> 'w runStepParams \<Rightarrow> bool" where
  "can_copy h p \<longleftrightarrow> (\<exists>root. CacheRoot h = Inr root) \<and>
     (\<forall>ctx src dst w. fst (rj_CopyToContainer (pm_runner p) ctx src dst w) = Inr ())"

lemma can_copy_child: "can_copy h (child_params p) = can_copy h p"
  by (simp add: can_copy_def child_params_def)

lemma uses_composite_planned:
  assumes use: "uses_composite h (pm_workspace_dir p) step md" and copy: "can_copy h p" and "step_with step = []"
  shows "\<exists>plan t. prepareUsesStep h ctx p sid step st = (Inr plan, t)"
proof -
  from use obtain ref data where ref: "ResolveUsesRef (step_uses step) = Inr ref" "ar_local ref" "\<not> ar_docker ref"
    "\<And>w. h_read h (Join [Join [pm_workspace_dir p, ar_local_path ref], ''action.yml'']) w = Content data"
    "h_yaml_action h data = Inr md" "runs_using (md_runs md) = ''composite''"
    unfolding uses_composite_def by blast
  let ?dir = "Join [pm_workspace_dir p, ar_local_path ref]"
  from copy obtain root where root: "CacheRoot h = Inr root" unfolding can_copy_def by blast
  have meta: "on_world (ParseMetadata h ?dir) u = (Inr md, u)" for u :: "'a exec_state"
    by (simp add: on_world_def ParseMetadata_def ref(4,5))
  have "\<exists>t. on_world (rj_CopyToContainer (pm_runner p) ctx ?dir dst) u = (Inr (), t)" for dst and u :: "'a exec_state"
    using copy unfolding can_copy_def on_world_def by (cases "rj_CopyToContainer (pm_runner p) ctx ?dir dst (x_world u)") (auto, metis fst_conv)
  then obtain t where copied: "on_world (rj_CopyToContainer (pm_runner p) ctx ?dir (ContainerActionPath sid)) st = (Inr (), t)"
    by blast
  show ?thesis
    by (simp add: prepareUsesStep_def subst_with_def assms(3) io_bind_def io_ret_def io_res_def io_wrap_def ref root meta copied
      action_source_dir_def plan_action_def plan_composite_def HasPrefix_def Let_def)
qed

text \<open>The error of a composite action cut \<open>n\<close> levels below the step \<open>sid\<close>, whose nested steps have the id \<open>inner\<close>.\<close>

fun cut_at :: "string \<Rightarrow> nat \<Rightarrow> string \<Rightarrow> exec_error" where
  "cut_at inner 0 sid = Wrapped (''composite step '' @ sid) (Message ''exceeded max composite action nesting depth'')"
| "cut_at inner (Suc n) sid = Wrapped (''composite step '' @ sid) (Wrapped (''nested step '' @ inner) (cut_at inner n inner))"

lemma error_first: "fst (m s) = Inl e \<Longrightarrow> fst (io_bind m f s) = Inl e"
  by (cases "m s") (simp add: io_bind_def)

lemma fst_in_child: "fst (in_child c m st) = fst (m (st\<lparr>x_ctx := c\<rparr>))"
  by (simp add: in_child_def case_prod_beta)

lemma runStep_composite_error:
  assumes use: "uses_composite h (pm_workspace_dir p) step md" and copy: "can_copy h p" "step_with step = []"
    and err: "\<And>cinv u. ci_steps cinv = map nested_step (runs_steps (md_runs md)) \<Longrightarrow>
      fst (runCompositeSteps h ctx p cinv u) = Inl e"
  shows "fst (runStep h ctx p step sid st) = Inl (Wrapped (''composite step '' @ sid) e)"
proof -
  have u: "step_uses step \<noteq> []" "step_run step = []" "step_if step = []" using use by (auto simp: uses_composite_def)
  from uses_composite_planned[OF use copy, of ctx sid st] obtain plan t where
    plan: "prepareUsesStep h ctx p sid step st = (Inr plan, t)" by blast
  from uses_composite_plan[OF use plan] obtain cinv where
    cinv: "pl_composite plan = Some cinv" "ci_steps cinv = map nested_step (runs_steps (md_runs md))" by blast
  obtain v where "runCompositeSteps h ctx p cinv t = (Inl e, v)"
    using err[OF cinv(2), of t] by (cases "runCompositeSteps h ctx p cinv t") auto
  then show ?thesis
    by (simp add: runStep.simps step_starts_def u step_prepare_def io_bind_def io_ret_def io_wrap_def plan cinv(1))
qed

lemma self_reference_cut_at:
  assumes "uses_composite h (pm_workspace_dir p) step md" "runs_steps (md_runs md) = a # rest"
    and "as_run a = []" "as_if a = []" "as_uses a = step_uses step" "as_with a = []" "step_with step = []"
    and "can_copy h p" "pm_depth p + n = 10"
  shows "fst (runStep h ctx p step sid st) = Inl (cut_at (step_name_or 0 (nested_step a)) n sid)"
  using assms(1,5,7,8,9)
proof (induction n arbitrary: p step sid st)
  case 0
  show ?case unfolding cut_at.simps
    by (rule runStep_composite_error[OF 0(1,4,3)])
      (use 0(5) in \<open>simp add: runCompositeSteps.simps maxCompositeDepth_def io_fail_def\<close>)
next
  case (Suc n)
  have again: "uses_composite h (pm_workspace_dir (child_params p)) (nested_step a) md"
    using Suc.prems(1,2) assms(3,4) by (simp add: uses_composite_def nested_step_def child_params_def)
  have step: "fst (runStep h ctx (child_params p) (nested_step a) i v) = Inl (cut_at (step_name_or 0 (nested_step a)) n i)" for i v
    by (rule Suc.IH[OF again])
      (use Suc.prems assms(6) in \<open>simp_all add: nested_step_def can_copy_child, simp add: child_params_def\<close>)
  show ?case unfolding cut_at.simps
  proof (rule runStep_composite_error[OF Suc.prems(1,4,3)])
    fix cinv :: compositeInvocation and u :: "'a exec_state"
    assume steps: "ci_steps cinv = map nested_step (runs_steps (md_runs md))"
    let ?id = "step_name_or 0 (nested_step a)"
    have "fst (run_nested h ctx (child_params p) 0 (ci_steps cinv) v) = Inl (Wrapped (''nested step '' @ ?id) (cut_at ?id n ?id))" for v
      using step[of ?id v] unfolding steps assms(2) list.map run_nested.simps
      by (cases "runStep h ctx (child_params p) (nested_step a) ?id v") (simp add: io_bind_def io_wrap_def)
    then have "fst (in_child c (io_bind (run_nested h ctx (child_params p) 0 (ci_steps cinv)) f) u) =
        Inl (Wrapped (''nested step '' @ ?id) (cut_at ?id n ?id))" for c f
      unfolding fst_in_child by (intro error_first)
    then show "fst (runCompositeSteps h ctx p cinv u) = Inl (Wrapped (''nested step '' @ ?id) (cut_at ?id n ?id))"
      using Suc.prems(5) by (simp add: runCompositeSteps.simps maxCompositeDepth_def)
  qed
qed

text \<open>C10: A composite action whose first step uses the action itself is an error, not an endless run, for every job
  environment and machine on which the action's metadata can be read. Where it can also be copied and nothing
  is given in \<open>with\<close>, the error is the nesting error, and it is raised after exactly ten levels of nested
  steps below a step of a job (\<open>pm_depth p = 0\<close>), or as many fewer as the step is nested itself.\<close>

theorem self_reference_is_error:
  assumes "uses_composite h (pm_workspace_dir p) step md" "runs_steps (md_runs md) = a # rest"
    and "as_run a = []" "as_if a = []" "as_uses a = step_uses step"
  shows "\<exists>e st'. runStep h ctx p step sid st = (Inl e, st') \<and>
    (can_copy h p \<and> as_with a = [] \<and> step_with step = [] \<and> pm_depth p \<le> 10 \<longrightarrow>
       e = cut_at (step_name_or 0 (nested_step a)) (10 - pm_depth p) sid)"
proof -
  have "\<exists>e st'. runStep h ctx p step sid st = (Inl e, st')"
    using self_reference_cut[OF assms, of ctx sid st] by (cases "runStep h ctx p step sid st") (auto simp: isl_def)
  moreover have "fst (runStep h ctx p step sid st) = Inl (cut_at (step_name_or 0 (nested_step a)) (10 - pm_depth p) sid)"
    if "can_copy h p \<and> as_with a = [] \<and> step_with step = [] \<and> pm_depth p \<le> 10"
    using self_reference_cut_at[OF assms, of "10 - pm_depth p" ctx sid st] that by simp
  ultimately show ?thesis by fastforce
qed

definition loop_step :: ActionStep where
  "loop_step = \<lparr>as_id = [], as_name = [], as_run = [], as_uses = ''./loop'', as_with = [], as_shell = [], as_env = [],
     as_if = [], as_continue_on_error = False, as_working_directory = []\<rparr>"

definition loop_action :: ActionMetadata where
  "loop_action = \<lparr>md_name = ''loop'', md_inputs = [], md_outputs = [], md_runs =
     \<lparr>runs_using = ''composite'', runs_main = [], runs_post = [], runs_post_if = [], runs_image = [],
      runs_entrypoint = [], runs_args = [], runs_env = [], runs_steps = [loop_step]\<rparr>\<rparr>"

definition loop_host :: "int host" where
  "loop_host = sample_host\<lparr>h_yaml_action := (\<lambda>_. Inr loop_action)\<rparr>"

theorem self_reference_is_error_witness:
  "\<exists>st'. runStep loop_host [] sample_params (sample_step [] [] ''./loop'') ''s'' sample_state = (Inl (cut_at ''step-0'' 10 ''s''), st')"
proof -
  have "ResolveUsesRef ''./loop'' = Inr (empty_ref\<lparr>ar_local := True, ar_local_path := ''./loop''\<rparr>)" by code_simp
  then have use: "uses_composite loop_host (pm_workspace_dir sample_params) (sample_step [] [] ''./loop'') loop_action"
    by (auto simp: uses_composite_def sample_step_def loop_host_def sample_host_def starting_host_def loop_action_def empty_ref_def)
  have steps: "runs_steps (md_runs loop_action) = loop_step # []" by (simp add: loop_action_def)
  have a: "as_run loop_step = []" "as_if loop_step = []" "as_uses loop_step = step_uses (sample_step [] [] ''./loop'')"
    "as_with loop_step = []" "step_with (sample_step [] [] ''./loop'') = []" "pm_depth sample_params = 0"
    by (simp_all add: loop_step_def sample_step_def sample_params_def)
  have copy: "can_copy loop_host sample_params"
    by (simp add: can_copy_def sample_params_def sample_runner_def io_ret_def CacheRoot_def loop_host_def sample_host_def
      starting_host_def)
  have i: "step_name_or 0 (nested_step loop_step) = ''step-0''" by code_simp
  obtain e st' where run: "runStep loop_host [] sample_params (sample_step [] [] ''./loop'') ''s'' sample_state = (Inl e, st')"
    and cut: "can_copy loop_host sample_params \<and> as_with loop_step = [] \<and> step_with (sample_step [] [] ''./loop'') = [] \<and>
      pm_depth sample_params \<le> 10 \<longrightarrow> e = cut_at (step_name_or 0 (nested_step loop_step)) (10 - pm_depth sample_params) ''s''"
    using self_reference_is_error[OF use steps a(1-3), of "[]" "''s''" sample_state] by blast
  have "e = cut_at ''step-0'' 10 ''s''" using cut copy a(4-6) unfolding i by simp
  with run show ?thesis by blast
qed

theorem job_report_layout_witness:
  "\<exists>jr st'. run_job_steps sample_host [] sample_params
      (empty_job\<lparr>job_steps := [sample_step [] ''make'' [], sample_step [] ''make test'' []]\<rparr>) sample_state = (Inr jr, st') \<and>
    (\<exists>main posts. jr_steps jr = main @ posts \<and> map rep_id main = take (length main) [''s'', ''s''])"
proof -
  let ?job = "empty_job\<lparr>job_steps := [sample_step [] ''make'' [], sample_step [] ''make test'' []]\<rparr>"
  let ?r = "run_job_steps sample_host [] sample_params ?job sample_state"
  have "\<not> isl (fst ?r)" by code_simp
  then obtain jr where "fst ?r = Inr jr" by (cases "fst ?r") auto
  then have r: "?r = (Inr jr, snd ?r)" by (metis prod.collapse)
  have ids: "step_ids 0 (job_steps ?job) = [''s'', ''s'']" by code_simp
  from job_report_layout[OF r] r show ?thesis unfolding ids by blast
qed

subsection \<open>Inputs of a composite action\<close>

lemma lookupStringCI_mget:
  assumes "ci_keys m" "mget m k = Some v"
  shows "lookupStringCI m k = v"
  using find_ci_Some_iff[OF assms(1), of k v] map_of_SomeD[OF assms(2)] by (auto simp: lookupStringCI_def)

lemma composite_input_env:
  assumes "(name, v) \<in> set withs" "distinct (map (\<lambda>q. inputEnvKey (fst q)) withs)"
  shows "mget (merge (merge [] e) (mput ''GITHUB_ACTION_PATH'' path (InputEnv md withs))) (inputEnvKey name) = Some v"
proof -
  have wf: "map_wf (mput ''GITHUB_ACTION_PATH'' path (InputEnv md withs))" by (simp add: map_wf_InputEnv)
  have "inputEnvKey name \<noteq> ''GITHUB_ACTION_PATH''" by (simp add: inputEnvKey_def)
  then show ?thesis using InputEnv_given[OF assms, of md] by (simp add: mget_merge[OF wf])
qed

text \<open>C9: What a composite action is given is what its steps read: inside it \<open>inputs.name\<close> is the value of
  \<open>with.name\<close> after substitution, whatever default the action declares and whatever the job's
  environment held, when names that clash are left out (variables that differ only in case, inputs with the
  same variable).\<close>

theorem composite_inputs_resolve:
  assumes "plan_composite ctx p sid step dir md withs st = (Inr plan, st')" "pl_composite plan = Some cinv"
    and "(name, v) \<in> set withs" "distinct (map (\<lambda>q. inputEnvKey (fst q)) withs)"
    and "ci_keys (ctx_env (child_context c cinv))"
  shows "resolvePath (child_context c cinv) [''inputs'', name] = Inr (VStr v)"
proof -
  have base: "ci_base_env cinv = mput ''GITHUB_ACTION_PATH'' (ContainerActionPath sid) (InputEnv md withs)"
    using assms(1,2) unfolding plan_composite_def by (auto simp: io_bind_Inr io_ret_Inr)
  have "mget (ctx_env (child_context c cinv)) (inputEnvKey name) = Some v"
    unfolding child_context_def Context.select_convs base by (rule composite_input_env[OF assms(3,4)])
  from lookupStringCI_mget[OF assms(5) this] show ?thesis
    by (simp add: resolvePath_def two_part_def ToLower_def lower_char_def is_upper_def inputEnvKey_context)
qed

theorem composite_inputs_resolve_witness:
  "\<exists>plan st' cinv. plan_composite [] sample_params ''s'' (sample_step [] [] ''./loop'') ''/w/loop'' loop_action
      [(''who to greet'', ''Ada'')] sample_state = (Inr plan, st') \<and> pl_composite plan = Some cinv \<and>
    resolvePath (child_context sample_context cinv) [''inputs'', ''who to greet''] = Inr (VStr ''Ada'')"
proof -
  let ?r = "plan_composite [] sample_params ''s'' (sample_step [] [] ''./loop'') ''/w/loop'' loop_action
      [(''who to greet'', ''Ada'')] sample_state"
  obtain plan cinv where plan: "fst ?r = Inr plan" "pl_composite plan = Some cinv"
    by (auto simp: plan_composite_def io_bind_def io_wrap_def io_ret_def on_world_def sample_params_def sample_runner_def)
  then have r: "?r = (Inr plan, snd ?r)" by (metis prod.collapse)
  have base: "ci_base_env cinv = mput ''GITHUB_ACTION_PATH'' (ContainerActionPath ''s'') (InputEnv loop_action [(''who to greet'', ''Ada'')])"
    using r plan(2) unfolding plan_composite_def by (auto simp: io_bind_Inr io_ret_Inr)
  have "ci_keys (merge (merge [] (ctx_env sample_context))
      (mput ''GITHUB_ACTION_PATH'' (ContainerActionPath ''s'') (InputEnv loop_action [(''who to greet'', ''Ada'')])))"
    by code_simp
  then have ci: "ci_keys (ctx_env (child_context sample_context cinv))"
    unfolding child_context_def Context.select_convs base .
  have "resolvePath (child_context sample_context cinv) [''inputs'', ''who to greet''] = Inr (VStr ''Ada'')"
    by (rule composite_inputs_resolve[OF r plan(2) _ _ ci]) simp_all
  with r plan(2) show ?thesis by blast
qed

end
