(* ===== verification/Result_Types.thy ===== *)
theory Result_Types
  imports Workflow_Run
begin

text \<open>
  The types of what a run answers and of what its expressions see. A conclusion is a Go string
  (\<open>internal/engine/executor.go\<close>); that it is always one of three, and fits the exit code beside it, is a
  fact about the code, lifted here from one step over composite actions, jobs and the interleaved
  combinations of \<open>workflow_run.go\<close> to the result of the whole workflow.
\<close>

subsection \<open>Well-typed contexts and reports\<close>

definition conclusions :: "string set" where
  "conclusions = {''success'', ''failure'', ''skipped''}"

text \<open>The Go maps hold a key once, and a step's recorded outcome is a conclusion.\<close>

definition ctx_typed :: "Context \<Rightarrow> bool" where
  "ctx_typed c \<longleftrightarrow> map_wf (ctx_env c) \<and> map_wf (ctx_steps c) \<and>
     (\<forall>o' \<in> snd ` set (ctx_steps c). so_outcome o' \<in> conclusions)"

text \<open>A process that failed concludes in failure; a step that did not run has no output.\<close>

definition report_typed :: "JobResult_step \<Rightarrow> bool" where
  "report_typed r \<longleftrightarrow> rep_conclusion r \<in> conclusions \<and> (rep_exit_code r \<noteq> 0 \<longrightarrow> rep_conclusion r = ''failure'') \<and>
     (rep_conclusion r = ''skipped'' \<longrightarrow> rep_stdout r = [] \<and> rep_stderr r = [])"

definition job_typed :: "JobResult \<Rightarrow> bool" where
  "job_typed jr \<longleftrightarrow> jr_conclusion jr \<in> conclusions \<and> list_all report_typed (jr_steps jr)"

definition ctx_kept :: "'w exec_state \<Rightarrow> 'w exec_state \<Rightarrow> bool" where
  "ctx_kept st st' \<longleftrightarrow> (ctx_typed (x_ctx st) \<longrightarrow> ctx_typed (x_ctx st'))"

interpretation typed: step_relation ctx_kept
  by unfold_locales (auto simp: ctx_kept_def)

lemma snd_set_mput: "snd ` set (mput k v m) \<subseteq> insert v (snd ` set m)"
  by (induction m) auto

lemma ctx_typed_intros:
  "ctx_typed c \<Longrightarrow> so_outcome o' \<in> conclusions \<Longrightarrow> ctx_typed (set_outcome sid o' c)"
  "ctx_typed c \<Longrightarrow> ctx_typed (add_env m c)"
proof -
  assume "ctx_typed c" "so_outcome o' \<in> conclusions"
  moreover from this have "\<forall>x \<in> snd ` set (mput sid o' (ctx_steps c)). so_outcome x \<in> conclusions"
    using snd_set_mput[of sid o' "ctx_steps c"] unfolding ctx_typed_def by blast
  ultimately show "ctx_typed (set_outcome sid o' c)" by (simp add: ctx_typed_def set_outcome_def)
qed (simp add: ctx_typed_def add_env_def)

lemma keeps_typed_upd:
  "so_outcome o' \<in> conclusions \<Longrightarrow> keeps ctx_kept (upd_ctx (set_outcome sid o'))"
  "keeps ctx_kept (upd_ctx (add_env m))"
  by (simp_all add: keeps_def upd_ctx_def ctx_kept_def ctx_typed_intros)

lemma conclusion_of_cases: "conclusion_of r \<in> conclusions" "conclusion_of r \<noteq> ''skipped''"
  "sr_exit_code r \<noteq> 0 \<Longrightarrow> conclusion_of r = ''failure''"
  by (simp_all add: conclusion_of_def conclusions_def)

subsection \<open>Steps\<close>

lemma returns_report: "returns report_typed (report_step step sid r)"
  by (auto simp: returns_def report_step_def Let_def report_typed_def conclusion_of_cases split: prod.split)

lemma typed_leaf_steps:
  "returns (\<lambda>x. report_typed (fst x)) (skip_step step sid)" "keeps ctx_kept (skip_step step sid)"
  "returns (\<lambda>x. report_typed (fst x)) (run_planned_step h ctx p step sid cm plan)"
  "keeps ctx_kept (run_planned_step h ctx p step sid cm plan)"
proof -
  show "returns (\<lambda>x. report_typed (fst x)) (skip_step step sid)"
    unfolding skip_step_def by (intro returns_intros) (simp add: report_typed_def conclusions_def)
  show "keeps ctx_kept (skip_step step sid)"
    unfolding skip_step_def by (intro typed.keeps_basic keeps_typed_upd) (simp add: conclusions_def)
  show "returns (\<lambda>x. report_typed (fst x)) (run_planned_step h ctx p step sid cm plan)"
    unfolding run_planned_step_def record_result_def
    by (intro returns_bind_any returns_bind[OF returns_report]) (simp add: returns_basic)
  show "keeps ctx_kept (run_planned_step h ctx p step sid cm plan)"
    unfolding run_planned_step_def record_result_def
    by (intro typed.keeps_basic keeps_typed_upd) (simp add: conclusion_of_cases)
qed

lemma keeps_typed_child:
  "keeps ctx_kept (\<lambda>st. in_child (child_context (f st) cinv) m st)"
  by (auto simp: keeps_def in_child_def ctx_kept_def split: prod.split)

lemma returns_in_child: "returns Q m \<Longrightarrow> returns Q (in_child c m)"
  by (auto simp: returns_def in_child_def split: prod.splits)

lemma keeps_typed_composite: "keeps ctx_kept (runCompositeSteps h ctx p cinv)"
  unfolding runCompositeSteps.simps by (simp add: keeps_typed_child typed.keeps_fail)

text \<open>A nested run succeeds or fails.\<close>

definition ended :: "string \<Rightarrow> bool" where
  "ended c \<longleftrightarrow> c \<in> {''success'', ''failure''}"

lemma composite_report_typed:
  "ended c \<Longrightarrow> report_typed \<lparr>rep_id = i, rep_name = n, rep_conclusion = c, rep_exit_code = 0, rep_stdout = so,
     rep_stderr = se\<rparr>" "ended c \<Longrightarrow> c \<in> conclusions"
  by (auto simp: ended_def report_typed_def conclusions_def)

lemma typed_runStep:
  "returns (\<lambda>x. report_typed (fst x)) (runStep h ctx p step sid) \<and> keeps ctx_kept (runStep h ctx p step sid)"
  "returns (\<lambda>x. ended (fst x)) (runCompositeSteps h ctx p cinv)"
  "returns (\<lambda>x. ended (fst x)) (run_nested h ctx p i steps)"
proof (induction h ctx p step sid and h ctx p cinv and h ctx p i steps
    rule: runStep_runCompositeSteps_run_nested.induct)
  case IH: (1 h ctx p step sid)
  have comp: "returns (\<lambda>x. ended (fst x)) (io_wrap msg (runCompositeSteps h ctx p cinv))"
    if "go" "pl_composite plan = Some cinv" for go msg cinv and plan :: usesStepPlan
    by (rule returns_basic(3)) (use IH that in blast)
  have "returns (\<lambda>x. report_typed (fst x)) (case pl_composite plan of
       Some cinv \<Rightarrow>
         io_bind (io_wrap (''composite step '' @ sid) (runCompositeSteps h ctx p cinv)) (\<lambda>(conclusion, outputs, stdout, stderr).
         io_bind (upd_ctx (set_outcome sid \<lparr>so_outcome = conclusion, so_outputs = outputs\<rparr>)) (\<lambda>_.
         io_ret (\<lparr>rep_id = sid, rep_name = step_name step, rep_conclusion = conclusion, rep_exit_code = 0,
           rep_stdout = stdout, rep_stderr = stderr\<rparr>, None)))
     | None \<Rightarrow> run_planned_step h ctx p step sid cm plan)" (is "returns _ (?rest cm plan)") if go for go cm plan
  proof (cases "pl_composite plan")
    case (Some cinv)
    show ?thesis unfolding Some option.case
      by (rule returns_bind[OF comp[OF that Some]]) (auto intro!: returns_intros composite_report_typed)
  qed (simp add: typed_leaf_steps)
  moreover have "keeps ctx_kept (?rest cm plan)" if go for go cm plan
  proof (cases "pl_composite plan")
    case (Some cinv)
    show ?thesis unfolding Some option.case
      by (rule typed.keeps_bind_returns[OF _ comp[OF that Some]])
        (auto intro!: typed.keeps_basic keeps_typed_upd keeps_typed_composite composite_report_typed)
  qed (simp add: typed_leaf_steps)
  ultimately show ?case unfolding runStep.simps
    by (auto intro!: returns_intros typed_leaf_steps typed.keeps_basic typed.keeps_starts typed.keeps_step_prepare
      split: prod.split)
next
  case IH: (2 h ctx p cinv)
  have "returns (\<lambda>x. ended (fst x)) (in_child c (io_bind (run_nested h ctx (child_params p) 0 (ci_steps cinv)) (\<lambda>(conclusion, stdout, stderr).
         io_bind (composite_outputs h cinv) (\<lambda>outputs. io_ret (conclusion, outputs, stdout, stderr)))))"
    if "\<not> maxCompositeDepth < pm_depth p + 1" for c
  proof (rule returns_in_child, rule returns_bind[OF IH[OF that]])
    fix x :: "string \<times> string \<times> string"
    assume "ended (fst x)"
    then show "returns (\<lambda>x. ended (fst x)) (case x of (conclusion, stdout, stderr) \<Rightarrow>
         io_bind (composite_outputs h cinv) (\<lambda>outputs. io_ret (conclusion, outputs, stdout, stderr)))"
      by (cases x) (auto intro!: returns_intros)
  qed
  then show ?case unfolding runCompositeSteps.simps
    by (auto simp: returns_basic(2)) (auto simp: returns_def)
next
  case (3 h ctx p i)
  show ?case unfolding run_nested.simps by (intro returns_intros) (simp add: ended_def)
next
  case IH: (4 h ctx p i step steps)
  show ?case unfolding run_nested.simps
  proof (rule returns_bind_any)
    fix x :: "JobResult_step \<times> pendingPostAction option"
    obtain report post where x: "x = (report, post)" by (cases x)
    have "returns (\<lambda>x. ended (fst x)) (io_bind (run_nested h ctx p (Suc i) steps) (\<lambda>(conclusion, stdout, stderr).
       io_ret (conclusion, rep_stdout report @ stdout, rep_stderr report @ stderr)))" if "\<not> stops_job step report"
      by (rule returns_bind[OF IH(2)[OF that]]) (auto intro!: returns_basic)
    then show "returns (\<lambda>x. ended (fst x)) (case x of (report, _) \<Rightarrow>
        if stops_job step report then io_ret (''failure'', rep_stdout report, rep_stderr report)
        else io_bind (run_nested h ctx p (Suc i) steps) (\<lambda>(conclusion, stdout, stderr).
          io_ret (conclusion, rep_stdout report @ stdout, rep_stderr report @ stderr)))"
      by (simp add: x returns_basic ended_def)
  qed
qed


lemmas runStep_typed = typed_runStep(1)[THEN conjunct1] typed_runStep(1)[THEN conjunct2]

text \<open>The outcome that is recorded is the one that is reported.\<close>

definition recorded :: "string \<Rightarrow> string \<Rightarrow> 'w exec_state \<Rightarrow> bool" where
  "recorded sid c st \<longleftrightarrow> (\<exists>out. mget (ctx_steps (x_ctx st)) sid = Some out \<and> so_outcome out = c)"

lemma recorded_set: "upd_ctx (set_outcome sid o') st = (r, st') \<Longrightarrow> recorded sid (so_outcome o') st'"
  by (auto simp: recorded_def upd_ctx_def set_outcome_def)

lemma recorded_report:
  "report_step step sid r st = (Inr rep, st') \<Longrightarrow> x_ctx st' = x_ctx st \<and> rep_conclusion rep = conclusion_of r"
  by (auto simp: report_step_def Let_def split: prod.splits)

lemma planned_step_recorded:
  assumes "run_planned_step h ctx p step sid cm plan st = (Inr (report, post), st')"
  shows "recorded sid (rep_conclusion report) st'"
proof -
  from assms obtain fileSet r st1 where "record_result h step sid plan fileSet r st1 = (Inr (report, post), st')"
    unfolding run_planned_step_def io_bind_Inr by blast
  then obtain out u st2 st3 where "upd_ctx (set_outcome sid out) st2 = (u, st3)" "so_outcome out = conclusion_of r"
    "report_step step sid r st3 = (Inr report, st')"
    unfolding record_result_def by (fastforce simp: io_bind_Inr io_wrap_Inr io_ret_def)
  with recorded_set[OF this(1)] recorded_report[OF this(3)] show ?thesis by (simp add: recorded_def)
qed

lemma runStep_recorded:
  assumes "runStep h ctx p step sid st = (Inr (report, post), st')"
  shows "recorded sid (rep_conclusion report) st'"
proof -
  from assms consider st1 where "skip_step step sid st1 = (Inr (report, post), st')"
    | st1 cm plan where "run_planned_step h ctx p step sid cm plan st1 = (Inr (report, post), st')"
    | out st1 u where "upd_ctx (set_outcome sid out) st1 = (u, st')" "rep_conclusion report = so_outcome out"
    unfolding runStep.simps
    by (auto simp: io_bind_Inr io_ret_def split: if_splits option.splits)
  then show ?thesis
  proof cases
    case 1
    then show ?thesis by (auto simp: skip_step_def io_bind_Inr io_ret_def dest: recorded_set)
  qed (auto dest: planned_step_recorded recorded_set)
qed

subsection \<open>Jobs\<close>

lemma run_main_steps_typed:
  "returns (\<lambda>x. list_all report_typed (fst x) \<and> ended (snd (snd x))) (run_main_steps h ctx p i steps)"
proof (induction steps arbitrary: i)
  case Nil
  show ?case by (simp add: returns_basic ended_def)
next
  case (Cons step steps)
  show ?case unfolding run_main_steps.simps
  proof (rule returns_bind[OF runStep_typed(1)])
    fix x :: "JobResult_step \<times> pendingPostAction option"
    assume "report_typed (fst x)"
    then show "returns (\<lambda>x. list_all report_typed (fst x) \<and> ended (snd (snd x))) (case x of (report, post) \<Rightarrow>
        let posts = (case post of None \<Rightarrow> [] | Some pa \<Rightarrow> [pa]) in
        if stops_job step report then io_ret ([report], posts, ''failure'')
        else io_bind (run_main_steps h ctx p (Suc i) steps) (\<lambda>(reports, posts', conclusion).
          io_ret (report # reports, posts @ posts', conclusion)))"
      by (cases x) (auto simp: Let_def ended_def[of "''failure''"] intro!: returns_basic returns_bind[OF Cons.IH])
  qed
qed

lemma post_report_typed: "report_typed (post_report pa r)"
  by (simp add: post_report_def report_typed_def conclusion_of_cases)

lemma run_post_typed: "returns (list_all report_typed) (run_post h ctx p pa)"
  unfolding run_post_def by (auto intro!: returns_intros simp: post_report_typed)

lemma run_job_steps_typed: "returns job_typed (run_job_steps h ctx p job)"
proof -
  have main: "returns job_typed (io_bind (io_map (run_post h ctx p) (rev posts)) (\<lambda>post_reports.
      io_bind (job_output_values h job) (\<lambda>outputs.
      io_ret \<lparr>jr_conclusion = conclusion, jr_steps = reports @ concat post_reports, jr_outputs = outputs\<rparr>)))"
    if "list_all report_typed reports" "ended conclusion" for reports conclusion posts
    by (rule returns_bind[OF returns_map[OF run_post_typed]])
      (use that in \<open>auto simp: job_typed_def list_all_iff intro!: returns_intros composite_report_typed(2)\<close>)
  show ?thesis unfolding run_job_steps_def
    by (rule returns_bind[OF run_main_steps_typed]) (auto split: prod.split intro!: main)
qed

lemma returns_with_stop: "returns Q m \<Longrightarrow> returns Q (with_stop ctx rj c m)"
  by (auto simp: returns_def with_stop_def split: prod.splits)

lemma RunJob_typed: "returns job_typed (RunJob h ctx w job backend opts)"
  unfolding RunJob_def run_in_environment_def
  by (auto intro!: returns_intros returns_with_stop run_job_steps_typed)

subsection \<open>Workflows\<close>

text \<open>Under any schedule: what the goroutines have recorded so far.\<close>

definition phase_typed :: "'w phase \<Rightarrow> bool" where
  "phase_typed s \<longleftrightarrow> (\<forall>i. list_all report_typed (ph_steps s i))"

lemma phase_typed_step:
  assumes exec: "\<And>i d. returns job_typed (cb_exec e i d)" and s: "phase_typed s" and step: "combos_step e s t"
  shows "phase_typed t"
proof -
  from step obtain i where i: "advance e i s = Some t" by (rule combos_stepE)
  have rec: "phase_typed (record_combo e i res u)" if "phase_typed u" "\<And>jr. res = Inr jr \<Longrightarrow> job_typed jr" for res u
    using that by (auto simp: record_combo_def note_err_def phase_typed_def job_typed_def Let_def split: sum.split)
  have fin: "phase_typed (finish e i r s)" for r
  proof -
    obtain res w where x: "cb_exec e i (i \<in> ph_done s) (ph_world s) = (res, w)" by (cases "cb_exec e i (i \<in> ph_done s) (ph_world s)")
    with exec[of i "i \<in> ph_done s"] have jt: "\<And>jr. res = Inr jr \<Longrightarrow> job_typed jr" unfolding returns_def by blast
    have "phase_typed (s\<lparr>ph_world := w\<rparr>)" using s by (simp add: phase_typed_def)
    from rec[OF this jt] show ?thesis by (simp add: finish_def x phase_typed_def leave_def move_def)
  qed
  show ?thesis using i s fin
    by (auto simp: advance_def take_slot_def check_stop_def enter_group_cases leave_def move_def note_err_def phase_typed_def
      split: place.splits if_splits sum.splits option.splits prod.splits)
qed

lemma run_combos_typed:
  assumes "\<And>i d. returns job_typed (cb_exec e i d)"
  shows "phase_typed (run_combos e pick w)"
proof -
  have init: "phase_typed (phase_init w)" by (simp add: phase_typed_def phase_init_def)
  have "(combos_step e)\<^sup>*\<^sup>* (phase_init w) (run_combos e pick w)" unfolding run_combos_def by (rule drive_steps)
  then show ?thesis
    by (induction rule: rtranclp_induct) (auto intro: init phase_typed_step[OF assms])
qed

lemma skipped_report_typed:
  "report_typed \<lparr>rep_id = i, rep_name = n, rep_conclusion = ''skipped'', rep_exit_code = 0, rep_stdout = [], rep_stderr = []\<rparr>"
  by (simp add: report_typed_def conclusions_def)

lemma job_result_typed: "phase_typed s \<Longrightarrow> job_result name combos s = Inr jr \<Longrightarrow> job_typed jr"
  by (auto simp: job_result_def job_typed_def conclusions_def phase_typed_def list_all_iff skipped_report_typed
    split: option.splits if_splits)

lemma run_one_job_typed:
  assumes "run_one_job h sch ctx wfl job sel opts name outcomes w = (Inr jr, w1)"
  shows "job_typed jr"
proof -
  have "returns job_typed (combo_exec h ctx wfl job sel opts name outcomes combo d)" for combo d
    unfolding combo_exec_def Let_def by (intro returns_intros RunJob_typed)
  then have "phase_typed (run_combos (job_combos h sch ctx wfl job sel opts name outcomes combos conc) pick w)" for combos conc pick
    by (intro run_combos_typed) (simp add: job_combos_def)
  with assms show ?thesis unfolding run_one_job_def Let_def
    by (auto split: sum.splits simp: map_sum_def dest: job_result_typed)
qed

lemma skipped_job_typed: "job_typed skipped_job"
  by (simp add: skipped_job_def job_typed_def conclusions_def)

definition jobs_typed :: "JobResult smap \<Rightarrow> bool" where
  "jobs_typed jobs \<longleftrightarrow> map_wf jobs \<and> (\<forall>jr \<in> snd ` set jobs. job_typed jr)"

lemma jobs_typed_mput: "jobs_typed jobs \<Longrightarrow> job_typed jr \<Longrightarrow> jobs_typed (mput n jr jobs)"
  using snd_set_mput[of n jr jobs] unfolding jobs_typed_def by (metis insert_iff map_wf_mput subset_iff)

lemma run_jobs_typed:
  "run_jobs h sch ctx wfl sel opts names outcomes jobs w = (Inr res, w') \<Longrightarrow> jobs_typed jobs \<Longrightarrow>
   jobs_typed res \<and> fst ` set res = fst ` set jobs \<union> set names"
proof (induction names arbitrary: outcomes jobs w)
  case (Cons name names)
  have step: "?case" if "job_typed jr" "run_jobs h sch ctx wfl sel opts names out' (mput name jr jobs) v = (Inr res, w')" for jr out' v
    using Cons.IH[OF that(2) jobs_typed_mput[OF Cons.prems(2) that(1)]] by (auto simp: dom_update)
  show ?case
  proof (cases "list_ex (need_missing outcomes) (job_needs (wf_job wfl name))")
    case True
    with Cons.prems(1) step[OF skipped_job_typed] show ?thesis by simp
  next
    case False
    with Cons.prems(1) obtain jr w1 where "run_one_job h sch ctx wfl (wf_job wfl name) sel opts name outcomes w = (Inr jr, w1)"
      and run: "run_jobs h sch ctx wfl sel opts names (mput name (outcome_of jr) outcomes) (mput name jr jobs) w1 = (Inr res, w')"
      by (auto split: prod.splits sum.splits)
    from step[OF run_one_job_typed[OF this(1)] run] show ?thesis .
  qed
qed simp

lemma RunWorkflow_typed:
  assumes "RunWorkflow h sch ctx wfl sel opts w = (Inr res, w')"
  shows "jobs_typed (wr_jobs res) \<and> fst ` set (wr_jobs res) = set (wr_order res)"
proof -
  from assms obtain names jobs where "run_jobs h sch ctx wfl sel opts names [] [] w = (Inr jobs, w')"
    "res = \<lparr>wr_jobs = jobs, wr_order = names\<rparr>"
    by (auto simp: RunWorkflow_def map_sum_def split: if_splits sum.splits prod.splits)
  with run_jobs_typed[of h sch ctx wfl sel opts names "[]" "[]" w jobs w'] show ?thesis by (auto simp: jobs_typed_def)
qed

text \<open>C11: The result of a workflow is well typed, whatever the processes, servers and files answer, at every depth of
  composite actions and under every interleaving of the combinations: there is one result per job and no
  other; every conclusion, of a job or of a reported step, is one of success, failure and skipped; a step
  whose exit code is not 0 is reported as a failure; a step that was skipped reports no output.\<close>

theorem workflow_result_well_typed:
  assumes "RunWorkflow h sch ctx wfl sel opts w = (Inr res, w')"
  shows "distinct (map fst (wr_jobs res)) \<and> fst ` set (wr_jobs res) = fst ` set (wf_jobs wfl) \<and>
    (\<forall>name jr r. mget (wr_jobs res) name = Some jr \<longrightarrow>
       jr_conclusion jr \<in> {''success'', ''failure'', ''skipped''} \<and>
       (r \<in> set (jr_steps jr) \<longrightarrow> rep_conclusion r \<in> {''success'', ''failure'', ''skipped''} \<and>
         (rep_exit_code r \<noteq> 0 \<longrightarrow> rep_conclusion r = ''failure'') \<and>
         (rep_conclusion r = ''skipped'' \<longrightarrow> rep_stdout r = [] \<and> rep_stderr r = [])))"
proof -
  note typed = RunWorkflow_typed[OF assms]
  have "fst ` set (wr_jobs res) = fst ` set (wf_jobs wfl)"
    using typed TopoSortJobs_Inr(2)[OF RunWorkflow_Inr(1)[OF assms]] by simp
  moreover have "job_typed jr" if "mget (wr_jobs res) name = Some jr" for name jr
    using typed map_of_SomeD[OF that] by (force simp: jobs_typed_def)
  ultimately show ?thesis using typed
    by (auto simp: jobs_typed_def map_wf_def job_typed_def report_typed_def conclusions_def list_all_iff)
qed

theorem workflow_result_well_typed_witness:
  "\<exists>res w' jr. RunWorkflow sample_host any_schedule [] build_then_deploy (\<lambda>_. Inr failing_backend) sample_options 0 = (Inr res, w') \<and>
    mget (wr_jobs res) ''build'' = Some jr \<and> jr_steps jr \<noteq> [] \<and>
    (\<forall>r \<in> set (jr_steps jr). rep_exit_code r \<noteq> 0 \<and> rep_conclusion r = ''failure'')"
proof -
  let ?r = "RunWorkflow sample_host any_schedule [] build_then_deploy (\<lambda>_. Inr failing_backend) sample_options 0"
  obtain res jr where res: "fst ?r = Inr res" "mget (wr_jobs res) ''build'' = Some jr" "jr_steps jr \<noteq> []"
    "\<forall>r \<in> set (jr_steps jr). rep_exit_code r \<noteq> 0"
    unfolding build_then_deploy_run by simp
  have run: "?r = (Inr res, snd ?r)" using res(1) by (metis prod.collapse)
  have "\<forall>r \<in> set (jr_steps jr). rep_conclusion r = ''failure''"
    using workflow_result_well_typed[OF run] res(2,4) by blast
  with run res show ?thesis by blast
qed

subsection \<open>What later steps see\<close>

lemma job_context_typed: "ctx_typed (job_context w job opts e c)"
  by (auto simp: ctx_typed_def job_context_def Let_def add_env_def set_github_def NewContext_def split: option.split)

text \<open>C12: The context an expression is evaluated in stays well typed: from a context whose \<open>env\<close> and \<open>steps\<close> hold each key
  once and whose outcomes are conclusions, such as every job's first one, a step leads to such a context, whatever it does or answers; and
  when it reports, the outcome recorded under its id, which later \<open>if:\<close> conditions read, is the reported one.\<close>

theorem step_context_well_typed:
  assumes "ctx_typed (x_ctx st)"
  shows "ctx_typed (job_context w job opts environment container) \<and>
    ctx_typed (x_ctx (snd (runStep h ctx p step sid st))) \<and>
    (\<forall>report post st'. runStep h ctx p step sid st = (Inr (report, post), st') \<longrightarrow>
       (\<exists>out. mget (ctx_steps (x_ctx st')) sid = Some out \<and> so_outcome out = rep_conclusion report))"
proof -
  have "keeps ctx_kept (runStep h ctx p step sid)" by (rule runStep_typed)
  with assms have "ctx_typed (x_ctx (snd (runStep h ctx p step sid st)))" by (simp add: keeps_def ctx_kept_def)
  then show ?thesis using runStep_recorded job_context_typed unfolding recorded_def by blast
qed


theorem step_context_well_typed_witness:
  "\<exists>out. mget (ctx_steps (x_ctx (snd (runStep sample_host [] sample_params (sample_step [] ''login'' []) ''s'' sample_state)))) ''s'' =
    Some out \<and> so_outcome out = ''success''"
proof -
  let ?r = "runStep sample_host [] sample_params (sample_step [] ''login'' []) ''s'' sample_state"
  have typed: "ctx_typed (x_ctx (sample_state :: int exec_state))"
    by (simp add: ctx_typed_def sample_state_def sample_context_def map_wf_def conclusions_def)
  have "fst ?r = Inr (\<lparr>rep_id = ''s'', rep_name = ''a step'', rep_conclusion = ''success'', rep_exit_code = 0,
      rep_stdout = ''login ***'', rep_stderr = []\<rparr>, None)" by code_simp
  then have "?r = (Inr (\<lparr>rep_id = ''s'', rep_name = ''a step'', rep_conclusion = ''success'', rep_exit_code = 0,
      rep_stdout = ''login ***'', rep_stderr = []\<rparr>, None), snd ?r)" by (metis prod.collapse)
  with step_context_well_typed[OF typed, THEN conjunct2, THEN conjunct2] show ?thesis by fastforce
qed

end
