(* ===== verification/Spec2Isabelle.thy ===== *)
theory Spec2Isabelle
  imports Dry_Run Job_Theorems Result_Types Hash_Files Cache_Server Artifact_Server
begin

text \<open>
  A model of mirror-gha, a program that runs GitHub Actions workflows on the local machine, and its
  correctness theorems.

  \<^bold>\<open>The program and its parts.\<close> \<open>cmd/mirror/main.go\<close> reads a workflow file and its flags, starts a cache and an
  artifact server for the actions to talk to, and hands the workflow to \<open>RunWorkflow\<close>
  (\<open>internal/engine/workflow_run.go\<close>). That sorts the jobs by their needs, expands each job's matrix and runs
  the combinations in goroutines, bounded by a semaphore and queued or preempted by concurrency groups. One
  combination is one \<open>RunJob\<close> (\<open>executor.go\<close>): a backend (\<open>internal/runner\<close>) provides an environment, the steps
  run in it one after the other, each a command or an action (\<open>uses_step.go\<close>, \<open>internal/actions\<close>), an action
  possibly with steps of its own (\<open>composite_step.go\<close>). Steps answer through files and printed commands
  (\<open>internal/commands\<close>), and read contexts through expressions (\<open>expr.go\<close>, \<open>context.go\<close>, the vendored parser
  \<open>third_party/ghaexpr\<close>).

  \<^bold>\<open>Theories, in the order of their dependence.\<close>
  \<^item> \<open>Prelude\<close>: Go's strings and maps, error results; the locales \<open>string_map\<close> (interpreted on association lists),
    \<open>invariant_system\<close> and \<open>terminating_system\<close> (interpreted on the concurrency groups and the combinations), and
    \<open>simulation\<close>, a deterministic machine that refines another (interpreted on the cache server).
  \<^item> \<open>GoValue\<close>, \<open>Matrix\<close> (\<open>matrix.go\<close>), \<open>Workflow\<close> (\<open>workflow.go\<close>, \<open>credentials.go\<close>), \<open>Topo\<close> (\<open>TopoSortJobs\<close>): values, the
    workflow's data, the expansion of a matrix and the order of the jobs. Theorems: the combinations are, in
    axis-major order, the choices no exclude matches, includes never change an axis value, no result depends on the iteration order
    of a map, and how many combinations there can be; a successful sort is a topological order and failure means
    an unknown job or a cycle.
  \<^item> \<open>Ghaexpr_Ast\<close>, \<open>Ghaexpr_Lexer\<close>, \<open>Ghaexpr_Parser\<close>, \<open>Context\<close>, \<open>Hash_Files\<close>, \<open>Expr_Eval\<close>: expressions. Theorems: the tokens
    give back the source, whatever parses is derived by the grammar, the evaluator meets no node it does not
    know, \<open>globMatch\<close> and \<open>hashFiles\<close> agree with declarative definitions.
  \<^item> \<open>Paths\<close>, \<open>Commands\<close> (\<open>internal/commands\<close>): file formats, printed commands, masks. Theorems: heredocs round-trip,
    masked values are gone.
  \<^item> \<open>Disk\<close>, \<open>Http\<close>: a directory tree, and of \<open>net/http\<close> and \<open>net/url\<close> what the servers use: requests, queries, percent
    encoding, the patterns of \<open>ServeMux\<close>, \<open>ServeFile\<close>. Theorems: unescaping undoes \<open>QueryEscape\<close>, a URL that was
    handed out leads back to its route.
  \<^item> \<open>Cache_Store\<close>, \<open>Cache_Server\<close> (\<open>internal/cacheserver\<close>), \<open>Artifact_Store\<close>, \<open>Artifact_Server\<close> (\<open>internal/artifactserver\<close>):
    for each server the store with the body of every handler, then the routes and the server as a machine that
    answers requests. The locale \<open>blob_writer\<close> is what their uploads need of a file. Theorems: the cache server
    refines an abstract map from ids to contents under every sequence of requests and restarts; over HTTP, what
    was uploaded in any chunks is what is downloaded, for the cache and both artifact protocols; no request
    reaches a file outside the artifact store; and an encoded id that overwrites the cache's index.
  \<^item> \<open>Host\<close>: the machine as a record of operations, effects as state-passing functions (\<open>io\<close>), the interface of a
    job's environment (\<open>runner_job\<close>), and the locale \<open>io_relation\<close> for what every part of an effect keeps, which
    \<open>step_relation\<close> in \<open>Executor\<close> extends to the parts of a step.
  \<^item> \<open>Runner\<close> (\<open>internal/runner\<close>), \<open>Actions\<close> (\<open>internal/actions\<close>): the backends with their exact command lines; references,
    metadata, downloads and images. Theorems: quoting options and parsing references round-trip, waiting for a
    service ends.
  \<^item> \<open>Executor\<close> (\<open>executor.go\<close>, \<open>uses_step.go\<close>, \<open>composite_step.go\<close>) and \<open>Job_Theorems\<close>: steps, actions, jobs. Theorems: what a
    step cannot change, registered masks never show in a step's output, what a job reports and in which
    order, composite recursion is cut after exactly ten levels, composite inputs are what \<open>with\<close> gave.
  \<^item> \<open>Concurrency\<close> (\<open>concurrency_scheduler.go\<close>), \<open>Combinations\<close> and \<open>Workflow_Run\<close> (\<open>workflow_run.go\<close>): the goroutines as a
    transition system under an arbitrary schedule, and the loop over jobs. Theorems: two combinations of
    one queued group never run together and none waits for a free group (preempted groups are not exclusive),
    which holds of the goroutines because every action of theirs is a step of the scheduler (\<open>advance_groups\<close>); at most \<open>max-parallel\<close> combinations run and start in order, all finish
    under every schedule, one at a time is the same as in sequence, combinations that share no
    state and are not cancelled report what they report when run alone, whatever the schedule; a job is skipped exactly when a need did not succeed.
  \<^item> \<open>Result_Types\<close>: conclusions, reports and contexts as types, from one step up to the workflow. Theorems: whatever the
    machine does, every conclusion is one of three and fits the exit code, there is one result per job, and the
    outcome later steps see is the one that is reported.
  \<^item> \<open>Flags\<close> (what is used of the \<open>flag\<close> package), \<open>Cli\<close> (\<open>main.go\<close>, \<open>event_payloads.go\<close>, the starting and stopping of the
    servers) and \<open>Dry_Run\<close>: \<open>main\<close> with its arguments, output and exit code. Theorems: flags that are rendered are
    parsed back, every server that was started is stopped, the exit code is 0 exactly when every job succeeded,
    a dry run of commands starts no process.

  \<^bold>\<open>State and operations.\<close> A Go struct is a record with the fields' names behind a short prefix, a map is an
  association list in the order one \<open>range\<close> loop visits it, an error is the left of a sum. A function that
  changes shared data takes and returns it: \<open>exec_state\<close> holds what \<open>runStep\<close> changes through its pointers (the
  context, \<open>NodeReady\<close>, \<open>Masks\<close>) and the machine's state, \<open>phase\<close> what the goroutines of a job share, \<open>scheduler\<close>,
  \<open>cache_store\<close> and \<open>disk\<close> what their structs hold.

  \<^bold>\<open>Parameters.\<close> The YAML and JSON libraries, the hash and glob functions of the standard library on single
  segments, the operating system and the processes it runs are fields of \<open>host\<close>, \<open>eval_env\<close> and \<open>cli\<close>; the Go
  scheduler's choices are a \<open>schedule\<close>. Theorems hold for all of them; where one needs a property of the
  machine it is a named hypothesis (\<open>clock_ok\<close>).

  \<^bold>\<open>Bounds and fuel.\<close> \<open>waitForServiceHealth\<close> runs with fuel for 302 polls, and \<open>wait_polls_enough\<close> shows that five minutes
  of one-second sleeps never need more. A composite action nests at most ten deep, which is the measure of
  \<open>runStep\<close>'s recursion. \<open>run_combos\<close> drives its goroutines for four actions each, and \<open>job_combinations_finish\<close> shows
  that this ends them all.

  \<^bold>\<open>What is abstracted.\<close> Strings are bytes, and case mapping is ASCII's. A goroutine runs its whole job in one action of
  the transition system, so the effects of two combinations on the machine are not interleaved within a job,
  and a context that is cancelled counts as done from the start of the run it cancels (a timeout of zero). A
  server handles a request in one step; the actions of a workflow reach the servers through their own
  processes, so a run and the requests it causes are not connected. The wording of an error is kept only as
  far as it tells errors apart. Sorting ties follow the stable order. \<open>?\<close> and classes of a glob match one byte, and
  the key of an input has one \<open>_\<close> for each byte that is not alphanumeric. A file name may be of any bytes and
  length, and the size of a directory is zero.

  \<^bold>\<open>Not modelled.\<close> The vendored YAML library; the sockets below \<open>net.Listen\<close>, which answer a port or an error; \<open>Range\<close> and
  conditional headers of \<open>ServeFile\<close>; the wording of parser errors and of positions (\<open>quotes.go\<close>, lines and columns).
\<close>

end
